(* ===== verification/Prelude.thy ===== *)
theory Prelude
  imports Main "HOL-Library.Word" "HOL-Library.Char_ord" "HOL-Library.List_Lexorder"
    "HOL-Library.Product_Lexorder" "HOL-Library.Multiset"
begin

text \<open>
  Shared vocabulary of the development: Go's instants and durations, error values with
  \<open>errors.Is\<close>, decimal conversion (\<open>strconv.Itoa\<close>, \<open>strconv.Atoi\<close>), and the
  lemmas on keyed row lists that every SQL statement of the store reduces to.

  Conventions. A Go \<open>string\<close> or byte slice is a \<^typ>\<open>string\<close> (a list of bytes). A
  \<open>time.Time\<close> is an \<^typ>\<open>int\<close>, nanoseconds since the Unix epoch. A
  \<open>time.Duration\<close> is an \<^typ>\<open>int\<close> in the range of a signed 64-bit integer; where the
  source computes one by an operation that can leave that range the wrap-around
  (\<open>wrap64\<close>) or the saturation (\<open>sat64\<close>) is written out. A Go map is an association
  list whose order is the order in which one iteration visits it.
\<close>

named_theorems time_simps \<open>unfolding rules of the operations on instants and durations\<close>

section \<open>Instants and durations\<close>

type_synonym time = int
type_synonym duration = int
type_synonym ('k, 'v) gomap = "('k \<times> 'v) list"
type_synonym header = "(string, string list) gomap"

definition wrap64 :: "int \<Rightarrow> int" where
  "wrap64 x = signed_take_bit 63 x"

definition sat64 :: "int \<Rightarrow> int" where
  "sat64 x = max (- (2 ^ 63)) (min (2 ^ 63 - 1) x)"

definition int64 :: "int \<Rightarrow> bool" where
  "int64 x \<longleftrightarrow> - (2 ^ 63) \<le> x \<and> x \<le> 2 ^ 63 - 1"

definition Second :: duration where "Second = 1000000000"
definition Minute :: duration where "Minute = 60 * Second"
definition Hour :: duration where "Hour = 60 * Minute"

lemmas duration_units = Second_def Minute_def Hour_def

text \<open>\<open>t.Add(d)\<close>, \<open>t.Sub(u)\<close> (which saturates), \<open>t.After(u)\<close> and \<open>t.Before(u)\<close>.\<close>

definition Add :: "time \<Rightarrow> duration \<Rightarrow> time" where
  [time_simps]: "Add t d = t + d"

definition Sub :: "time \<Rightarrow> time \<Rightarrow> duration" where
  [time_simps]: "Sub t u = sat64 (t - u)"

definition After :: "time \<Rightarrow> time \<Rightarrow> bool" where
  [time_simps]: "After t u \<longleftrightarrow> u < t"

definition Before :: "time \<Rightarrow> time \<Rightarrow> bool" where
  [time_simps]: "Before t u \<longleftrightarrow> t < u"

lemma wrap64_id: "int64 x \<Longrightarrow> wrap64 x = x"
  unfolding wrap64_def int64_def by (rule signed_take_bit_int_eq_self) auto

lemma wrap64_int64: "int64 (wrap64 x)"
proof -
  have "- (2 ^ 63) \<le> signed_take_bit 63 x" by (rule signed_take_bit_int_greater_eq_minus_exp)
  moreover have "signed_take_bit 63 x < 2 ^ 63" by (rule signed_take_bit_int_less_exp)
  ultimately show ?thesis by (simp add: int64_def wrap64_def)
qed

lemma sat64_le_iff: "c < 2 ^ 63 - 1 \<Longrightarrow> - (2 ^ 63) \<le> c \<Longrightarrow> sat64 x \<le> c \<longleftrightarrow> x \<le> c"
  by (auto simp: sat64_def)

lemma sat64_id: "int64 x \<Longrightarrow> sat64 x = x"
  by (simp add: sat64_def int64_def)

section \<open>Errors\<close>

text \<open>
  The sentinel errors the source compares with \<open>errors.Is\<close>. Two variables with the same
  text are different values in Go (\<open>postgres.ErrNotFound\<close> and
  \<open>notification.ErrTaskNotFound\<close> both read "notification not found"), so each is a
  constructor of its own. \<open>Errorf\<close> is \<open>fmt.Errorf\<close>, \<open>errors.New\<close> or
  \<open>errors.Join\<close>: a text and the errors it wraps. \<open>PgError\<close> is a server error that
  carries the name of the violated constraint.
\<close>

datatype sentinel =
    ErrTaskNotFound | ErrNotDead
  | ErrIdempotencyConflict | ErrUnknownDestination
  | PgErrIdempotencyConflict | PgErrGenerationConflict | PgErrNotFound
  | ErrConfirmLost
  | ErrDestinationNotAllowed | ErrRedirectNotAllowed
  | Canceled | DeadlineExceeded | EOF | MaxBytesError | ErrServerClosed

datatype error =
    Sentinel sentinel
  | Errorf string "error list"
  | PgError string

fun errors_is :: "error \<Rightarrow> sentinel \<Rightarrow> bool" where
  "errors_is (Sentinel s) t = (s = t)"
| "errors_is (Errorf m es) t = list_ex (\<lambda>e. errors_is e t) es"
| "errors_is (PgError c) t = False"

abbreviation New :: "string \<Rightarrow> error" where
  "New m \<equiv> Errorf m []"

section \<open>Decimal integers\<close>

definition digit_char :: "nat \<Rightarrow> char" where
  "digit_char d = char_of (48 + d)"

definition is_digit :: "char \<Rightarrow> bool" where
  "is_digit c \<longleftrightarrow> 48 \<le> (of_char c :: nat) \<and> (of_char c :: nat) \<le> 57"

definition digit_val :: "char \<Rightarrow> nat" where
  "digit_val c = of_char c - 48"

fun show_nat :: "nat \<Rightarrow> string" where
  "show_nat n = (if n < 10 then [digit_char n] else show_nat (n div 10) @ [digit_char (n mod 10)])"

declare show_nat.simps [simp del]

definition Itoa :: "int \<Rightarrow> string" where
  "Itoa i = (if i < 0 then CHR ''-'' # show_nat (nat (- i)) else show_nat (nat i))"

definition digits_val :: "string \<Rightarrow> nat" where
  "digits_val s = foldl (\<lambda>a c. 10 * a + digit_val c) 0 s"

text \<open>
  \<open>strconv.Atoi\<close>: an optional sign, at least one digit, digits only, and a value in the
  range of a 64-bit \<open>int\<close>; anything else is an error.
\<close>

definition Atoi :: "string \<Rightarrow> int option" where
  "Atoi s =
     (let (neg, ds) = (case s of
         [] \<Rightarrow> (False, [])
       | c # cs \<Rightarrow> if c = CHR ''-'' then (True, cs) else if c = CHR ''+'' then (False, cs) else (False, s))
      in if ds \<noteq> [] \<and> list_all is_digit ds
         then let v = (if neg then - int (digits_val ds) else int (digits_val ds))
              in if int64 v then Some v else None
         else None)"

lemma of_char_digit: "d < 10 \<Longrightarrow> (of_char (digit_char d) :: nat) = 48 + d"
  by (simp add: digit_char_def)

lemma is_digit_char [simp]: "d < 10 \<Longrightarrow> is_digit (digit_char d)"
  by (simp add: is_digit_def of_char_digit)

lemma digit_val_char [simp]: "d < 10 \<Longrightarrow> digit_val (digit_char d) = d"
  by (simp add: digit_val_def of_char_digit)

lemma show_nat_digits: "list_all is_digit (show_nat n) \<and> show_nat n \<noteq> []"
proof (induction n rule: show_nat.induct)
  case (1 n)
  then show ?case by (subst (1 2) show_nat.simps) auto
qed

lemma digits_val_snoc: "digits_val (s @ [c]) = 10 * digits_val s + digit_val c"
  by (simp add: digits_val_def)

lemma digits_val_show: "digits_val (show_nat n) = n"
proof (induction n rule: show_nat.induct)
  case (1 n)
  show ?case
  proof (cases "n < 10")
    case True
    then show ?thesis by (subst show_nat.simps) (simp add: digits_val_def)
  next
    case False
    with "1.IH" show ?thesis by (subst show_nat.simps) (simp add: digits_val_snoc)
  qed
qed

lemma show_nat_inject [simp]: "show_nat m = show_nat n \<longleftrightarrow> m = n"
  by (metis digits_val_show)

lemma is_digit_not_sign: "is_digit c \<Longrightarrow> c \<noteq> CHR ''-'' \<and> c \<noteq> CHR ''+'' \<and> c \<noteq> CHR '':''"
  by (auto simp: is_digit_def)

lemma Atoi_Itoa: "int64 i \<Longrightarrow> Atoi (Itoa i) = Some i"
proof (cases "i < 0")
  case True
  assume "int64 i"
  with True show ?thesis
    using show_nat_digits [of "nat (- i)"] by (simp add: Atoi_def Itoa_def digits_val_show Let_def)
next
  case False
  assume i: "int64 i"
  obtain c cs where s: "show_nat (nat i) = c # cs" and c: "is_digit c"
    using show_nat_digits [of "nat i"] by (cases "show_nat (nat i)") auto
  from False i s is_digit_not_sign [OF c] show ?thesis
    using show_nat_digits [of "nat i"] digits_val_show [of "nat i"]
    by (simp add: Atoi_def Itoa_def Let_def)
qed

section \<open>Row lists with a key\<close>

text \<open>
  A table is the list of its rows. \<open>lookup_by k rs i\<close> is the row a query on the key
  \<open>k\<close> finds, \<open>update_where p f rs\<close> is \<open>UPDATE .. SET f WHERE p\<close>, and
  \<open>count_where\<close> is the number of rows it affects.
\<close>

definition lookup_by :: "('a \<Rightarrow> 'k) \<Rightarrow> 'a list \<Rightarrow> 'k \<Rightarrow> 'a option" where
  "lookup_by k rs i = find (\<lambda>r. k r = i) rs"

definition update_where :: "('a \<Rightarrow> bool) \<Rightarrow> ('a \<Rightarrow> 'a) \<Rightarrow> 'a list \<Rightarrow> 'a list" where
  "update_where p f rs = map (\<lambda>r. if p r then f r else r) rs"

definition count_where :: "('a \<Rightarrow> bool) \<Rightarrow> 'a list \<Rightarrow> nat" where
  "count_where p rs = length (filter p rs)"

lemma lookup_by_Nil [simp]: "lookup_by k [] i = None"
  by (simp add: lookup_by_def)

lemma lookup_by_Cons [simp]: "lookup_by k (r # rs) i = (if k r = i then Some r else lookup_by k rs i)"
  by (simp add: lookup_by_def)

lemma lookup_by_append:
  "lookup_by k (rs @ qs) i = (case lookup_by k rs i of None \<Rightarrow> lookup_by k qs i | Some r \<Rightarrow> Some r)"
  by (induction rs) auto

lemma lookup_by_SomeD: "lookup_by k rs i = Some r \<Longrightarrow> r \<in> set rs \<and> k r = i"
  by (induction rs) (auto split: if_splits)

lemma lookup_by_None_iff: "lookup_by k rs i = None \<longleftrightarrow> i \<notin> k ` set rs"
  by (induction rs) auto

lemma lookup_by_eqI:
  "distinct (map k rs) \<Longrightarrow> r \<in> set rs \<Longrightarrow> k r = i \<Longrightarrow> lookup_by k rs i = Some r"
  by (induction rs) (auto simp: image_iff)

lemma lookup_by_mem_iff:
  "distinct (map k rs) \<Longrightarrow> lookup_by k rs i = Some r \<longleftrightarrow> r \<in> set rs \<and> k r = i"
  using lookup_by_eqI lookup_by_SomeD by metis

lemma lookup_by_update_where:
  "(\<And>r. k (f r) = k r) \<Longrightarrow>
   lookup_by k (update_where p f rs) i =
     map_option (\<lambda>r. if p r then f r else r) (lookup_by k rs i)"
  by (induction rs) (auto simp: update_where_def)

lemma lookup_by_filter:
  "distinct (map k rs) \<Longrightarrow>
   lookup_by k (filter p rs) i =
     (case lookup_by k rs i of None \<Rightarrow> None | Some r \<Rightarrow> if p r then Some r else None)"
proof (induction rs)
  case (Cons r rs)
  then show ?case
    by (auto simp: lookup_by_None_iff image_iff split: option.splits dest!: lookup_by_SomeD)
qed simp

lemma set_update_where: "set (update_where p f rs) = (\<lambda>r. if p r then f r else r) ` set rs"
  by (simp add: update_where_def)

lemma map_update_where: "(\<And>r. k (f r) = k r) \<Longrightarrow> map k (update_where p f rs) = map k rs"
  by (simp add: update_where_def)

lemma image_update_where: "(\<And>r. k (f r) = k r) \<Longrightarrow> k ` set (update_where p f rs) = k ` set rs"
  by (metis map_update_where set_map)

lemma length_update_where [simp]: "length (update_where p f rs) = length rs"
  by (simp add: update_where_def)

lemma update_where_none: "(\<And>r. r \<in> set rs \<Longrightarrow> \<not> p r) \<Longrightarrow> update_where p f rs = rs"
  by (simp add: update_where_def map_idI)

lemma filter_key_lookup:
  "distinct (map k rs) \<Longrightarrow>
   filter (\<lambda>r. k r = i \<and> p r) rs =
     (case lookup_by k rs i of None \<Rightarrow> [] | Some r \<Rightarrow> if p r then [r] else [])"
proof (induction rs)
  case (Cons r rs)
  from Cons.prems have "k r = i \<Longrightarrow> filter (\<lambda>q. k q = i \<and> p q) rs = []"
    by (auto simp: filter_empty_conv image_iff)
  with Cons show ?case by (auto split: option.splits dest!: lookup_by_SomeD)
qed simp

lemma count_where_key:
  "distinct (map k rs) \<Longrightarrow>
   count_where (\<lambda>r. k r = i \<and> p r) rs =
     (case lookup_by k rs i of None \<Rightarrow> 0 | Some r \<Rightarrow> if p r then 1 else 0)"
  by (auto simp: count_where_def filter_key_lookup split: option.splits)

lemma count_where_pos_iff: "0 < count_where p rs \<longleftrightarrow> (\<exists>r \<in> set rs. p r)"
  by (auto simp: count_where_def filter_empty_conv)

section \<open>Bounded ordered selections\<close>

text \<open>\<open>SELECT .. ORDER BY f LIMIT n FOR UPDATE SKIP LOCKED\<close>: the first \<open>n\<close> rows that pass.\<close>

lemma selection_least:
  assumes "x \<in> set (take n (filter q (sort_key f rs)))" "y \<in> set rs" "q y"
    "y \<notin> set (take n (filter q (sort_key f rs)))"
  shows "f x \<le> f y" and "length (take n (filter q (sort_key f rs))) = n"
proof -
  let ?s = "filter q (sort_key f rs)"
  from assms(2-4) have "y \<in> set ?s" "y \<notin> set (take n ?s)" by simp_all
  then have y: "y \<in> set (drop n ?s)" by (metis Un_iff append_take_drop_id set_append)
  have "sorted (map f ?s)" by (simp add: sorted_filter)
  then have "sorted (map f (take n ?s) @ map f (drop n ?s))" by (metis append_take_drop_id map_append)
  with assms(1) y show "f x \<le> f y" by (auto simp: sorted_append)
  from y have "drop n ?s \<noteq> []" by auto
  then show "length (take n ?s) = n" by simp
qed

lemma selection_all: "length (filter q rs) \<le> n \<Longrightarrow> set (take n (filter q (sort_key f rs))) = {r \<in> set rs. q r}"
  by (simp add: filter_sort)

lemma selection_subset: "set (take n (filter q (sort_key f rs))) \<subseteq> {r \<in> set rs. q r}"
  by (auto dest!: in_set_takeD)

lemma distinct_map_sort_key: "distinct (map f (sort_key g xs)) = distinct (map f xs)"
  by (metis mset_map mset_sort mset_eq_imp_distinct_iff)

lemma selection_distinct:
  "distinct (map k rs) \<Longrightarrow> distinct (map k (take n (filter q (sort_key f rs))))"
  unfolding take_map [symmetric] by (intro distinct_take distinct_map_filter) (simp add: distinct_map_sort_key)

section \<open>Inductive invariants\<close>

text \<open>The proof obligations of an invariant of a step relation, and what they give.\<close>

locale inductive_invariant =
  fixes init :: "'s" and step :: "'s \<Rightarrow> 's \<Rightarrow> bool" and inv :: "'s \<Rightarrow> bool"
  assumes init_inv: "inv init" and step_inv: "inv s \<Longrightarrow> step s s' \<Longrightarrow> inv s'"
begin

lemma steps_inv: "step\<^sup>*\<^sup>* s s' \<Longrightarrow> inv s \<Longrightarrow> inv s'"
  by (induction rule: rtranclp_induct) (auto intro: step_inv)

lemma reachable_inv: "step\<^sup>*\<^sup>* init s \<Longrightarrow> inv s"
  using steps_inv init_inv by blast

end

end
