(* ===== verification/Utf8.thy ===== *)
theory Utf8
  imports Prelude
begin

text \<open>
  UTF-8 as Go's \<open>unicode/utf8\<close> and \<open>strings\<close> packages treat it: decoding one rune from a
  byte string (an ill-formed sequence is one \<open>RuneError\<close> of width one), encoding a rune,
  \<open>strings.Map\<close>, and well-formedness, which is also what a TEXT column of a UTF-8 database
  requires. The main facts are that decoding inverts encoding and that \<open>strings.Map\<close>
  always returns well-formed text.
\<close>

abbreviation byte :: "char \<Rightarrow> nat" where
  "byte c \<equiv> of_char c"

definition RuneError :: nat where
  "RuneError = 65533"

definition cont :: "nat \<Rightarrow> bool" where
  "cont b \<longleftrightarrow> 128 \<le> b \<and> b < 192"

text \<open>The admissible range of the second byte of a sequence, by its first byte.\<close>

definition second_ok :: "nat \<Rightarrow> nat \<Rightarrow> bool" where
  "second_ok b0 b1 \<longleftrightarrow>
     (if b0 = 224 then 160 else if b0 = 240 then 144 else 128) \<le> b1 \<and>
     b1 < (if b0 = 237 then 160 else if b0 = 244 then 144 else 192)"

text \<open>\<open>decode_rune\<close> takes bytes as numbers and returns the rune and its width.\<close>

fun decode_rune :: "nat list \<Rightarrow> nat \<times> nat" where
  "decode_rune [] = (RuneError, 0)"
| "decode_rune (b0 # bs) =
     (if b0 < 128 then (b0, 1)
      else case bs of
        b1 # bs1 \<Rightarrow>
          if 194 \<le> b0 \<and> b0 < 224 \<and> cont b1 then ((b0 - 192) * 64 + (b1 - 128), 2)
          else (case bs1 of
            b2 # bs2 \<Rightarrow>
              if 224 \<le> b0 \<and> b0 < 240 \<and> second_ok b0 b1 \<and> cont b2
              then (((b0 - 224) * 64 + (b1 - 128)) * 64 + (b2 - 128), 3)
              else (case bs2 of
                b3 # _ \<Rightarrow>
                  if 240 \<le> b0 \<and> b0 < 245 \<and> second_ok b0 b1 \<and> cont b2 \<and> cont b3
                  then ((((b0 - 240) * 64 + (b1 - 128)) * 64 + (b2 - 128)) * 64 + (b3 - 128), 4)
                  else (RuneError, 1)
              | [] \<Rightarrow> (RuneError, 1))
          | [] \<Rightarrow> (RuneError, 1))
      | [] \<Rightarrow> (RuneError, 1))"

lemma decode_rune_width: "bs \<noteq> [] \<Longrightarrow> 0 < snd (decode_rune bs)"
  by (cases bs) (auto split: list.splits if_splits)

lemma decode_rune_width_le: "snd (decode_rune bs) \<le> length bs"
  by (cases bs) (auto split: list.splits if_splits)

text \<open>Iterating \<open>range s\<close>: the runes of a string; and well-formedness of a string.\<close>

function runes :: "nat list \<Rightarrow> nat list" where
  "runes bs = (if bs = [] then [] else fst (decode_rune bs) # runes (drop (snd (decode_rune bs)) bs))"
  by pat_completeness auto
termination
  by (relation "measure length") (auto simp: decode_rune_width intro!: diff_less)

function valid_bytes :: "nat list \<Rightarrow> bool" where
  "valid_bytes bs =
     (if bs = [] then True
      else decode_rune bs \<noteq> (RuneError, 1) \<and> valid_bytes (drop (snd (decode_rune bs)) bs))"
  by pat_completeness auto
termination
  by (relation "measure length") (auto simp: decode_rune_width intro!: diff_less)

declare runes.simps [simp del] valid_bytes.simps [simp del]

definition utf8_valid :: "string \<Rightarrow> bool" where
  "utf8_valid s = valid_bytes (map byte s)"

definition valid_rune :: "nat \<Rightarrow> bool" where
  "valid_rune r \<longleftrightarrow> r < 55296 \<or> 57344 \<le> r \<and> r < 1114112"

text \<open>\<open>utf8.AppendRune\<close>: surrogates and values out of range are written as \<open>RuneError\<close>.\<close>

definition encode_valid :: "nat \<Rightarrow> nat list" where
  "encode_valid r =
     (if r < 128 then [r]
      else if r < 2048 then [192 + r div 64, 128 + r mod 64]
      else if r < 65536 then [224 + r div 4096, 128 + (r div 64) mod 64, 128 + r mod 64]
      else [240 + r div 262144, 128 + (r div 4096) mod 64, 128 + (r div 64) mod 64, 128 + r mod 64])"

definition encode_rune :: "nat \<Rightarrow> nat list" where
  "encode_rune r = encode_valid (if valid_rune r then r else RuneError)"

definition strings_Map :: "(nat \<Rightarrow> nat) \<Rightarrow> string \<Rightarrow> string" where
  "strings_Map f s = map char_of (concat (map (\<lambda>r. encode_rune (f r)) (runes (map byte s))))"

text \<open>PostgreSQL's \<open>length\<close> of a text counts characters, here the bytes that start one.\<close>

definition char_length :: "string \<Rightarrow> nat" where
  "char_length s = length (filter (\<lambda>c. \<not> cont (byte c)) s)"

lemma char_length_le: "char_length s \<le> length s"
  by (simp add: char_length_def)

section \<open>Decoding inverts encoding\<close>

lemma decode_encode_valid:
  assumes "valid_rune r"
  shows "decode_rune (encode_valid r @ bs) = (r, length (encode_valid r))"
proof -
  consider "r < 128" | "128 \<le> r" "r < 2048" | "2048 \<le> r" "r < 65536" | "65536 \<le> r" by linarith
  then show ?thesis
  proof cases
    case 1
    then show ?thesis by (simp add: encode_valid_def)
  next
    case 2
    then have "2 \<le> r div 64" "r div 64 < 32" by auto
    with 2 show ?thesis by (simp add: encode_valid_def cont_def)
  next
    case 3
    define a b c where "a = r div 4096" and "b = (r div 64) mod 64" and "c = r mod 64"
    have "a = r div 64 div 64" by (simp add: a_def div_mult2_eq [symmetric])
    then have r: "r = (a * 64 + b) * 64 + c" by (simp only: b_def c_def div_mult_mod_eq)
    have e: "encode_valid r = [224 + a, 128 + b, 128 + c]"
      using 3 by (simp add: encode_valid_def a_def b_def c_def)
    have bc: "b < 64" "c < 64" "a < 16" using 3 by (auto simp: a_def b_def c_def)
    moreover have "a = 0 \<Longrightarrow> 32 \<le> b" using 3 r bc by simp
    moreover have "a = 13 \<Longrightarrow> b < 32" using assms r bc by (auto simp: valid_rune_def)
    ultimately have "second_ok (224 + a) (128 + b)" by (auto simp: second_ok_def)
    with bc show ?thesis unfolding e by (simp add: cont_def r)
  next
    case 4
    define a b c d where "a = r div 262144" and "b = (r div 4096) mod 64"
      and "c = (r div 64) mod 64" and "d = r mod 64"
    have "a = r div 64 div 64 div 64" "b = (r div 64 div 64) mod 64"
      by (simp_all add: a_def b_def div_mult2_eq [symmetric])
    then have r: "r = ((a * 64 + b) * 64 + c) * 64 + d" by (simp only: c_def d_def div_mult_mod_eq)
    have e: "encode_valid r = [240 + a, 128 + b, 128 + c, 128 + d]"
      using 4 by (simp add: encode_valid_def a_def b_def c_def d_def)
    have bc: "b < 64" "c < 64" "d < 64" by (auto simp: b_def c_def d_def)
    have a: "a < 5" using assms r bc by (auto simp: valid_rune_def)
    moreover have "a = 0 \<Longrightarrow> 16 \<le> b" using 4 r bc by simp
    moreover have "a = 4 \<Longrightarrow> b < 16" using assms r bc by (auto simp: valid_rune_def)
    ultimately have "second_ok (240 + a) (128 + b)" using bc by (auto simp: second_ok_def)
    with bc a show ?thesis unfolding e by (simp add: cont_def r)
  qed
qed

lemma valid_rune_RuneError: "valid_rune RuneError"
  by (simp add: valid_rune_def RuneError_def)

lemma encode_rune_decode:
  "decode_rune (encode_rune r @ bs) = ((if valid_rune r then r else RuneError), length (encode_rune r))"
  unfolding encode_rune_def using decode_encode_valid valid_rune_RuneError by (cases "valid_rune r") auto

lemma encode_RuneError_length: "length (encode_valid RuneError) = 3"
  by (simp add: encode_valid_def RuneError_def)

lemma encode_rune_nonempty [simp]: "encode_rune r \<noteq> []"
  by (simp add: encode_rune_def encode_valid_def)

lemma encode_rune_bytes: "b \<in> set (encode_rune r) \<Longrightarrow> b < 256"
  by (auto simp: encode_rune_def encode_valid_def valid_rune_def RuneError_def split: if_splits)

lemma valid_bytes_encode: "valid_bytes (encode_rune r @ bs) \<longleftrightarrow> valid_bytes bs"
proof -
  have "decode_rune (encode_rune r @ bs) \<noteq> (RuneError, 1)"
  proof
    assume "decode_rune (encode_rune r @ bs) = (RuneError, 1)"
    then have "(if valid_rune r then r else RuneError) = RuneError" and "length (encode_rune r) = 1"
      by (simp_all add: encode_rune_decode)
    then show False unfolding encode_rune_def using encode_RuneError_length by simp
  qed
  then show ?thesis
    by (subst valid_bytes.simps) (simp add: encode_rune_decode)
qed

lemma valid_bytes_concat: "valid_bytes (concat (map encode_rune rs))"
  by (induction rs) (simp_all add: valid_bytes_encode valid_bytes.simps [of "[]"])

lemma runes_encode: "runes (encode_rune r @ bs) = (if valid_rune r then r else RuneError) # runes bs"
  by (subst runes.simps) (simp add: encode_rune_decode)

lemma byte_char_of_map: "\<forall>b \<in> set bs. b < 256 \<Longrightarrow> map byte (map char_of bs) = bs"
  by (induction bs) auto

lemma strings_Map_bytes: "map byte (strings_Map f s) = concat (map (\<lambda>r. encode_rune (f r)) (runes (map byte s)))"
  unfolding strings_Map_def by (rule byte_char_of_map) (auto dest: encode_rune_bytes)

lemma strings_Map_valid: "utf8_valid (strings_Map f s)"
proof -
  have "map (\<lambda>r. encode_rune (f r)) rs = map encode_rune (map f rs)" for rs by simp
  then show ?thesis unfolding utf8_valid_def strings_Map_bytes by (metis valid_bytes_concat)
qed

section \<open>ASCII text\<close>

definition ascii :: "string \<Rightarrow> bool" where
  "ascii s \<longleftrightarrow> list_all (\<lambda>c. byte c < 128) s"

lemma ascii_valid: "ascii s \<Longrightarrow> utf8_valid s"
proof (induction s)
  case (Cons c s)
  then show ?case
    by (simp add: utf8_valid_def ascii_def RuneError_def valid_bytes.simps [of "byte c # map byte s"])
qed (simp add: utf8_valid_def valid_bytes.simps)

lemma ascii_take: "ascii s \<Longrightarrow> ascii (take n s)"
  by (auto simp: ascii_def list_all_iff dest: in_set_takeD)

lemma ascii_char_length: "ascii s \<Longrightarrow> char_length s = length s"
  by (induction s) (auto simp: ascii_def char_length_def cont_def)

end
