(* ===== verification/Json.thy ===== *)
theory Json
  imports Prelude "HOL-Library.AList"
begin

text \<open>
  JSON values and the conversions of \<open>encoding/json\<close> between them and the Go values the
  store keeps in JSONB columns: headers, secret references and retry delays. A number is
  its literal text, as \<open>json.Number\<close>. The round trips at the end are what the store's
  reads of a snapshot rest on.
\<close>

datatype json =
    JNull
  | JBool bool
  | JNum string
  | JStr string
  | JArr "json list"
  | JObj "(string \<times> json) list"

fun those_map :: "('a \<Rightarrow> 'b option) \<Rightarrow> 'a list \<Rightarrow> 'b list option" where
  "those_map f [] = Some []"
| "those_map f (x # xs) =
     (case f x of None \<Rightarrow> None
      | Some y \<Rightarrow> (case those_map f xs of None \<Rightarrow> None | Some ys \<Rightarrow> Some (y # ys)))"

text \<open>A later member of an object overwrites an earlier one with the same name.\<close>

definition to_map :: "(string \<times> 'v) list \<Rightarrow> (string, 'v) gomap" where
  "to_map kvs = foldl (\<lambda>m (k, v). AList.update k v m) [] kvs"

definition marshal_header :: "header \<Rightarrow> json" where
  "marshal_header h = JObj (map (\<lambda>(k, vs). (k, JArr (map JStr vs))) h)"

fun unmarshal_string :: "json \<Rightarrow> string option" where
  "unmarshal_string (JStr s) = Some s"
| "unmarshal_string JNull = Some []"
| "unmarshal_string _ = None"

fun unmarshal_strings :: "json \<Rightarrow> string list option" where
  "unmarshal_strings (JArr js) = those_map unmarshal_string js"
| "unmarshal_strings JNull = Some []"
| "unmarshal_strings _ = None"

fun unmarshal_header :: "json \<Rightarrow> header option" where
  "unmarshal_header (JObj kvs) =
     map_option to_map (those_map (\<lambda>(k, j). map_option (Pair k) (unmarshal_strings j)) kvs)"
| "unmarshal_header JNull = Some []"
| "unmarshal_header _ = None"

definition marshal_strmap :: "(string, string) gomap \<Rightarrow> json" where
  "marshal_strmap m = JObj (map (\<lambda>(k, v). (k, JStr v)) m)"

fun unmarshal_strmap :: "json \<Rightarrow> (string, string) gomap option" where
  "unmarshal_strmap (JObj kvs) =
     map_option to_map (those_map (\<lambda>(k, j). map_option (Pair k) (unmarshal_string j)) kvs)"
| "unmarshal_strmap JNull = Some []"
| "unmarshal_strmap _ = None"

text \<open>A nil slice is \<open>null\<close>; the clone of an empty slice of delays is nil.\<close>

definition marshal_delays :: "duration list \<Rightarrow> json" where
  "marshal_delays ds = (if ds = [] then JNull else JArr (map (\<lambda>d. JNum (Itoa d)) ds))"

fun unmarshal_delay :: "json \<Rightarrow> duration option" where
  "unmarshal_delay (JNum s) = Atoi s"
| "unmarshal_delay JNull = Some 0"
| "unmarshal_delay _ = None"

fun unmarshal_delays :: "json \<Rightarrow> duration list option" where
  "unmarshal_delays (JArr js) = those_map unmarshal_delay js"
| "unmarshal_delays JNull = Some []"
| "unmarshal_delays _ = None"

section \<open>Round trips\<close>

lemma those_map_map: "(\<And>x. x \<in> set xs \<Longrightarrow> f (g x) = Some (h x)) \<Longrightarrow> those_map f (map g xs) = Some (map h xs)"
  by (induction xs) auto

lemma update_append_new: "k \<notin> fst ` set m \<Longrightarrow> AList.update k v m = m @ [(k, v)]"
  by (induction m) auto

lemma update_all: "\<forall>x \<in> set m. P x \<Longrightarrow> P (k, v) \<Longrightarrow> \<forall>x \<in> set (AList.update k v m). P x"
  by (induction m) auto

text \<open>A map built by updates has one entry of each name, and only entries it was given.\<close>

lemma to_map_entries:
  "distinct (map fst (to_map kvs)) \<and> set (to_map kvs) \<subseteq> set kvs"
proof -
  have "distinct (map fst m) \<Longrightarrow> distinct (map fst (foldl (\<lambda>m (k, v). AList.update k v m) m kvs)) \<and>
      set (foldl (\<lambda>m (k, v). AList.update k v m) m kvs) \<subseteq> set m \<union> set kvs" for m
  proof (induction kvs arbitrary: m)
    case (Cons kv kvs)
    obtain k v where kv: "kv = (k, v)" by fastforce
    have "\<forall>x \<in> set (AList.update k v m). x \<in> set m \<union> {kv}" by (rule update_all) (auto simp: kv)
    then have "set (AList.update k v m) \<subseteq> set m \<union> {kv}" by blast
    with Cons.IH [of "AList.update k v m"] Cons.prems show ?case by (auto simp: kv distinct_update)
  qed simp
  from this [of "[]"] show ?thesis by (simp add: to_map_def)
qed

lemma foldl_update_distinct:
  "distinct (map fst (m @ kvs)) \<Longrightarrow> foldl (\<lambda>m (k, v). AList.update k v m) m kvs = m @ kvs"
proof (induction kvs arbitrary: m)
  case (Cons kv kvs)
  then have "fst kv \<notin> fst ` set m" by (auto simp: image_iff)
  then have "(case kv of (k, v) \<Rightarrow> AList.update k v m) = m @ [kv]"
    by (cases kv) (simp add: update_append_new)
  with Cons show ?case by simp
qed simp

lemma to_map_distinct: "distinct (map fst kvs) \<Longrightarrow> to_map kvs = kvs"
  using foldl_update_distinct [of "[]" kvs] by (simp add: to_map_def)

lemma header_roundtrip:
  assumes "distinct (map fst h)" shows "unmarshal_header (marshal_header h) = Some h"
proof -
  have "those_map unmarshal_string (map JStr vs) = Some vs" for vs
    using those_map_map [of vs unmarshal_string JStr id] by simp
  then have "those_map (\<lambda>(k, j). map_option (Pair k) (unmarshal_strings j))
      (map (\<lambda>(k, vs). (k, JArr (map JStr vs))) h) = Some (map id h)"
    by (intro those_map_map) auto
  with assms show ?thesis by (simp add: marshal_header_def to_map_distinct)
qed

lemma strmap_roundtrip:
  assumes "distinct (map fst m)" shows "unmarshal_strmap (marshal_strmap m) = Some m"
proof -
  have "those_map (\<lambda>(k, j). map_option (Pair k) (unmarshal_string j))
      (map (\<lambda>(k, v). (k, JStr v)) m) = Some (map id m)"
    by (intro those_map_map) auto
  with assms show ?thesis by (simp add: marshal_strmap_def to_map_distinct)
qed

lemma delays_roundtrip:
  assumes "\<forall>d \<in> set ds. int64 d" shows "unmarshal_delays (marshal_delays ds) = Some ds"
proof -
  have "those_map unmarshal_delay (map (\<lambda>d. JNum (Itoa d)) ds) = Some (map id ds)"
    using assms by (intro those_map_map) (simp add: Atoi_Itoa)
  then show ?thesis by (simp add: marshal_delays_def)
qed

end
