(* ===== verification/Notification.thy ===== *)
theory Notification
  imports Prelude
begin

text \<open>
  The domain package \<open>internal/notification\<close>: the data model (\<open>model.go\<close>), the
  classification of HTTP results and the transition table (\<open>state.go\<close>), and the choice
  of the next attempt (\<open>retry.go\<close>). The Jitter interface of \<open>retry.go\<close> is the locale
  \<open>jitter_contract\<close>; its provider is in the theory Jitter.
\<close>

section \<open>Data model\<close>

text \<open>
  \<open>Status\<close> and \<open>Outcome\<close> are string types with a closed set of constants; the schema's
  CHECK constraint admits no other status.
\<close>

datatype status =
  StatusPending | StatusDelivering | StatusRetryWait | StatusDelivered | StatusDead

datatype outcome = Delivered | Retryable | Permanent

fun outcome_string :: "outcome \<Rightarrow> string" where
  "outcome_string Delivered = ''delivered''"
| "outcome_string Retryable = ''retryable''"
| "outcome_string Permanent = ''permanent''"

record retry_policy =
  MaxAttempts :: int
  Lifetime :: duration
  Delays :: "duration list"

record delivery_snapshot =
  snap_DestinationID :: string
  snap_Method :: string
  snap_URL :: string
  snap_StaticHeaders :: header
  snap_SecretHeaders :: "(string, string) gomap"
  snap_Body :: string
  snap_Timeout :: duration
  snap_Retry :: retry_policy
  snap_ConcurrencyLimit :: int
  snap_IdempotencyKey :: string

record task =
  task_ID :: string
  task_CallerID :: string
  task_IdempotencyKey :: string
  task_RequestHash :: string
  task_Snapshot :: delivery_snapshot
  task_Status :: status
  task_AttemptCount :: int
  task_Generation :: int
  task_NextAttemptAt :: "time option"
  task_LeaseToken :: string
  task_LeaseUntil :: "time option"
  task_LastHTTPStatus :: int
  task_LastErrorCode :: string
  task_LastError :: string
  task_CreatedAt :: time
  task_UpdatedAt :: time
  task_DeliveredAt :: "time option"
  task_DeadAt :: "time option"

record outbox_event =
  event_ID :: string
  event_AggregateID :: string
  event_Generation :: int
  event_EventType :: string
  event_Payload :: "(string, string) gomap"
  event_CreatedAt :: time
  event_PublishedAt :: "time option"
  event_ClaimToken :: string
  event_ClaimUntil :: "time option"
  event_PublishAttempts :: int

record attempt_result =
  ar_Outcome :: outcome
  ar_HTTPStatus :: int
  ar_ErrorCode :: string
  ar_ErrorMessage :: string
  ar_NextAttemptAt :: "time option"
  ar_CompletedAt :: time

text \<open>A \<open>Claim\<close> is read through \<open>Acquired\<close> first: \<^const>\<open>None\<close> is a claim not acquired.\<close>

type_synonym claim = "task option"

record schedule_result =
  Scheduled :: int
  Dead :: int
  RecoveredLeases :: int

section \<open>Classification and transitions\<close>

definition ClassifyResult :: "int \<Rightarrow> error option \<Rightarrow> outcome" where
  "ClassifyResult st err =
     (if err \<noteq> None then Retryable
      else if 200 \<le> st \<and> st < 300 then Delivered
      else if st = 408 \<or> st = 425 \<or> st = 429 then Retryable
      else if 500 \<le> st \<and> st \<le> 599 then Retryable
      else Permanent)"

fun CanTransition :: "status \<Rightarrow> status \<Rightarrow> bool" where
  "CanTransition StatusPending t = (t = StatusDelivering)"
| "CanTransition StatusDelivering t = (t = StatusDelivered \<or> t = StatusRetryWait \<or> t = StatusDead)"
| "CanTransition StatusRetryWait t = (t = StatusPending \<or> t = StatusDead)"
| "CanTransition StatusDead t = (t = StatusPending)"
| "CanTransition _ t = False"

definition terminal :: "status \<Rightarrow> bool" where
  "terminal s \<longleftrightarrow> s = StatusDelivered \<or> s = StatusDead"

lemma ClassifyResult_transport [simp]: "ClassifyResult st (Some e) = Retryable"
  by (simp add: ClassifyResult_def)

lemma ClassifyResult_Delivered: "ClassifyResult st None = Delivered \<longleftrightarrow> 200 \<le> st \<and> st < 300"
  by (auto simp: ClassifyResult_def split: if_splits)

lemma ClassifyResult_Retryable:
  "ClassifyResult st None = Retryable \<longleftrightarrow> st \<in> {408, 425, 429} \<or> 500 \<le> st \<and> st \<le> 599"
  by (auto simp: ClassifyResult_def)

section \<open>The next attempt\<close>

text \<open>
  \<open>NextAttempt\<close> returns a pair of an instant and a flag; the instant is the zero time
  when the flag is false, so the pair is an option. A nil \<open>Jitter\<close> is \<^const>\<open>None\<close>.
\<close>

definition next_delay :: "retry_policy \<Rightarrow> int \<Rightarrow> (duration \<Rightarrow> duration) option \<Rightarrow> duration" where
  "next_delay policy attempt jitter =
     (let index = (if int (length (Delays policy)) \<le> attempt - 1
                   then int (length (Delays policy)) - 1 else attempt - 1);
          delay = Delays policy ! nat index
      in case jitter of None \<Rightarrow> delay | Some j \<Rightarrow> j delay)"

definition NextAttempt ::
  "retry_policy \<Rightarrow> int \<Rightarrow> time option \<Rightarrow> time \<Rightarrow> (duration \<Rightarrow> duration) option \<Rightarrow> time option" where
  "NextAttempt policy attempt retryAfter now jitter =
     (if MaxAttempts policy \<le> attempt \<or> attempt \<le> 0 \<or> Delays policy = [] then None
      else if retryAfter \<noteq> None \<and> After (the retryAfter) now then
        (if Lifetime policy < Sub (the retryAfter) now then None else retryAfter)
      else
        (let delay = next_delay policy attempt jitter
         in if delay < 0 \<or> Lifetime policy < delay then None else Some (Add now delay)))"

lemma next_delay_index:
  assumes "0 < attempt" and "Delays policy \<noteq> []"
  shows "next_delay policy attempt None \<in> set (Delays policy)"
proof -
  let ?i = "if int (length (Delays policy)) \<le> attempt - 1
            then int (length (Delays policy)) - 1 else attempt - 1"
  have "0 < length (Delays policy)" using assms by simp
  with assms(1) have "nat ?i < length (Delays policy)" by (simp add: nat_less_iff)
  then show ?thesis by (simp add: next_delay_def Let_def)
qed

lemma next_delay_jitter: "next_delay policy attempt (Some j) = j (next_delay policy attempt None)"
  by (simp add: next_delay_def Let_def)

lemma NextAttempt_exhausted:
  "MaxAttempts policy \<le> attempt \<Longrightarrow> NextAttempt policy attempt ra now j = None"
  by (simp add: NextAttempt_def)

text \<open>A returned instant is never before \<open>now\<close> and never more than the lifetime after it.\<close>

lemma NextAttempt_bounds:
  assumes "NextAttempt policy attempt ra now j = Some t" and "Lifetime policy < 2 ^ 63 - 1"
  shows "now \<le> t" and "t - now \<le> Lifetime policy" and "attempt < MaxAttempts policy"
proof -
  have "now \<le> t \<and> t - now \<le> Lifetime policy \<and> attempt < MaxAttempts policy"
  proof (cases "ra \<noteq> None \<and> After (the ra) now")
    case True
    with assms show ?thesis
      by (auto simp: NextAttempt_def time_simps sat64_def split: if_splits)
  next
    case False
    with assms(1) show ?thesis
      by (auto simp: NextAttempt_def Let_def time_simps split: if_splits)
  qed
  then show "now \<le> t" and "t - now \<le> Lifetime policy" and "attempt < MaxAttempts policy" by auto
qed

section \<open>The Jitter interface\<close>

text \<open>
  What \<open>NextAttempt\<close>'s caller relies on when it passes a jitter that drew \<open>r\<close>: a
  positive delay up to \<open>dmax\<close> stays positive and moves by at most a fifth of its value, up
  to the nanosecond that truncation costs. \<open>draw\<close> are the values the generator yields.
\<close>

locale jitter_contract =
  fixes jit :: "'r \<Rightarrow> duration \<Rightarrow> duration" and draw :: "'r \<Rightarrow> bool" and dmax :: duration
  assumes jit_lower: "draw r \<Longrightarrow> 0 < d \<Longrightarrow> d \<le> dmax \<Longrightarrow> (4 * d) div 5 \<le> jit r d"
    and jit_upper: "draw r \<Longrightarrow> 0 < d \<Longrightarrow> d \<le> dmax \<Longrightarrow> jit r d \<le> (6 * d) div 5 + 1"
    and jit_pos: "draw r \<Longrightarrow> 0 < d \<Longrightarrow> d \<le> dmax \<Longrightarrow> 1 \<le> jit r d"
begin

lemma retry_in_band:
  assumes "draw r" and "NextAttempt policy attempt None now (Some (jit r)) = Some t"
    and "\<forall>d \<in> set (Delays policy). 0 < d \<and> d \<le> dmax"
  shows "\<exists>d \<in> set (Delays policy). now + (4 * d) div 5 \<le> t \<and> t \<le> now + (6 * d) div 5 + 1 \<and> now < t"
proof -
  let ?d = "next_delay policy attempt None"
  from assms(2) have g: "0 < attempt" "Delays policy \<noteq> []" and t: "t = now + jit r ?d"
    by (auto simp: NextAttempt_def Let_def next_delay_jitter time_simps split: if_splits)
  from g have d: "?d \<in> set (Delays policy)" by (rule next_delay_index)
  with assms(3) have b: "0 < ?d" "?d \<le> dmax" by auto
  from t jit_lower [OF assms(1) b] jit_upper [OF assms(1) b] jit_pos [OF assms(1) b] d
  show ?thesis by force
qed

lemma retry_granted:
  assumes "draw r" and "0 < attempt" "attempt < MaxAttempts policy" "Delays policy \<noteq> []"
    and "\<forall>d \<in> set (Delays policy). 0 < d \<and> d \<le> dmax \<and> (6 * d) div 5 + 1 \<le> Lifetime policy"
  shows "NextAttempt policy attempt None now (Some (jit r)) \<noteq> None"
proof -
  let ?d = "next_delay policy attempt None"
  from assms(2,4) have d: "?d \<in> set (Delays policy)" by (rule next_delay_index)
  with assms(5) have b: "0 < ?d" "?d \<le> dmax" and l: "(6 * ?d) div 5 + 1 \<le> Lifetime policy" by auto
  from jit_upper [OF assms(1) b] jit_pos [OF assms(1) b] l assms(2-4) show ?thesis
    by (auto simp: NextAttempt_def Let_def next_delay_jitter)
qed

end

section \<open>Guarantees\<close>



end
