(* ===== verification/Tables.thy ===== *)
theory Tables
  imports Utf8 Json Notification
begin

text \<open>
  The schema of \<open>migrations/\<close> (tables \<open>notification_tasks\<close> and \<open>outbox_events\<close>)
  and the meaning of the SQL statements the store sends: a table is the list of its rows, a
  statement checks the constraints of the rows it writes and is atomic. What a statement
  may do besides succeeding is a \<open>fault\<close>: the server never executes it (\<open>Failed\<close>), or
  executes it and the acknowledgement is lost (\<open>Unacknowledged\<close>); the client sees an
  error in both cases.
\<close>

section \<open>Rows\<close>

record task_row =
  r_id :: string
  r_caller_id :: string
  r_idempotency_key :: string
  r_request_hash :: string
  r_destination_id :: string
  r_method :: string
  r_url :: string
  r_static_headers :: json
  r_secret_headers :: json
  r_body :: string
  r_timeout_ns :: int
  r_max_attempts :: int
  r_lifetime_ns :: int
  r_retry_delays_ns :: json
  r_concurrency_limit :: int
  r_status :: status
  r_attempt_count :: int
  r_generation :: int
  r_next_attempt_at :: "time option"
  r_lease_token :: "string option"
  r_lease_until :: "time option"
  r_last_http_status :: "int option"
  r_last_error_code :: "string option"
  r_last_error_message :: "string option"
  r_created_at :: time
  r_updated_at :: time
  r_delivered_at :: "time option"
  r_dead_at :: "time option"

record outbox_row =
  o_id :: string
  o_aggregate_id :: string
  o_generation :: int
  o_event_type :: string
  o_payload :: "(string, string) gomap"
  o_created_at :: time
  o_published_at :: "time option"
  o_claim_token :: "string option"
  o_claim_until :: "time option"
  o_publish_attempts :: int

record db =
  notification_tasks :: "task_row list"
  outbox_events :: "outbox_row list"

text \<open>
  TEXT columns hold well-formed UTF-8 without the zero byte, and \<open>length\<close> counts
  characters; INTEGER and BIGINT columns hold 32-bit and 64-bit integers.
\<close>

definition pg_text :: "string \<Rightarrow> bool" where
  "pg_text s \<longleftrightarrow> utf8_valid s \<and> list_all (\<lambda>c. byte c \<noteq> 0) s"

definition text_between :: "nat \<Rightarrow> nat \<Rightarrow> string \<Rightarrow> bool" where
  "text_between lo hi s \<longleftrightarrow> pg_text s \<and> lo \<le> char_length s \<and> char_length s \<le> hi"

lemma ascii_text_between:
  "ascii s \<Longrightarrow> list_all (\<lambda>c. byte c \<noteq> 0) s \<Longrightarrow> lo \<le> length s \<Longrightarrow> length s \<le> hi \<Longrightarrow> text_between lo hi s"
  by (simp add: text_between_def pg_text_def ascii_valid ascii_char_length)

definition opt_text :: "nat \<Rightarrow> string option \<Rightarrow> bool" where
  "opt_text hi t = (case t of None \<Rightarrow> True | Some s \<Rightarrow> text_between 0 hi s)"

definition int4 :: "int \<Rightarrow> bool" where
  "int4 i \<longleftrightarrow> - (2 ^ 31) \<le> i \<and> i < 2 ^ 31"

definition task_row_ok :: "task_row \<Rightarrow> bool" where
  "task_row_ok r \<longleftrightarrow>
     text_between 1 64 (r_id r) \<and> text_between 1 128 (r_caller_id r) \<and>
     text_between 1 256 (r_idempotency_key r) \<and> length (r_request_hash r) = 32 \<and>
     text_between 1 128 (r_destination_id r) \<and>
     r_method r \<in> {''POST'', ''PUT'', ''PATCH''} \<and> text_between 1 2048 (r_url r) \<and>
     0 < r_timeout_ns r \<and> int64 (r_timeout_ns r) \<and>
     1 \<le> r_max_attempts r \<and> r_max_attempts r \<le> 32 \<and>
     0 < r_lifetime_ns r \<and> int64 (r_lifetime_ns r) \<and>
     0 < r_concurrency_limit r \<and> int4 (r_concurrency_limit r) \<and>
     0 \<le> r_attempt_count r \<and> int4 (r_attempt_count r) \<and>
     0 \<le> r_generation r \<and> int4 (r_generation r) \<and>
     (case r_lease_token r of None \<Rightarrow> True | Some s \<Rightarrow> pg_text s) \<and>
     (case r_last_http_status r of None \<Rightarrow> True | Some i \<Rightarrow> int4 i) \<and>
     opt_text 128 (r_last_error_code r) \<and> opt_text 1024 (r_last_error_message r)"

definition outbox_row_ok :: "outbox_row \<Rightarrow> bool" where
  "outbox_row_ok e \<longleftrightarrow>
     text_between 1 64 (o_id e) \<and> 0 \<le> o_generation e \<and> int4 (o_generation e) \<and>
     text_between 1 128 (o_event_type e) \<and>
     (case o_claim_token e of None \<Rightarrow> True | Some s \<Rightarrow> pg_text s) \<and>
     0 \<le> o_publish_attempts e \<and> int4 (o_publish_attempts e)"

section \<open>Statements and transactions\<close>

datatype fault = Completed | Failed | Unacknowledged

definition conn_error :: error where
  "conn_error = New ''connection''"

text \<open>
  One \<open>UPDATE .. SET f WHERE p RETURNING ..\<close>: it fails as a whole when a row it would
  write violates a constraint.
\<close>

definition sql_update ::
  "fault \<Rightarrow> ('r \<Rightarrow> bool) \<Rightarrow> ('r \<Rightarrow> bool) \<Rightarrow> ('r \<Rightarrow> 'r) \<Rightarrow> 'r list \<Rightarrow> (error + 'r list) \<times> 'r list" where
  "sql_update ft ok p f rs =
     (if ft = Failed then (Inl conn_error, rs)
      else if list_all ok (map f (filter p rs))
      then (if ft = Unacknowledged then Inl conn_error else Inr (map f (filter p rs)), update_where p f rs)
      else (Inl (PgError ''constraint''), rs))"

text \<open>
  Constraints of an INSERT in the order the server reports them: CHECKs, then the unique
  indexes in the order of their creation, then the foreign key.
\<close>

definition insert_task :: "task_row \<Rightarrow> db \<Rightarrow> error + db" where
  "insert_task r d =
     (if \<not> task_row_ok r then Inl (PgError ''check'')
      else if r_id r \<in> r_id ` set (notification_tasks d) then Inl (PgError ''notification_tasks_pkey'')
      else if (r_caller_id r, r_idempotency_key r)
          \<in> (\<lambda>q. (r_caller_id q, r_idempotency_key q)) ` set (notification_tasks d)
      then Inl (PgError ''notification_tasks_caller_id_idempotency_key_key'')
      else Inr (d\<lparr>notification_tasks := notification_tasks d @ [r]\<rparr>))"

definition insert_outbox :: "outbox_row \<Rightarrow> db \<Rightarrow> error + db" where
  "insert_outbox e d =
     (if \<not> outbox_row_ok e then Inl (PgError ''check'')
      else if o_id e \<in> o_id ` set (outbox_events d) then Inl (PgError ''outbox_events_pkey'')
      else if (o_aggregate_id e, o_generation e)
          \<in> (\<lambda>q. (o_aggregate_id q, o_generation q)) ` set (outbox_events d)
      then Inl (PgError ''outbox_events_aggregate_id_generation_key'')
      else if o_aggregate_id e \<notin> r_id ` set (notification_tasks d)
      then Inl (PgError ''outbox_events_aggregate_id_fkey'')
      else Inr (d\<lparr>outbox_events := outbox_events d @ [e]\<rparr>))"

text \<open>
  The faults of one transaction: whether it begins, whether its \<open>k\<close>-th statement is
  executed, and what becomes of its COMMIT. A transaction works on a copy of the database
  that the commit installs, so any error before it rolls everything back.
\<close>

record tx_faults =
  begin_ok :: bool
  stmt_ok :: "nat \<Rightarrow> bool"
  commit_fault :: fault

definition no_faults :: tx_faults where
  "no_faults = \<lparr>begin_ok = True, stmt_ok = (\<lambda>_. True), commit_fault = Completed\<rparr>"

definition stmt_fault :: "tx_faults \<Rightarrow> nat \<Rightarrow> fault" where
  "stmt_fault tf k = (if stmt_ok tf k then Completed else Failed)"

section \<open>The invariant of the database\<close>

text \<open>
  \<open>row_shape\<close>: which of the nullable columns are set is determined by the status. A
  waiting task has an instant to be retried at, a task being delivered has a lease, and no
  other task has either, so the scheduler's scan finds every task that needs it.
\<close>

definition row_shape :: "task_row \<Rightarrow> bool" where
  "row_shape r \<longleftrightarrow>
     (r_lease_token r \<noteq> None \<longleftrightarrow> r_status r = StatusDelivering) \<and>
     (r_lease_until r \<noteq> None \<longleftrightarrow> r_status r = StatusDelivering) \<and>
     (r_next_attempt_at r \<noteq> None \<longleftrightarrow> r_status r = StatusRetryWait) \<and>
     (r_delivered_at r \<noteq> None \<longleftrightarrow> r_status r = StatusDelivered) \<and>
     (r_dead_at r \<noteq> None \<longleftrightarrow> r_status r = StatusDead)"

abbreviation row_key :: "task_row \<Rightarrow> string \<times> string" where
  "row_key r \<equiv> (r_caller_id r, r_idempotency_key r)"

abbreviation event_key :: "outbox_row \<Rightarrow> string \<times> int" where
  "event_key e \<equiv> (o_aggregate_id e, o_generation e)"

definition keys_wf :: "db \<Rightarrow> bool" where
  "keys_wf d \<longleftrightarrow>
     distinct (map r_id (notification_tasks d)) \<and>
     distinct (map row_key (notification_tasks d)) \<and>
     distinct (map o_id (outbox_events d)) \<and>
     distinct (map event_key (outbox_events d)) \<and>
     o_aggregate_id ` set (outbox_events d) \<subseteq> r_id ` set (notification_tasks d)"

definition rows_wf :: "db \<Rightarrow> bool" where
  "rows_wf d \<longleftrightarrow>
     (\<forall>r \<in> set (notification_tasks d). task_row_ok r \<and> row_shape r) \<and>
     (\<forall>e \<in> set (outbox_events d). outbox_row_ok e)"

text \<open>
  \<open>covered\<close>: the outbox holds an event of the current generation of every task, and no
  event of a later one. This is what makes the insertion of the next generation free of
  conflicts and a pending task impossible to lose.
\<close>

definition covered :: "db \<Rightarrow> bool" where
  "covered d \<longleftrightarrow>
     (\<forall>r \<in> set (notification_tasks d).
        (\<exists>e \<in> set (outbox_events d). event_key e = (r_id r, r_generation r)) \<and>
        (\<forall>e \<in> set (outbox_events d). o_aggregate_id e = r_id r \<longrightarrow> o_generation e \<le> r_generation r))"

abbreviation row_gen :: "task_row \<Rightarrow> string \<times> int" where
  "row_gen r \<equiv> (r_id r, r_generation r)"

lemma covered_iff:
  "covered d \<longleftrightarrow>
     (\<forall>x \<in> row_gen ` set (notification_tasks d).
        x \<in> event_key ` set (outbox_events d) \<and>
        (\<forall>y \<in> event_key ` set (outbox_events d). fst y = fst x \<longrightarrow> snd y \<le> snd x))"
  unfolding covered_def by (auto simp: image_iff; metis)

definition db_wf :: "db \<Rightarrow> bool" where
  "db_wf d \<longleftrightarrow> keys_wf d \<and> rows_wf d \<and> covered d"

abbreviation task_of :: "db \<Rightarrow> string \<Rightarrow> task_row option" where
  "task_of d \<equiv> lookup_by r_id (notification_tasks d)"

abbreviation event_of :: "db \<Rightarrow> string \<Rightarrow> outbox_row option" where
  "event_of d \<equiv> lookup_by o_id (outbox_events d)"

definition empty_db :: db where
  "empty_db = \<lparr>notification_tasks = [], outbox_events = []\<rparr>"

lemma empty_db_wf: "db_wf empty_db"
  by (simp add: db_wf_def keys_wf_def rows_wf_def covered_def empty_db_def)

section \<open>Lemmas on statements\<close>

lemma sql_update_cases:
  "snd (sql_update ft ok p f rs) = rs \<or>
   snd (sql_update ft ok p f rs) = update_where p f rs \<and> (\<forall>r \<in> set rs. p r \<longrightarrow> ok (f r))"
  by (auto simp: sql_update_def list_all_iff)

lemma sql_update_ok:
  "fst (sql_update ft ok p f rs) = Inr qs \<longleftrightarrow>
   ft = Completed \<and> (\<forall>r \<in> set rs. p r \<longrightarrow> ok (f r)) \<and> qs = map f (filter p rs)"
  by (cases ft) (auto simp: sql_update_def list_all_iff)

lemma sql_update_ok_rows:
  "fst (sql_update ft ok p f rs) = Inr qs \<Longrightarrow> snd (sql_update ft ok p f rs) = update_where p f rs"
  by (cases ft) (auto simp: sql_update_def split: if_splits)

lemma sql_update_refused:
  "fst (sql_update ft ok p f rs) = Inl e \<Longrightarrow> ft \<noteq> Unacknowledged \<Longrightarrow> snd (sql_update ft ok p f rs) = rs"
  by (cases ft) (auto simp: sql_update_def split: if_splits)

lemma sql_update_none: "(\<And>r. r \<in> set rs \<Longrightarrow> \<not> p r) \<Longrightarrow> snd (sql_update ft ok p f rs) = rs"
  by (simp add: sql_update_def update_where_none)

lemma sql_update_completed:
  "\<forall>r \<in> set rs. p r \<longrightarrow> ok (f r) \<Longrightarrow>
   sql_update Completed ok p f rs = (Inr (map f (filter p rs)), update_where p f rs)"
  by (auto simp: sql_update_def list_all_iff)

lemma insert_task_Inr:
  "insert_task r d = Inr d' \<longleftrightarrow>
   task_row_ok r \<and> r_id r \<notin> r_id ` set (notification_tasks d) \<and>
   row_key r \<notin> row_key ` set (notification_tasks d) \<and>
   d' = d\<lparr>notification_tasks := notification_tasks d @ [r]\<rparr>"
  by (auto simp: insert_task_def)

lemma insert_outbox_Inr:
  "insert_outbox e d = Inr d' \<longleftrightarrow>
   outbox_row_ok e \<and> o_id e \<notin> o_id ` set (outbox_events d) \<and>
   event_key e \<notin> event_key ` set (outbox_events d) \<and>
   o_aggregate_id e \<in> r_id ` set (notification_tasks d) \<and>
   d' = d\<lparr>outbox_events := outbox_events d @ [e]\<rparr>"
  by (auto simp: insert_outbox_def)

lemma keys_wf_ids: "keys_wf d \<Longrightarrow> distinct (map r_id (notification_tasks d))"
  by (simp add: keys_wf_def)

lemma db_wf_ids: "db_wf d \<Longrightarrow> distinct (map r_id (notification_tasks d))"
  by (simp add: db_wf_def keys_wf_def)

lemma db_wf_event_ids: "db_wf d \<Longrightarrow> distinct (map o_id (outbox_events d))"
  by (simp add: db_wf_def keys_wf_def)

lemma db_wf_row: "db_wf d \<Longrightarrow> task_of d i = Some r \<Longrightarrow> task_row_ok r \<and> row_shape r"
  by (auto simp: db_wf_def rows_wf_def dest: lookup_by_SomeD)

lemma db_wf_event: "db_wf d \<Longrightarrow> e \<in> set (outbox_events d) \<Longrightarrow> outbox_row_ok e"
  by (auto simp: db_wf_def rows_wf_def)

text \<open>
  An UPDATE of tasks that keeps the keys and the generation, and whose rows satisfy the
  constraints and the shape, keeps the invariant.
\<close>

lemma update_tasks_wf:
  assumes wf: "db_wf d"
    and k: "\<And>r. r_id (f r) = r_id r" "\<And>r. row_key (f r) = row_key r" "\<And>r. r_generation (f r) = r_generation r"
    and ok: "\<forall>r \<in> set (notification_tasks d). p r \<longrightarrow> task_row_ok (f r)"
    and sh: "\<forall>r \<in> set (notification_tasks d). p r \<longrightarrow> row_shape (f r)"
  shows "db_wf (d\<lparr>notification_tasks := update_where p f (notification_tasks d)\<rparr>)"
proof -
  have keys: "keys_wf (d\<lparr>notification_tasks := update_where p f (notification_tasks d)\<rparr>)"
    using wf map_update_where [of r_id f p "notification_tasks d", OF k(1)]
      map_update_where [of row_key f p "notification_tasks d", OF k(2)]
      image_update_where [of r_id f p "notification_tasks d", OF k(1)]
    by (simp add: db_wf_def keys_wf_def)
  have "rows_wf (d\<lparr>notification_tasks := update_where p f (notification_tasks d)\<rparr>)"
    using wf ok sh by (auto simp: db_wf_def rows_wf_def set_update_where)
  moreover have "covered (d\<lparr>notification_tasks := update_where p f (notification_tasks d)\<rparr>)"
    using wf image_update_where [of row_gen f p "notification_tasks d"] k(1,3)
    by (simp add: db_wf_def covered_iff)
  ultimately show ?thesis using keys by (simp add: db_wf_def)
qed

text \<open>The same for an UPDATE of events that keeps their keys.\<close>

lemma update_events_wf:
  assumes wf: "db_wf d"
    and k: "\<And>e. o_id (f e) = o_id e" "\<And>e. event_key (f e) = event_key e"
    and ok: "\<forall>e \<in> set (outbox_events d). p e \<longrightarrow> outbox_row_ok (f e)"
  shows "db_wf (d\<lparr>outbox_events := update_where p f (outbox_events d)\<rparr>)"
proof -
  have k': "o_aggregate_id (f e) = o_aggregate_id e" "o_generation (f e) = o_generation e" for e
    using k(2) [of e] by simp_all
  then have keys: "keys_wf (d\<lparr>outbox_events := update_where p f (outbox_events d)\<rparr>)"
    using wf map_update_where [of o_id f p "outbox_events d", OF k(1)]
      map_update_where [of event_key f p "outbox_events d", OF k(2)]
      image_update_where [of o_aggregate_id f p "outbox_events d"]
    by (simp add: db_wf_def keys_wf_def)
  have "rows_wf (d\<lparr>outbox_events := update_where p f (outbox_events d)\<rparr>)"
    using wf ok by (auto simp: db_wf_def rows_wf_def set_update_where)
  moreover have "covered (d\<lparr>outbox_events := update_where p f (outbox_events d)\<rparr>)"
    using wf image_update_where [of event_key f p "outbox_events d", OF k(2)]
    by (simp add: db_wf_def covered_iff)
  ultimately show ?thesis using keys by (simp add: db_wf_def)
qed

text \<open>
  An UPDATE that moves one task to its next generation, followed by the INSERT of the event
  of that generation, keeps the invariant; neither half alone does.
\<close>

lemma update_where_one:
  assumes "distinct (map k rs)" "r \<in> set rs" "\<And>q. q \<in> set rs \<Longrightarrow> p q \<longleftrightarrow> q = r"
  shows "update_where p f rs = update_where (\<lambda>q. k q = k r) f rs"
proof -
  have "q \<in> set rs \<Longrightarrow> q = r \<longleftrightarrow> k q = k r" for q
    using assms(1,2) by (meson eq_key_imp_eq_value distinct_map inj_onD)
  with assms(3) show ?thesis by (auto simp: update_where_def)
qed

lemma bump_wf:
  assumes wf: "db_wf d" and r: "r \<in> set (notification_tasks d)"
    and p: "\<And>q. q \<in> set (notification_tasks d) \<Longrightarrow> p q \<longleftrightarrow> q = r"
    and k: "\<And>q. r_id (f q) = r_id q" "\<And>q. row_key (f q) = row_key q"
    and f: "r_generation (f r) = r_generation r + 1" "task_row_ok (f r)" "row_shape (f r)"
    and e: "event_key e = (r_id r, r_generation r + 1)"
    and ins: "insert_outbox e (d\<lparr>notification_tasks := update_where p f (notification_tasks d)\<rparr>) = Inr d'"
  shows "db_wf d'"
proof -
  let ?T = "notification_tasks d" and ?E = "outbox_events d"
  have d': "d' = d\<lparr>notification_tasks := update_where p f ?T, outbox_events := ?E @ [e]\<rparr>"
    and e': "outbox_row_ok e" "o_id e \<notin> o_id ` set ?E" "event_key e \<notin> event_key ` set ?E"
    using ins by (auto simp: insert_outbox_Inr)
  have keys: "keys_wf d'"
    using wf e' r k(1) map_update_where [of r_id f p ?T] map_update_where [of row_key f p ?T]
      image_update_where [of r_id f p ?T] e
    by (auto simp: d' db_wf_def keys_wf_def k)
  have rows: "rows_wf d'"
    using wf e' f p by (auto simp: d' db_wf_def rows_wf_def set_update_where)
  have "covered d'" unfolding covered_def
  proof
    fix x assume "x \<in> set (notification_tasks d')"
    then obtain q where q: "q \<in> set ?T" and x: "x = (if p q then f q else q)"
      by (auto simp: d' set_update_where)
    from wf q have c: "\<exists>e \<in> set ?E. event_key e = row_gen q"
        "\<forall>e \<in> set ?E. o_aggregate_id e = r_id q \<longrightarrow> o_generation e \<le> r_generation q"
      by (auto simp: db_wf_def covered_def)
    show "(\<exists>e \<in> set (outbox_events d'). event_key e = row_gen x) \<and>
          (\<forall>e \<in> set (outbox_events d'). o_aggregate_id e = r_id x \<longrightarrow> o_generation e \<le> r_generation x)"
    proof (cases "q = r")
      case True
      with x p r have "x = f r" by simp
      with c True f(1) e k(1) show ?thesis by (fastforce simp: d')
    next
      case False
      with x p q have "x = q" by simp
      moreover have "r_id q \<noteq> r_id r"
        using False q r db_wf_ids [OF wf] by (meson eq_key_imp_eq_value distinct_map inj_onD)
      ultimately show ?thesis using c e by (auto simp: d')
    qed
  qed
  with keys rows show ?thesis by (simp add: db_wf_def)
qed

end
