(* ===== verification/Store.thy ===== *)
theory Store
  imports Tables Sha256
begin

text \<open>
  The PostgreSQL repository \<open>internal/store/postgres\<close>, one definition per method: the
  intake transaction, the outbox claims, the delivery claims and results, the scheduler's
  transaction, the queries and replays, and the retention cleanup. Every method returns what
  the Go method returns and the database after it.

  Arguments that stand for PostgreSQL: the \<open>fault\<close> or \<open>tx_faults\<close> of the call;
  \<open>jsonb\<close>, the text a JSONB column gives back for the text written to it (\<^const>\<open>None\<close>
  when the server refuses it); \<open>locked\<close>, the rows other transactions hold locked, which
  \<open>SKIP LOCKED\<close> passes over; \<open>returning\<close>, the order of the rows of an \<open>UPDATE .. RETURNING\<close>;
  \<open>dbnow\<close>, the server's clock; \<open>between\<close>, what other sessions commit between two
  statements of the same method.
\<close>

definition NULLIF :: "'a \<Rightarrow> 'a \<Rightarrow> 'a option" where
  "NULLIF x v = (if x = v then None else Some x)"

definition COALESCE :: "'a option \<Rightarrow> 'a \<Rightarrow> 'a" where
  "COALESCE x v = (case x of None \<Rightarrow> v | Some y \<Rightarrow> y)"

section \<open>Transactions (tx.go)\<close>

definition WithTx :: "tx_faults \<Rightarrow> (tx_faults \<Rightarrow> db \<Rightarrow> error + db) \<Rightarrow> db \<Rightarrow> error option \<times> db" where
  "WithTx tf body d =
     (if \<not> begin_ok tf then (Some (Errorf ''begin transaction'' [conn_error]), d)
      else case body tf d of
        Inl e \<Rightarrow> (Some e, d)
      | Inr d' \<Rightarrow>
          (case commit_fault tf of
             Completed \<Rightarrow> (None, d')
           | Failed \<Rightarrow> (Some (Errorf ''commit transaction'' [conn_error]), d)
           | Unacknowledged \<Rightarrow> (Some (Errorf ''commit transaction'' [conn_error]), d')))"

section \<open>Intake (intake.go, outbox.go)\<close>

definition row_of_task :: "string \<Rightarrow> task \<Rightarrow> task_row" where
  "row_of_task body t =
     \<lparr>r_id = task_ID t, r_caller_id = task_CallerID t, r_idempotency_key = task_IdempotencyKey t,
      r_request_hash = task_RequestHash t,
      r_destination_id = snap_DestinationID (task_Snapshot t),
      r_method = snap_Method (task_Snapshot t), r_url = snap_URL (task_Snapshot t),
      r_static_headers = marshal_header (snap_StaticHeaders (task_Snapshot t)),
      r_secret_headers = marshal_strmap (snap_SecretHeaders (task_Snapshot t)),
      r_body = body,
      r_timeout_ns = snap_Timeout (task_Snapshot t),
      r_max_attempts = MaxAttempts (snap_Retry (task_Snapshot t)),
      r_lifetime_ns = Lifetime (snap_Retry (task_Snapshot t)),
      r_retry_delays_ns = marshal_delays (Delays (snap_Retry (task_Snapshot t))),
      r_concurrency_limit = snap_ConcurrencyLimit (task_Snapshot t),
      r_status = task_Status t, r_attempt_count = task_AttemptCount t, r_generation = task_Generation t,
      r_next_attempt_at = None, r_lease_token = None, r_lease_until = None,
      r_last_http_status = None, r_last_error_code = None, r_last_error_message = None,
      r_created_at = task_CreatedAt t, r_updated_at = task_UpdatedAt t,
      r_delivered_at = None, r_dead_at = None\<rparr>"

definition CreateNotification ::
  "(string \<Rightarrow> string option) \<Rightarrow> fault \<Rightarrow> task \<Rightarrow> db \<Rightarrow> error + db" where
  "CreateNotification jsonb ft t d =
     (if ft \<noteq> Completed then Inl (Errorf ''insert notification'' [conn_error])
      else case jsonb (snap_Body (task_Snapshot t)) of
        None \<Rightarrow> Inl (Errorf ''insert notification'' [PgError ''jsonb''])
      | Some body \<Rightarrow>
          (case insert_task (row_of_task body t) d of
             Inr d' \<Rightarrow> Inr d'
           | Inl e \<Rightarrow>
               if e = PgError ''notification_tasks_caller_id_idempotency_key_key''
               then Inl (Sentinel PgErrIdempotencyConflict)
               else Inl (Errorf ''insert notification'' [e])))"

definition row_of_event :: "outbox_event \<Rightarrow> outbox_row" where
  "row_of_event e =
     \<lparr>o_id = event_ID e, o_aggregate_id = event_AggregateID e, o_generation = event_Generation e,
      o_event_type = event_EventType e, o_payload = event_Payload e, o_created_at = event_CreatedAt e,
      o_published_at = None, o_claim_token = None, o_claim_until = None, o_publish_attempts = 0\<rparr>"

definition InsertOutbox :: "fault \<Rightarrow> outbox_event \<Rightarrow> db \<Rightarrow> error + db" where
  "InsertOutbox ft e d =
     (if ft \<noteq> Completed then Inl (Errorf ''insert outbox event'' [conn_error])
      else case insert_outbox (row_of_event e) d of
        Inr d' \<Rightarrow> Inr d'
      | Inl err \<Rightarrow>
          if err = PgError ''outbox_events_aggregate_id_generation_key''
          then Inl (Sentinel PgErrGenerationConflict)
          else Inl (Errorf ''insert outbox event'' [err]))"

text \<open>A \<open>Task\<close> of which only the scanned fields are set; the rest are zero values.\<close>

definition zero_snapshot :: delivery_snapshot where
  "zero_snapshot =
     \<lparr>snap_DestinationID = [], snap_Method = [], snap_URL = [], snap_StaticHeaders = [],
      snap_SecretHeaders = [], snap_Body = [], snap_Timeout = 0,
      snap_Retry = \<lparr>MaxAttempts = 0, Lifetime = 0, Delays = []\<rparr>, snap_ConcurrencyLimit = 0,
      snap_IdempotencyKey = []\<rparr>"

definition zero_task :: "status \<Rightarrow> task" where
  "zero_task st =
     \<lparr>task_ID = [], task_CallerID = [], task_IdempotencyKey = [],
      task_RequestHash = replicate 32 (char_of (0 :: nat)), task_Snapshot = zero_snapshot,
      task_Status = st, task_AttemptCount = 0, task_Generation = 0, task_NextAttemptAt = None,
      task_LeaseToken = [], task_LeaseUntil = None, task_LastHTTPStatus = 0, task_LastErrorCode = [],
      task_LastError = [], task_CreatedAt = 0, task_UpdatedAt = 0, task_DeliveredAt = None,
      task_DeadAt = None\<rparr>"

definition GetByCallerAndKey :: "fault \<Rightarrow> string \<Rightarrow> string \<Rightarrow> db \<Rightarrow> error + task" where
  "GetByCallerAndKey ft callerID key d =
     (if ft \<noteq> Completed then Inl (Errorf ''get notification'' [conn_error])
      else case lookup_by row_key (notification_tasks d) (callerID, key) of
        None \<Rightarrow> Inl (Sentinel PgErrNotFound)
      | Some r \<Rightarrow>
          Inr ((zero_task (r_status r))\<lparr>
            task_ID := r_id r, task_CallerID := r_caller_id r, task_IdempotencyKey := r_idempotency_key r,
            task_RequestHash := take 32 (r_request_hash r @ replicate 32 (char_of (0 :: nat))),
            task_AttemptCount := r_attempt_count r, task_Generation := r_generation r,
            task_CreatedAt := r_created_at r, task_UpdatedAt := r_updated_at r\<rparr>))"

definition create_tx ::
  "(string \<Rightarrow> string option) \<Rightarrow> task \<Rightarrow> outbox_event \<Rightarrow> tx_faults \<Rightarrow> db \<Rightarrow> error + db" where
  "create_tx jsonb t e tf d =
     (case CreateNotification jsonb (stmt_fault tf 0) t d of
        Inl err \<Rightarrow> Inl err
      | Inr d' \<Rightarrow> InsertOutbox (stmt_fault tf 1) e d')"

definition CreateOrGet ::
  "(string \<Rightarrow> string option) \<Rightarrow> tx_faults \<Rightarrow> (db \<Rightarrow> db) \<Rightarrow> fault \<Rightarrow> task \<Rightarrow> outbox_event \<Rightarrow> db
    \<Rightarrow> (error + task option) \<times> db" where
  "CreateOrGet jsonb tf between getft t e d =
     (case WithTx tf (create_tx jsonb t e) d of
        (None, d') \<Rightarrow> (Inr None, d')
      | (Some err, d') \<Rightarrow>
          if \<not> errors_is err PgErrIdempotencyConflict then (Inl err, d')
          else
            (case GetByCallerAndKey getft (task_CallerID t) (task_IdempotencyKey t) (between d') of
               Inl getErr \<Rightarrow> (Inl getErr, between d')
             | Inr existing \<Rightarrow> (Inr (Some existing), between d')))"

section \<open>Outbox claims (outbox.go)\<close>

definition scan_event :: "outbox_row \<Rightarrow> outbox_event" where
  "scan_event r =
     \<lparr>event_ID = o_id r, event_AggregateID = o_aggregate_id r, event_Generation = o_generation r,
      event_EventType = o_event_type r, event_Payload = o_payload r, event_CreatedAt = o_created_at r,
      event_PublishedAt = o_published_at r, event_ClaimToken = COALESCE (o_claim_token r) [],
      event_ClaimUntil = o_claim_until r, event_PublishAttempts = o_publish_attempts r\<rparr>"

definition claimable :: "time \<Rightarrow> outbox_row \<Rightarrow> bool" where
  "claimable now e \<longleftrightarrow>
     o_published_at e = None \<and> (case o_claim_until e of None \<Rightarrow> True | Some u \<Rightarrow> u < now)"

definition outbox_candidates :: "(string \<Rightarrow> bool) \<Rightarrow> time \<Rightarrow> nat \<Rightarrow> db \<Rightarrow> outbox_row list" where
  "outbox_candidates locked now limit d =
     take limit (filter (\<lambda>e. \<not> locked (o_id e))
       (sort_key (\<lambda>e. (o_created_at e, o_id e)) (filter (claimable now) (outbox_events d))))"

definition claim_event :: "string \<Rightarrow> time \<Rightarrow> outbox_row \<Rightarrow> outbox_row" where
  "claim_event token until e =
     e\<lparr>o_claim_token := Some token, o_claim_until := Some until, o_publish_attempts := o_publish_attempts e + 1\<rparr>"

definition ClaimOutbox ::
  "fault \<Rightarrow> (string \<Rightarrow> bool) \<Rightarrow> (outbox_row list \<Rightarrow> outbox_row list) \<Rightarrow> time \<Rightarrow> nat \<Rightarrow> string \<Rightarrow> time \<Rightarrow> db
    \<Rightarrow> (error + outbox_event list) \<times> db" where
  "ClaimOutbox ft locked returning now limit token until d =
     (let ids = map o_id (outbox_candidates locked now limit d);
          (res, rows) = sql_update ft outbox_row_ok (\<lambda>e. o_id e \<in> set ids) (claim_event token until) (outbox_events d)
      in (case res of
            Inl err \<Rightarrow> Inl (Errorf ''claim outbox'' [err])
          | Inr es \<Rightarrow> Inr (map scan_event (returning es)),
          d\<lparr>outbox_events := rows\<rparr>))"

definition MarkPublished :: "fault \<Rightarrow> string \<Rightarrow> string \<Rightarrow> time \<Rightarrow> db \<Rightarrow> (error + bool) \<times> db" where
  "MarkPublished ft eventID token at d =
     (let (res, rows) = sql_update ft outbox_row_ok
            (\<lambda>e. o_id e = eventID \<and> o_claim_token e = Some token \<and> o_published_at e = None)
            (\<lambda>e. e\<lparr>o_published_at := Some at, o_claim_token := None, o_claim_until := None\<rparr>)
            (outbox_events d)
      in (case res of
            Inl err \<Rightarrow> Inl (Errorf ''mark outbox published'' [err])
          | Inr es \<Rightarrow> Inr (length es = 1),
          d\<lparr>outbox_events := rows\<rparr>))"

section \<open>Delivery claims and results (delivery.go)\<close>

definition claim_row :: "string \<Rightarrow> time \<Rightarrow> time \<Rightarrow> task_row \<Rightarrow> task_row" where
  "claim_row leaseToken leaseUntil dbnow r =
     r\<lparr>r_status := StatusDelivering, r_lease_token := Some leaseToken, r_lease_until := Some leaseUntil,
       r_attempt_count := r_attempt_count r + 1, r_updated_at := dbnow\<rparr>"

definition scan_claim :: "string \<Rightarrow> time \<Rightarrow> task_row \<Rightarrow> error + task" where
  "scan_claim leaseToken leaseUntil r =
     (case unmarshal_header (r_static_headers r) of
        None \<Rightarrow> Inl (New ''decode static headers'')
      | Some staticHeaders \<Rightarrow>
     (case unmarshal_strmap (r_secret_headers r) of
        None \<Rightarrow> Inl (New ''decode secret headers'')
      | Some secretHeaders \<Rightarrow>
     (case unmarshal_delays (r_retry_delays_ns r) of
        None \<Rightarrow> Inl (New ''decode retry delays'')
      | Some delays \<Rightarrow>
          Inr ((zero_task (r_status r))\<lparr>
            task_ID := r_id r, task_CallerID := r_caller_id r, task_IdempotencyKey := r_idempotency_key r,
            task_AttemptCount := r_attempt_count r, task_Generation := r_generation r,
            task_CreatedAt := r_created_at r, task_UpdatedAt := r_updated_at r,
            task_Snapshot :=
              \<lparr>snap_DestinationID = r_destination_id r, snap_Method = r_method r, snap_URL = r_url r,
               snap_StaticHeaders = staticHeaders, snap_SecretHeaders = secretHeaders,
               snap_Body = r_body r, snap_Timeout = r_timeout_ns r,
               snap_Retry = \<lparr>MaxAttempts = r_max_attempts r, Lifetime = r_lifetime_ns r, Delays = delays\<rparr>,
               snap_ConcurrencyLimit = r_concurrency_limit r,
               snap_IdempotencyKey = r_idempotency_key r\<rparr>,
            task_LeaseToken := leaseToken, task_LeaseUntil := Some leaseUntil\<rparr>))))"

definition ClaimDelivery ::
  "fault \<Rightarrow> time \<Rightarrow> string \<Rightarrow> string \<Rightarrow> time \<Rightarrow> db \<Rightarrow> (error + claim) \<times> db" where
  "ClaimDelivery ft dbnow nid leaseToken leaseUntil d =
     (let (res, rows) = sql_update ft task_row_ok (\<lambda>r. r_id r = nid \<and> r_status r = StatusPending)
            (claim_row leaseToken leaseUntil dbnow) (notification_tasks d)
      in (case res of
            Inl err \<Rightarrow> Inl (Errorf ''claim delivery'' [err])
          | Inr [] \<Rightarrow> Inr None
          | Inr (r # _) \<Rightarrow>
              (case scan_claim leaseToken leaseUntil r of Inl err \<Rightarrow> Inl err | Inr t \<Rightarrow> Inr (Some t)),
          d\<lparr>notification_tasks := rows\<rparr>))"

definition result_row :: "attempt_result \<Rightarrow> task_row \<Rightarrow> task_row" where
  "result_row result r =
     r\<lparr>r_status := (case ar_Outcome result of
          Delivered \<Rightarrow> StatusDelivered | Retryable \<Rightarrow> StatusRetryWait | Permanent \<Rightarrow> StatusDead),
       r_next_attempt_at := (if ar_Outcome result = Retryable then ar_NextAttemptAt result else None),
       r_lease_token := None, r_lease_until := None,
       r_last_http_status := NULLIF (ar_HTTPStatus result) 0,
       r_last_error_code := NULLIF (ar_ErrorCode result) [],
       r_last_error_message := NULLIF (ar_ErrorMessage result) [],
       r_updated_at := ar_CompletedAt result,
       r_delivered_at := (if ar_Outcome result = Delivered then Some (ar_CompletedAt result) else None),
       r_dead_at := (if ar_Outcome result = Permanent then Some (ar_CompletedAt result) else None)\<rparr>"

definition ApplyDeliveryResult ::
  "fault \<Rightarrow> string \<Rightarrow> string \<Rightarrow> attempt_result \<Rightarrow> db \<Rightarrow> (error + bool) \<times> db" where
  "ApplyDeliveryResult ft nid leaseToken result d =
     (let (res, rows) = sql_update ft task_row_ok
            (\<lambda>r. r_id r = nid \<and> r_status r = StatusDelivering \<and> r_lease_token r = Some leaseToken)
            (result_row result) (notification_tasks d)
      in (case res of
            Inl err \<Rightarrow> Inl (Errorf ''apply delivery result'' [err])
          | Inr rs \<Rightarrow> Inr (length rs = 1),
          d\<lparr>notification_tasks := rows\<rparr>))"

section \<open>Scheduling (retry.go)\<close>

definition ScheduleRetry ::
  "fault \<Rightarrow> string \<Rightarrow> string \<Rightarrow> time \<Rightarrow> attempt_result \<Rightarrow> db \<Rightarrow> (error + bool) \<times> db" where
  "ScheduleRetry ft nid expectedLease nxt result d =
     ApplyDeliveryResult ft nid expectedLease (result\<lparr>ar_NextAttemptAt := Some nxt\<rparr>) d"

definition replay_row :: "time \<Rightarrow> task_row \<Rightarrow> task_row" where
  "replay_row now r =
     r\<lparr>r_status := StatusPending, r_generation := r_generation r + 1, r_next_attempt_at := None,
       r_lease_token := None, r_lease_until := None, r_dead_at := None, r_updated_at := now\<rparr>"

definition ReplayDead :: "fault \<Rightarrow> string \<Rightarrow> time \<Rightarrow> db \<Rightarrow> (error + bool) \<times> db" where
  "ReplayDead ft nid now d =
     (let (res, rows) = sql_update ft task_row_ok (\<lambda>r. r_id r = nid \<and> r_status r = StatusDead)
            (replay_row now) (notification_tasks d)
      in (case res of
            Inl err \<Rightarrow> Inl (Errorf ''replay dead task'' [err])
          | Inr rs \<Rightarrow> Inr (length rs = 1),
          d\<lparr>notification_tasks := rows\<rparr>))"

definition due :: "time \<Rightarrow> task_row \<Rightarrow> bool" where
  "due now r \<longleftrightarrow>
     (r_status r = StatusRetryWait \<and> (case r_next_attempt_at r of None \<Rightarrow> False | Some t \<Rightarrow> t \<le> now)) \<or>
     (r_status r = StatusDelivering \<and> (case r_lease_until r of None \<Rightarrow> False | Some t \<Rightarrow> t < now))"

text \<open>\<open>COALESCE(next_attempt_at, lease_until)\<close>, which is set on every due row.\<close>

definition due_at :: "task_row \<Rightarrow> time" where
  "due_at r = COALESCE (r_next_attempt_at r) (COALESCE (r_lease_until r) 0)"

definition due_candidates :: "(string \<Rightarrow> bool) \<Rightarrow> time \<Rightarrow> nat \<Rightarrow> db \<Rightarrow> task_row list" where
  "due_candidates locked now limit d =
     take limit (filter (\<lambda>r. \<not> locked (r_id r))
       (sort_key (\<lambda>r. (due_at r, r_id r)) (filter (due now) (notification_tasks d))))"

definition exhausted :: "time \<Rightarrow> task_row \<Rightarrow> bool" where
  "exhausted now item \<longleftrightarrow>
     r_max_attempts item \<le> r_attempt_count item \<or>
     \<not> Before now (Add (r_created_at item) (r_lifetime_ns item))"

definition kill_row :: "time \<Rightarrow> task_row \<Rightarrow> task_row" where
  "kill_row now r =
     r\<lparr>r_status := StatusDead, r_dead_at := Some now, r_updated_at := now, r_lease_token := None,
       r_lease_until := None, r_next_attempt_at := None\<rparr>"

definition resume_row :: "int \<Rightarrow> string \<Rightarrow> time \<Rightarrow> task_row \<Rightarrow> task_row" where
  "resume_row newGeneration errorCode now r =
     r\<lparr>r_status := StatusPending, r_generation := newGeneration, r_updated_at := now,
       r_next_attempt_at := None, r_lease_token := None, r_lease_until := None,
       r_last_error_code := NULLIF errorCode []\<rparr>"

definition retry_event_id :: "string \<Rightarrow> int \<Rightarrow> string" where
  "retry_event_id nid generation = hex_EncodeToString (take 16 (Sum256 (nid @ '':'' @ Itoa generation)))"

definition retry_event :: "string \<Rightarrow> int \<Rightarrow> time \<Rightarrow> outbox_row" where
  "retry_event nid newGeneration now =
     \<lparr>o_id = retry_event_id nid newGeneration, o_aggregate_id = nid, o_generation = newGeneration,
      o_event_type = ''notification.ready'', o_payload = [(''notification_id'', nid)], o_created_at = now,
      o_published_at = None, o_claim_token = None, o_claim_until = None, o_publish_attempts = 0\<rparr>"

text \<open>\<open>INSERT .. ON CONFLICT (aggregate_id, generation) DO NOTHING\<close>.\<close>

definition insert_outbox_or_nothing :: "outbox_row \<Rightarrow> db \<Rightarrow> error + db" where
  "insert_outbox_or_nothing e d =
     (if outbox_row_ok e \<and> event_key e \<in> event_key ` set (outbox_events d) then Inr d
      else insert_outbox e d)"

definition tx_update ::
  "tx_faults \<Rightarrow> nat \<Rightarrow> string \<Rightarrow> (task_row \<Rightarrow> task_row) \<Rightarrow> db \<Rightarrow> error + db" where
  "tx_update tf k nid f d =
     (case sql_update (stmt_fault tf k) task_row_ok (\<lambda>r. r_id r = nid) f (notification_tasks d) of
        (Inl err, _) \<Rightarrow> Inl err
      | (Inr _, rows) \<Rightarrow> Inr (d\<lparr>notification_tasks := rows\<rparr>))"

definition tx_insert_outbox :: "tx_faults \<Rightarrow> nat \<Rightarrow> outbox_row \<Rightarrow> db \<Rightarrow> error + db" where
  "tx_insert_outbox tf k e d =
     (if stmt_ok tf k then insert_outbox_or_nothing e d else Inl conn_error)"

text \<open>
  The loop over the candidates inside the transaction; \<open>k\<close> counts the statements. The
  result so far is returned beside an error, as the Go code does.
\<close>

fun schedule_loop ::
  "tx_faults \<Rightarrow> time \<Rightarrow> nat \<Rightarrow> task_row list \<Rightarrow> schedule_result \<Rightarrow> db
    \<Rightarrow> (schedule_result \<times> error option) \<times> db" where
  "schedule_loop tf now k [] result d = ((result, None), d)"
| "schedule_loop tf now k (item # items) result d =
     (if exhausted now item then
        (case tx_update tf k (r_id item) (kill_row now) d of
           Inl err \<Rightarrow> ((result, Some err), d)
         | Inr d' \<Rightarrow> schedule_loop tf now (k + 1) items (result\<lparr>Dead := Dead result + 1\<rparr>) d')
      else
        let newGeneration = r_generation item + 1;
            errorCode = (if r_status item = StatusDelivering then ''delivery_lease_expired'' else []);
            result' = (if r_status item = StatusDelivering
                       then result\<lparr>RecoveredLeases := RecoveredLeases result + 1\<rparr> else result)
        in (case tx_update tf k (r_id item) (resume_row newGeneration errorCode now) d of
              Inl err \<Rightarrow> ((result', Some err), d)
            | Inr d' \<Rightarrow>
                (case tx_insert_outbox tf (k + 1) (retry_event (r_id item) newGeneration now) d' of
                   Inl err \<Rightarrow> ((result', Some err), d)
                 | Inr d'' \<Rightarrow>
                     schedule_loop tf now (k + 2) items
                       (result'\<lparr>Scheduled := Scheduled result' + 1\<rparr>) d'')))"

definition no_schedule :: schedule_result where
  "no_schedule = \<lparr>Scheduled = 0, Dead = 0, RecoveredLeases = 0\<rparr>"

definition ScheduleDue ::
  "tx_faults \<Rightarrow> (string \<Rightarrow> bool) \<Rightarrow> time \<Rightarrow> nat \<Rightarrow> db \<Rightarrow> (schedule_result \<times> error option) \<times> db" where
  "ScheduleDue tf locked now limit d =
     (if \<not> begin_ok tf then ((no_schedule, Some (Errorf ''begin schedule transaction'' [conn_error])), d)
      else if \<not> stmt_ok tf 0 then ((no_schedule, Some (Errorf ''select due notifications'' [conn_error])), d)
      else
        (case schedule_loop tf now 1 (due_candidates locked now limit d) no_schedule d of
           ((result, Some err), _) \<Rightarrow> ((result, Some err), d)
         | ((result, None), d') \<Rightarrow>
             (case commit_fault tf of
                Completed \<Rightarrow> ((result, None), d')
              | Failed \<Rightarrow> ((no_schedule, Some (Errorf ''commit schedule transaction'' [conn_error])), d)
              | Unacknowledged \<Rightarrow>
                  ((no_schedule, Some (Errorf ''commit schedule transaction'' [conn_error])), d'))))"

section \<open>Queries and replay (query.go)\<close>

definition GetForCaller :: "fault \<Rightarrow> string \<Rightarrow> string \<Rightarrow> db \<Rightarrow> error + task" where
  "GetForCaller ft callerID nid d =
     (if ft \<noteq> Completed then Inl (Errorf ''get notification for caller'' [conn_error])
      else case find (\<lambda>r. r_id r = nid \<and> r_caller_id r = callerID) (notification_tasks d) of
        None \<Rightarrow> Inl (Sentinel ErrTaskNotFound)
      | Some r \<Rightarrow>
          Inr ((zero_task (r_status r))\<lparr>
            task_ID := r_id r, task_CallerID := r_caller_id r,
            task_Snapshot := zero_snapshot\<lparr>snap_DestinationID := r_destination_id r\<rparr>,
            task_AttemptCount := r_attempt_count r, task_NextAttemptAt := r_next_attempt_at r,
            task_LastHTTPStatus := COALESCE (r_last_http_status r) 0,
            task_LastErrorCode := COALESCE (r_last_error_code r) [],
            task_LastError := COALESCE (r_last_error_message r) [],
            task_CreatedAt := r_created_at r, task_UpdatedAt := r_updated_at r,
            task_DeliveredAt := r_delivered_at r, task_DeadAt := r_dead_at r\<rparr>))"

definition replay_event :: "string \<Rightarrow> string \<Rightarrow> int \<Rightarrow> time \<Rightarrow> outbox_row" where
  "replay_event eventID nid generation now =
     \<lparr>o_id = eventID, o_aggregate_id = nid, o_generation = generation,
      o_event_type = ''notification.ready'', o_payload = [(''notification_id'', nid)], o_created_at = now,
      o_published_at = None, o_claim_token = None, o_claim_until = None, o_publish_attempts = 0\<rparr>"

text \<open>
  \<open>ReplayDeadAtomic\<close>: the update and the insertion in one transaction; no row updated is
  no error.
\<close>

definition ReplayDeadAtomic ::
  "tx_faults \<Rightarrow> string \<Rightarrow> time \<Rightarrow> string \<Rightarrow> db \<Rightarrow> (error + bool) \<times> db" where
  "ReplayDeadAtomic tf nid now eventID d =
     (if \<not> begin_ok tf then (Inl (Errorf ''begin replay'' [conn_error]), d)
      else case sql_update (stmt_fault tf 0) task_row_ok (\<lambda>r. r_id r = nid \<and> r_status r = StatusDead)
             (replay_row now) (notification_tasks d) of
        (Inl err, _) \<Rightarrow> (Inl (Errorf ''update replay task'' [err]), d)
      | (Inr [], _) \<Rightarrow> (Inr False, d)
      | (Inr (r # _), rows) \<Rightarrow>
          (case (if stmt_ok tf 1
                 then insert_outbox (replay_event eventID nid (r_generation r) now) (d\<lparr>notification_tasks := rows\<rparr>)
                 else Inl conn_error) of
             Inl err \<Rightarrow> (Inl (Errorf ''insert replay outbox'' [err]), d)
           | Inr d' \<Rightarrow>
               (case commit_fault tf of
                  Completed \<Rightarrow> (Inr True, d')
                | Failed \<Rightarrow> (Inl (Errorf ''commit replay'' [conn_error]), d)
                | Unacknowledged \<Rightarrow> (Inl (Errorf ''commit replay'' [conn_error]), d'))))"

section \<open>Retention (retention.go)\<close>

definition removable :: "time \<Rightarrow> db \<Rightarrow> task_row \<Rightarrow> bool" where
  "removable cutoff d r \<longleftrightarrow>
     terminal (r_status r) \<and> r_updated_at r < cutoff \<and>
     \<not> list_ex (\<lambda>e. o_aggregate_id e = r_id r \<and> o_published_at e = None) (outbox_events d)"

definition removal_candidates :: "(string \<Rightarrow> bool) \<Rightarrow> time \<Rightarrow> nat \<Rightarrow> db \<Rightarrow> task_row list" where
  "removal_candidates locked cutoff limit d =
     take limit (filter (\<lambda>r. \<not> locked (r_id r))
       (sort_key (\<lambda>r. (r_updated_at r, r_id r)) (filter (removable cutoff d) (notification_tasks d))))"

text \<open>The DELETE cascades to the events of the deleted tasks.\<close>

definition delete_tasks :: "string list \<Rightarrow> db \<Rightarrow> db" where
  "delete_tasks ids d =
     \<lparr>notification_tasks = filter (\<lambda>r. r_id r \<notin> set ids) (notification_tasks d),
      outbox_events = filter (\<lambda>e. o_aggregate_id e \<notin> set ids) (outbox_events d)\<rparr>"

definition DeleteTerminalBefore ::
  "fault \<Rightarrow> (string \<Rightarrow> bool) \<Rightarrow> time \<Rightarrow> nat \<Rightarrow> db \<Rightarrow> (error + int) \<times> db" where
  "DeleteTerminalBefore ft locked cutoff limit d =
     (if ft = Failed then (Inl (Errorf ''delete terminal notifications'' [conn_error]), d)
      else
        let ids = map r_id (removal_candidates locked cutoff limit d)
        in (if ft = Unacknowledged then Inl (Errorf ''delete terminal notifications'' [conn_error])
            else Inr (int (count_where (\<lambda>r. r_id r \<in> set ids) (notification_tasks d))),
            delete_tasks ids d))"

end
