(* ===== verification/Sample.thy ===== *)
theory Sample
  imports Tables
begin

text \<open>
  A small database for the witnesses: one task in a given status and the outbox event of its
  generation. It satisfies the invariant of the database in every status.
\<close>

definition sample_hash :: string where
  "sample_hash = replicate 32 (char_of (1 :: nat))"

definition sample_row :: "status \<Rightarrow> task_row" where
  "sample_row st =
     \<lparr>r_id = ''n1'', r_caller_id = ''billing'', r_idempotency_key = ''order-7'',
      r_request_hash = sample_hash, r_destination_id = ''crm'', r_method = ''POST'',
      r_url = ''https://crm.example/hook'',
      r_static_headers = marshal_header [(''Content-Type'', [''application/json''])],
      r_secret_headers = marshal_strmap [(''Authorization'', ''CRM_TOKEN'')],
      r_body = ''{}'', r_timeout_ns = 5 * Second, r_max_attempts = 3, r_lifetime_ns = Hour,
      r_retry_delays_ns = marshal_delays [5 * Second, 30 * Second], r_concurrency_limit = 4,
      r_status = st, r_attempt_count = 1, r_generation = 0,
      r_next_attempt_at = (if st = StatusRetryWait then Some (10 * Second) else None),
      r_lease_token = (if st = StatusDelivering then Some ''lease1'' else None),
      r_lease_until = (if st = StatusDelivering then Some (10 * Second) else None),
      r_last_http_status = None, r_last_error_code = None, r_last_error_message = None,
      r_created_at = 0, r_updated_at = Second,
      r_delivered_at = (if st = StatusDelivered then Some Second else None),
      r_dead_at = (if st = StatusDead then Some Second else None)\<rparr>"

definition sample_event :: "time option \<Rightarrow> string option \<Rightarrow> outbox_row" where
  "sample_event published token =
     \<lparr>o_id = ''e1'', o_aggregate_id = ''n1'', o_generation = 0, o_event_type = ''notification.ready'',
      o_payload = [(''event_id'', ''e1''), (''notification_id'', ''n1'')], o_created_at = 0,
      o_published_at = published, o_claim_token = token,
      o_claim_until = (if token = None then None else Some (30 * Second)), o_publish_attempts = 0\<rparr>"

definition sample_db :: "status \<Rightarrow> db" where
  "sample_db st = \<lparr>notification_tasks = [sample_row st], outbox_events = [sample_event (Some Second) None]\<rparr>"

definition fresh_db :: "string option \<Rightarrow> db" where
  "fresh_db token = \<lparr>notification_tasks = [sample_row StatusPending], outbox_events = [sample_event None token]\<rparr>"

lemma sample_row_sel [simp]:
  "r_id (sample_row st) = ''n1''" "r_status (sample_row st) = st" "r_generation (sample_row st) = 0"
  "r_caller_id (sample_row st) = ''billing''" "r_idempotency_key (sample_row st) = ''order-7''"
  "r_updated_at (sample_row st) = Second" "r_attempt_count (sample_row st) = 1" "r_max_attempts (sample_row st) = 3"
  "r_created_at (sample_row st) = 0" "r_lifetime_ns (sample_row st) = Hour" "r_request_hash (sample_row st) = sample_hash"
  "r_next_attempt_at (sample_row st) = (if st = StatusRetryWait then Some (10 * Second) else None)"
  "r_lease_token (sample_row st) = (if st = StatusDelivering then Some ''lease1'' else None)"
  "r_lease_until (sample_row st) = (if st = StatusDelivering then Some (10 * Second) else None)"
  by (simp_all add: sample_row_def)

lemma sample_event_sel [simp]:
  "o_id (sample_event p c) = ''e1''" "o_aggregate_id (sample_event p c) = ''n1''"
  "o_generation (sample_event p c) = 0" "o_published_at (sample_event p c) = p" "o_claim_token (sample_event p c) = c"
  "o_claim_until (sample_event p c) = (if c = None then None else Some (30 * Second))"
  "o_publish_attempts (sample_event p c) = 0"
  by (simp_all add: sample_event_def)

lemma sample_texts:
  "text_between (Suc 0) 64 ''n1''" "text_between (Suc 0) 64 ''e1''" "text_between (Suc 0) 128 ''billing''"
  "text_between (Suc 0) 256 ''order-7''" "text_between (Suc 0) 128 ''crm''"
  "text_between (Suc 0) 2048 ''https://crm.example/hook''" "text_between (Suc 0) 128 ''notification.ready''"
  by (rule ascii_text_between; simp add: ascii_def)+

lemma ascii_pg_text: "ascii s \<Longrightarrow> list_all (\<lambda>c. byte c \<noteq> 0) s \<Longrightarrow> pg_text s"
  by (simp add: pg_text_def ascii_valid)

lemma sample_row_ok: "task_row_ok (sample_row st)"
proof -
  have "pg_text ''lease1''" by (rule ascii_pg_text) (simp_all add: ascii_def)
  then show ?thesis
    by (simp add: task_row_ok_def sample_row_def sample_texts sample_hash_def int64_def int4_def opt_text_def duration_units)
qed

lemma sample_row_shape: "row_shape (sample_row st)"
  by (simp add: row_shape_def sample_row_def)

lemma sample_event_ok: "token = None \<or> token = Some ''t1'' \<Longrightarrow> outbox_row_ok (sample_event published token)"
proof -
  have "pg_text ''t1''" by (rule ascii_pg_text) (simp_all add: ascii_def)
  then show "token = None \<or> token = Some ''t1'' \<Longrightarrow> outbox_row_ok (sample_event published token)"
    by (auto simp: outbox_row_ok_def sample_event_def sample_texts int4_def)
qed

lemma sample_db_wf: "db_wf (sample_db st)"
  by (simp add: db_wf_def keys_wf_def rows_wf_def covered_def sample_db_def sample_row_ok sample_row_shape sample_event_ok)

lemma fresh_db_wf: "token = None \<or> token = Some ''t1'' \<Longrightarrow> db_wf (fresh_db token)"
  by (auto simp: db_wf_def keys_wf_def rows_wf_def covered_def fresh_db_def sample_row_ok sample_row_shape sample_event_ok)

text \<open>A request as intake would store it.\<close>

definition sample_policy :: retry_policy where
  "sample_policy = \<lparr>MaxAttempts = 3, Lifetime = Hour, Delays = [5 * Second, 30 * Second]\<rparr>"

definition sample_snapshot :: delivery_snapshot where
  "sample_snapshot =
     \<lparr>snap_DestinationID = ''crm'', snap_Method = ''POST'', snap_URL = ''https://crm.example/hook'',
      snap_StaticHeaders = [(''Content-Type'', [''application/json''])],
      snap_SecretHeaders = [(''Authorization'', ''CRM_TOKEN'')], snap_Body = ''{}'',
      snap_Timeout = 5 * Second, snap_Retry = sample_policy, snap_ConcurrencyLimit = 4,
      snap_IdempotencyKey = ''order-7''\<rparr>"

definition sample_task :: task where
  "sample_task =
     \<lparr>task_ID = ''n1'', task_CallerID = ''billing'', task_IdempotencyKey = ''order-7'',
      task_RequestHash = sample_hash, task_Snapshot = sample_snapshot, task_Status = StatusPending,
      task_AttemptCount = 0, task_Generation = 0, task_NextAttemptAt = None, task_LeaseToken = [],
      task_LeaseUntil = None, task_LastHTTPStatus = 0, task_LastErrorCode = [], task_LastError = [],
      task_CreatedAt = 0, task_UpdatedAt = 0, task_DeliveredAt = None, task_DeadAt = None\<rparr>"

definition sample_outbox_event :: outbox_event where
  "sample_outbox_event =
     \<lparr>event_ID = ''e1'', event_AggregateID = ''n1'', event_Generation = 0,
      event_EventType = ''notification.ready'',
      event_Payload = [(''event_id'', ''e1''), (''notification_id'', ''n1'')], event_CreatedAt = 0,
      event_PublishedAt = None, event_ClaimToken = [], event_ClaimUntil = None, event_PublishAttempts = 0\<rparr>"

end
