(* ===== verification/StoreInv.thy ===== *)
theory StoreInv
  imports Store Sample
begin

text \<open>
  The operations of the PostgreSQL store against the invariant \<^const>\<open>db_wf\<close>: each one
  keeps it, whatever faults occur, and does what its contract says on every branch. The
  scheduler's loop is shown equal to one batch update.
\<close>

section \<open>Intake\<close>

text \<open>The task and event that intake creates together.\<close>

definition initial_pair :: "task \<Rightarrow> outbox_event \<Rightarrow> bool" where
  "initial_pair t e \<longleftrightarrow>
     task_Status t = StatusPending \<and> task_AttemptCount t = 0 \<and> event_AggregateID e = task_ID t \<and> event_Generation e = task_Generation t"

lemma CreateNotification_Inr:
  "CreateNotification jsonb ft t d = Inr d' \<longleftrightarrow>
   ft = Completed \<and>
   (\<exists>body. jsonb (snap_Body (task_Snapshot t)) = Some body \<and> insert_task (row_of_task body t) d = Inr d')"
  by (auto simp: CreateNotification_def split: option.splits sum.splits)

lemma InsertOutbox_Inr:
  "InsertOutbox ft e d = Inr d' \<longleftrightarrow> ft = Completed \<and> insert_outbox (row_of_event e) d = Inr d'"
  by (auto simp: InsertOutbox_def split: sum.splits)

lemma row_of_task_sel [simp]:
  "r_id (row_of_task body t) = task_ID t"
  "r_caller_id (row_of_task body t) = task_CallerID t"
  "r_idempotency_key (row_of_task body t) = task_IdempotencyKey t"
  "r_generation (row_of_task body t) = task_Generation t"
  "r_status (row_of_task body t) = task_Status t"
  "r_attempt_count (row_of_task body t) = task_AttemptCount t"
  "r_request_hash (row_of_task body t) = task_RequestHash t"
  by (simp_all add: row_of_task_def)

lemma row_of_event_sel [simp]:
  "o_id (row_of_event e) = event_ID e"
  "o_aggregate_id (row_of_event e) = event_AggregateID e"
  "o_generation (row_of_event e) = event_Generation e"
  "o_published_at (row_of_event e) = None"
  by (simp_all add: row_of_event_def)

lemma create_tx_Inr:
  assumes "create_tx jsonb t e tf d = Inr d'"
  obtains body where
    "task_row_ok (row_of_task body t)" "outbox_row_ok (row_of_event e)"
    "task_ID t \<notin> r_id ` set (notification_tasks d)"
    "(task_CallerID t, task_IdempotencyKey t) \<notin> row_key ` set (notification_tasks d)"
    "event_ID e \<notin> o_id ` set (outbox_events d)"
    "event_key (row_of_event e) \<notin> event_key ` set (outbox_events d)"
    "d' = \<lparr>notification_tasks = notification_tasks d @ [row_of_task body t],
           outbox_events = outbox_events d @ [row_of_event e]\<rparr>"
    "jsonb (snap_Body (task_Snapshot t)) = Some body"
proof -
  from assms obtain d1 where 1: "CreateNotification jsonb (stmt_fault tf 0) t d = Inr d1"
    and 2: "InsertOutbox (stmt_fault tf 1) e d1 = Inr d'"
    by (auto simp: create_tx_def split: sum.splits)
  from 1 obtain body where b: "jsonb (snap_Body (task_Snapshot t)) = Some body"
      "insert_task (row_of_task body t) d = Inr d1"
    by (auto simp: CreateNotification_Inr)
  from b(2) 2 show thesis
    by (intro that [of body]) (auto simp: insert_task_Inr InsertOutbox_Inr insert_outbox_Inr b(1))
qed

lemma create_tx_wf:
  assumes wf: "db_wf d" and init: "initial_pair t e" and tx: "create_tx jsonb t e tf d = Inr d'"
  shows "db_wf d'"
proof -
  from tx obtain body where new:
    "task_row_ok (row_of_task body t)" "outbox_row_ok (row_of_event e)"
    "task_ID t \<notin> r_id ` set (notification_tasks d)"
    "(task_CallerID t, task_IdempotencyKey t) \<notin> row_key ` set (notification_tasks d)"
    "event_ID e \<notin> o_id ` set (outbox_events d)"
    "event_key (row_of_event e) \<notin> event_key ` set (outbox_events d)"
    and d': "d' = \<lparr>notification_tasks = notification_tasks d @ [row_of_task body t],
           outbox_events = outbox_events d @ [row_of_event e]\<rparr>"
    by (rule create_tx_Inr)
  have fresh: "\<forall>e' \<in> set (outbox_events d). o_aggregate_id e' \<noteq> task_ID t"
    using wf new(3) unfolding db_wf_def keys_wf_def by (metis image_eqI subsetD)
  have "keys_wf d'"
    using wf new init by (auto simp: d' db_wf_def keys_wf_def initial_pair_def)
  moreover have "row_shape (row_of_task body t)"
    using init by (simp add: row_shape_def row_of_task_def initial_pair_def)
  then have "rows_wf d'" using wf new by (auto simp: d' db_wf_def rows_wf_def)
  moreover have "covered d'"
    using wf fresh init by (auto simp: d' db_wf_def covered_def initial_pair_def)
  ultimately show ?thesis by (simp add: db_wf_def)
qed

lemma WithTx_cases:
  "snd (WithTx tf body d) = d \<or> body tf d = Inr (snd (WithTx tf body d))"
  by (cases "body tf d"; cases "commit_fault tf") (simp_all add: WithTx_def)

lemma WithTx_None: "WithTx tf body d = (None, d') \<Longrightarrow> body tf d = Inr d'"
  by (cases "body tf d"; cases "commit_fault tf") (simp_all add: WithTx_def split: if_splits)

lemma WithTx_wf:
  assumes "db_wf d" "\<And>d'. body tf d = Inr d' \<Longrightarrow> db_wf d'"
  shows "db_wf (snd (WithTx tf body d))"
  using WithTx_cases [of tf body d] assms by metis

lemma CreateOrGet_db:
  "snd (CreateOrGet jsonb tf between getft t e d) = snd (WithTx tf (create_tx jsonb t e) d) \<or>
   snd (CreateOrGet jsonb tf between getft t e d) = between (snd (WithTx tf (create_tx jsonb t e) d))"
  by (cases "WithTx tf (create_tx jsonb t e) d") (simp add: CreateOrGet_def split: option.splits sum.splits)

lemma CreateOrGet_wf:
  assumes "db_wf d" "initial_pair t e" "\<And>x. db_wf x \<Longrightarrow> db_wf (between x)"
  shows "db_wf (snd (CreateOrGet jsonb tf between getft t e d))"
proof -
  have "db_wf (snd (WithTx tf (create_tx jsonb t e) d))"
    by (rule WithTx_wf [OF assms(1)]) (rule create_tx_wf [OF assms(1,2)])
  then show ?thesis using CreateOrGet_db [of jsonb tf between getft t e d] assms(3) by metis
qed

text \<open>An existing task that is returned has the caller and the key of the request.\<close>

lemma GetByCallerAndKey_Inr:
  assumes "GetByCallerAndKey ft c k d = Inr t"
  shows "\<exists>r \<in> set (notification_tasks d). row_key r = (c, k) \<and> task_ID t = r_id r \<and>
    task_Status t = r_status r \<and> (length (r_request_hash r) = 32 \<longrightarrow> task_RequestHash t = r_request_hash r)"
  using assms
  by (auto simp: GetByCallerAndKey_def zero_task_def split: if_splits option.splits dest!: lookup_by_SomeD)

section \<open>Outbox\<close>

lemma claim_event_sel [simp]:
  "o_id (claim_event token until e) = o_id e"
  "o_aggregate_id (claim_event token until e) = o_aggregate_id e"
  "o_generation (claim_event token until e) = o_generation e"
  "o_published_at (claim_event token until e) = o_published_at e"
  by (simp_all add: claim_event_def)

lemma ClaimOutbox_db:
  "snd (ClaimOutbox ft locked returning now limit token until d) =
   d\<lparr>outbox_events := snd (sql_update ft outbox_row_ok
        (\<lambda>e. o_id e \<in> set (map o_id (outbox_candidates locked now limit d)))
        (claim_event token until) (outbox_events d))\<rparr>"
  by (simp add: ClaimOutbox_def split: prod.splits)

lemma sql_update_events_wf:
  assumes "db_wf d" "\<And>e. o_id (f e) = o_id e" "\<And>e. event_key (f e) = event_key e"
  shows "db_wf (d\<lparr>outbox_events := snd (sql_update ft outbox_row_ok p f (outbox_events d))\<rparr>)"
  using sql_update_cases [of ft outbox_row_ok p f "outbox_events d"] update_events_wf [OF assms] assms(1)
  by auto

lemma ClaimOutbox_wf: "db_wf d \<Longrightarrow> db_wf (snd (ClaimOutbox ft locked returning now limit token until d))"
  unfolding ClaimOutbox_db by (rule sql_update_events_wf) simp_all

lemma MarkPublished_db:
  "snd (MarkPublished ft eventID token at d) =
   d\<lparr>outbox_events := snd (sql_update ft outbox_row_ok
        (\<lambda>e. o_id e = eventID \<and> o_claim_token e = Some token \<and> o_published_at e = None)
        (\<lambda>e. e\<lparr>o_published_at := Some at, o_claim_token := None, o_claim_until := None\<rparr>) (outbox_events d))\<rparr>"
  by (simp add: MarkPublished_def split: prod.splits)

lemma MarkPublished_wf: "db_wf d \<Longrightarrow> db_wf (snd (MarkPublished ft eventID token at d))"
  unfolding MarkPublished_db by (rule sql_update_events_wf) simp_all

lemma candidates_subset:
  "set (outbox_candidates locked now limit d) \<subseteq> {e \<in> set (outbox_events d). claimable now e \<and> \<not> locked (o_id e)}"
  by (auto simp: outbox_candidates_def dest!: in_set_takeD)

section \<open>Delivery\<close>

lemma sql_update_tasks_wf:
  assumes "db_wf d"
    and "\<And>r. r_id (f r) = r_id r" "\<And>r. row_key (f r) = row_key r" "\<And>r. r_generation (f r) = r_generation r"
    and "\<And>r. r \<in> set (notification_tasks d) \<Longrightarrow> p r \<Longrightarrow> row_shape r \<Longrightarrow> row_shape (f r)"
  shows "db_wf (d\<lparr>notification_tasks := snd (sql_update ft task_row_ok p f (notification_tasks d))\<rparr>)"
proof -
  have "\<forall>r \<in> set (notification_tasks d). p r \<longrightarrow> row_shape (f r)"
    using assms(1,5) by (auto simp: db_wf_def rows_wf_def)
  then show ?thesis
    using sql_update_cases [of ft task_row_ok p f "notification_tasks d"]
      update_tasks_wf [where p = p, OF assms(1-4)] assms(1) by auto
qed

lemma ClaimDelivery_db:
  "snd (ClaimDelivery ft dbnow nid leaseToken leaseUntil d) =
   d\<lparr>notification_tasks := snd (sql_update ft task_row_ok (\<lambda>r. r_id r = nid \<and> r_status r = StatusPending)
        (claim_row leaseToken leaseUntil dbnow) (notification_tasks d))\<rparr>"
  by (simp add: ClaimDelivery_def split: prod.splits)

lemma ClaimDelivery_wf: "db_wf d \<Longrightarrow> db_wf (snd (ClaimDelivery ft dbnow nid leaseToken leaseUntil d))"
  unfolding ClaimDelivery_db by (rule sql_update_tasks_wf) (auto simp: claim_row_def row_shape_def)

lemma ApplyDeliveryResult_db:
  "snd (ApplyDeliveryResult ft nid leaseToken result d) =
   d\<lparr>notification_tasks := snd (sql_update ft task_row_ok
        (\<lambda>r. r_id r = nid \<and> r_status r = StatusDelivering \<and> r_lease_token r = Some leaseToken)
        (result_row result) (notification_tasks d))\<rparr>"
  by (simp add: ApplyDeliveryResult_def split: prod.splits)

definition result_ok :: "attempt_result \<Rightarrow> bool" where
  "result_ok result \<longleftrightarrow> (ar_Outcome result = Retryable \<longrightarrow> ar_NextAttemptAt result \<noteq> None)"

lemma result_row_shape: "result_ok result \<Longrightarrow> row_shape (result_row result r)"
  by (auto simp: result_row_def row_shape_def result_ok_def split: outcome.splits)

lemma ApplyDeliveryResult_wf:
  "db_wf d \<Longrightarrow> result_ok result \<Longrightarrow> db_wf (snd (ApplyDeliveryResult ft nid leaseToken result d))"
  unfolding ApplyDeliveryResult_db
  by (rule sql_update_tasks_wf) (auto simp: result_row_shape, simp_all add: result_row_def)

section \<open>Retention\<close>

lemma delete_tasks_wf:
  assumes "db_wf d" shows "db_wf (delete_tasks ids d)"
proof -
  have "keys_wf (delete_tasks ids d)"
    using assms by (auto simp: db_wf_def keys_wf_def delete_tasks_def distinct_map_filter)
  moreover have "rows_wf (delete_tasks ids d)"
    using assms by (auto simp: db_wf_def rows_wf_def delete_tasks_def)
  moreover have "covered (delete_tasks ids d)"
    using assms by (fastforce simp: db_wf_def covered_def delete_tasks_def)
  ultimately show ?thesis by (simp add: db_wf_def)
qed

lemma DeleteTerminalBefore_wf: "db_wf d \<Longrightarrow> db_wf (snd (DeleteTerminalBefore ft locked cutoff limit d))"
  by (auto simp: DeleteTerminalBefore_def Let_def intro: delete_tasks_wf)

section \<open>Guarantees\<close>

text \<open>The database with a new task and its event.\<close>

definition with_pair :: "string \<Rightarrow> task \<Rightarrow> outbox_event \<Rightarrow> db \<Rightarrow> db" where
  "with_pair body t e d =
     \<lparr>notification_tasks = notification_tasks d @ [row_of_task body t],
      outbox_events = outbox_events d @ [row_of_event e]\<rparr>"

lemma create_tx_pair:
  "create_tx jsonb t e tf d = Inr d' \<Longrightarrow>
   \<exists>body. jsonb (snap_Body (task_Snapshot t)) = Some body \<and> d' = with_pair body t e d"
  by (erule create_tx_Inr) (auto simp: with_pair_def)

lemma create_tx_conflict:
  "create_tx jsonb t e tf d = Inl err \<Longrightarrow> WithTx tf (create_tx jsonb t e) d = (Some err', d') \<Longrightarrow> d' = d"
  by (auto simp: WithTx_def split: if_splits)

lemma WithTx_error:
  "WithTx tf body d = (Some err, d') \<Longrightarrow>
   d' = d \<or> commit_fault tf = Unacknowledged \<and> body tf d = Inr d' \<and> \<not> errors_is err PgErrIdempotencyConflict"
  by (cases "body tf d"; cases "commit_fault tf") (auto simp: WithTx_def conn_error_def split: if_splits)

text \<open>
  C4. Acceptance is atomic: a call that reports a new task has stored the task and its outbox
  event, both or neither whatever fails; a call that returns an existing task has stored
  nothing and the task has the caller and key of the request; an error stores nothing unless
  the acknowledgement of a successful commit was lost.
\<close>

theorem create_or_get_atomic:
  assumes "db_wf d" "initial_pair t e"
  shows "case CreateOrGet jsonb tf between getft t e d of
      (Inr None, d') \<Rightarrow> db_wf d' \<and>
        (\<exists>body. jsonb (snap_Body (task_Snapshot t)) = Some body \<and> d' = with_pair body t e d)
    | (Inr (Some x), d') \<Rightarrow> d' = between d \<and>
        (\<exists>r \<in> set (notification_tasks d'). row_key r = (task_CallerID t, task_IdempotencyKey t) \<and> task_ID x = r_id r)
    | (Inl err, d') \<Rightarrow> d' = d \<or> d' = between d \<or>
        commit_fault tf = Unacknowledged \<and>
        (\<exists>body. jsonb (snap_Body (task_Snapshot t)) = Some body \<and> d' = with_pair body t e d)"
proof (cases "WithTx tf (create_tx jsonb t e) d")
  case (Pair err d1)
  show ?thesis
  proof (cases err)
    case None
    with Pair have "create_tx jsonb t e tf d = Inr d1" by (simp add: WithTx_None)
    then show ?thesis
      using Pair None create_tx_pair [of jsonb t e tf d d1] create_tx_wf [OF assms] by (simp add: CreateOrGet_def)
  next
    case (Some e1)
    from WithTx_error [OF Pair [unfolded Some]] create_tx_pair [of jsonb t e tf d d1]
    show ?thesis using Pair Some
      by (auto simp: CreateOrGet_def split: sum.splits dest: GetByCallerAndKey_Inr)
  qed
qed

lemma sample_request:
  "initial_pair sample_task sample_outbox_event"
  "task_row_ok (row_of_task ''{}'' sample_task)" "outbox_row_ok (row_of_event sample_outbox_event)"
  by (simp_all add: initial_pair_def task_row_ok_def row_of_task_def outbox_row_ok_def row_of_event_def sample_task_def
      sample_outbox_event_def sample_snapshot_def sample_policy_def sample_texts sample_hash_def int64_def int4_def
      opt_text_def duration_units)

lemma sample_accepted:
  "CreateOrGet Some no_faults between getft sample_task sample_outbox_event empty_db =
     (Inr None, with_pair ''{}'' sample_task sample_outbox_event empty_db)"
  using sample_request(2,3)
  by (simp add: CreateOrGet_def WithTx_def no_faults_def create_tx_def CreateNotification_def InsertOutbox_def
      stmt_fault_def insert_task_def insert_outbox_def empty_db_def with_pair_def sample_task_def
      sample_outbox_event_def sample_snapshot_def)

lemma create_or_get_atomic_witness:
  "db_wf (with_pair ''{}'' sample_task sample_outbox_event empty_db)"
  using create_or_get_atomic [OF empty_db_wf sample_request(1), where jsonb = Some and tf = no_faults]
  by (auto simp: sample_accepted)

lemma pending_filter:
  "db_wf d \<Longrightarrow>
   filter (\<lambda>e. o_id e = i \<and> o_claim_token e = Some token \<and> o_published_at e = None) (outbox_events d) =
     (case event_of d i of None \<Rightarrow> []
      | Some e \<Rightarrow> if o_claim_token e = Some token \<and> o_published_at e = None then [e] else [])"
  by (rule filter_key_lookup [OF db_wf_event_ids])

text \<open>
  Only the holder of an event's claim can mark it published, and at most once: a call
  that reports success found the event unpublished under the caller's token and leaves it
  published with no claim; any other caller changes nothing and is told so.
\<close>

theorem mark_published_owner:
  assumes "db_wf d"
  shows "case MarkPublished ft i token at d of
      (Inr applied, d') \<Rightarrow>
        applied = (case event_of d i of None \<Rightarrow> False
                   | Some e \<Rightarrow> o_claim_token e = Some token \<and> o_published_at e = None) \<and>
        (if applied
         then event_of d' i = map_option (\<lambda>e. e\<lparr>o_published_at := Some at, o_claim_token := None, o_claim_until := None\<rparr>) (event_of d i) \<and>
              (\<forall>j. event_of d' j = (if j = i then event_of d' i else event_of d j)) \<and>
              notification_tasks d' = notification_tasks d \<and> fst (MarkPublished ft i token at' d') = Inr False
         else d' = d)
    | (Inl err, d') \<Rightarrow> ft \<noteq> Completed \<and> (ft = Failed \<longrightarrow> d' = d)"
proof -
  let ?p = "\<lambda>e. o_id e = i \<and> o_claim_token e = Some token \<and> o_published_at e = None"
  let ?f = "\<lambda>e. e\<lparr>o_published_at := Some at, o_claim_token := None, o_claim_until := None\<rparr>"
  have ok: "\<forall>e \<in> set (outbox_events d). outbox_row_ok (?f e)"
    using assms by (auto simp: db_wf_def rows_wf_def outbox_row_ok_def)
  have look: "lookup_by o_id (update_where ?p ?f (outbox_events d)) j =
      map_option (\<lambda>r. if ?p r then ?f r else r) (event_of d j)" for j
    by (rule lookup_by_update_where) simp
  have self: "event_of d j = Some e \<Longrightarrow> o_id e = j" for j e by (auto dest: lookup_by_SomeD)
  show ?thesis
  proof (cases ft)
    case Completed
    have call: "MarkPublished ft i token at d =
        (Inr (length (filter ?p (outbox_events d)) = 1), d\<lparr>outbox_events := update_where ?p ?f (outbox_events d)\<rparr>)"
      using ok by (simp add: MarkPublished_def Completed sql_update_completed)
    have nil: "filter ?p (update_where ?p ?f (outbox_events d)) = []"
    proof -
      have "\<not> ?p (if ?p r then ?f r else r)" for r by (cases "?p r") simp_all
      then show ?thesis by (simp only: update_where_def filter_map comp_def filter_False) simp
    qed
    have again: "fst (MarkPublished ft i token at' (d\<lparr>outbox_events := update_where ?p ?f (outbox_events d)\<rparr>)) = Inr False"
      by (simp add: MarkPublished_def Completed sql_update_def nil)
    show ?thesis
    proof (cases "\<exists>e. event_of d i = Some e \<and> o_claim_token e = Some token \<and> o_published_at e = None")
      case True
      then obtain e where e: "event_of d i = Some e" "o_claim_token e = Some token" "o_published_at e = None" by blast
      have "event_of (d\<lparr>outbox_events := update_where ?p ?f (outbox_events d)\<rparr>) i = Some (?f e)"
        using look [of i] e self [OF e(1)] by simp
      moreover have "event_of (d\<lparr>outbox_events := update_where ?p ?f (outbox_events d)\<rparr>) j = event_of d j" if "j \<noteq> i" for j
        using look [of j] that self [of j] by (cases "event_of d j") simp_all
      moreover have "length (filter ?p (outbox_events d)) = 1" unfolding pending_filter [OF assms] using e by simp
      ultimately show ?thesis using call again e by simp
    next
      case False
      then have none: "filter ?p (outbox_events d) = []"
        unfolding pending_filter [OF assms] by (auto split: option.splits)
      then have "update_where ?p ?f (outbox_events d) = outbox_events d"
        by (intro update_where_none) (simp add: filter_empty_conv)
      with none call False show ?thesis by (auto split: option.splits)
    qed
  qed (use ok in \<open>auto simp: MarkPublished_def sql_update_def list_all_iff\<close>)
qed

lemma mark_published_owner_witness:
  "event_of (snd (MarkPublished Completed ''e1'' ''t1'' Second (fresh_db (Some ''t1'')))) ''e1'' =
     Some (sample_event (Some Second) None)"
  using mark_published_owner [OF fresh_db_wf, of "Some ''t1''" Completed "''e1''" "''t1''" Second]
  by (simp add: fresh_db_def MarkPublished_def sql_update_def sample_event_ok sample_event_def outbox_row_ok_def
      sample_texts int4_def update_where_def split: if_splits)

lemma candidates_distinct: "db_wf d \<Longrightarrow> distinct (map o_id (outbox_candidates locked now limit d))"
  unfolding outbox_candidates_def by (rule selection_distinct) (simp add: distinct_map_filter db_wf_event_ids)

lemma ClaimOutbox_Inr:
  assumes wf: "db_wf d" and ret: "\<And>xs. mset (returning xs) = mset xs"
    and c: "ClaimOutbox ft locked returning now limit token until d = (Inr es, d')"
  shows "d' = d\<lparr>outbox_events := update_where (\<lambda>e. o_id e \<in> o_id ` set (outbox_candidates locked now limit d))
             (claim_event token until) (outbox_events d)\<rparr> \<and>
    mset es = mset (map (scan_event \<circ> claim_event token until) (outbox_candidates locked now limit d))"
proof -
  let ?c = "outbox_candidates locked now limit d" and ?E = "outbox_events d"
  let ?p = "\<lambda>e. o_id e \<in> o_id ` set ?c"
  from c have d': "d' = d\<lparr>outbox_events := update_where ?p (claim_event token until) ?E\<rparr>"
    and es: "es = map scan_event (returning (map (claim_event token until) (filter ?p ?E)))"
    by (cases ft; simp add: ClaimOutbox_def sql_update_def Let_def split: if_splits)+
  have dE: "distinct (map o_id ?E)" using wf by (rule db_wf_event_ids)
  have sub: "set ?c \<subseteq> set ?E" using candidates_subset by fast
  have "?p e \<longleftrightarrow> e \<in> set ?c" if "e \<in> set ?E" for e
    using that sub dE by (auto simp: distinct_map inj_on_def)
  then have "set (filter ?p ?E) = set ?c" using sub by auto
  moreover have "distinct (filter ?p ?E)" "distinct ?c"
    using dE candidates_distinct [OF wf] by (auto simp: distinct_map)
  ultimately have "mset (filter ?p ?E) = mset ?c"
    using set_eq_iff_mset_eq_distinct [of "filter ?p ?E" ?c] by blast
  then have "mset es = image_mset scan_event (image_mset (claim_event token until) (mset ?c))"
    unfolding es mset_map ret by (simp only:)
  then show ?thesis using d' by (simp add: multiset.map_comp)
qed

text \<open>
  C21. A batch of outbox events is claimed for one publisher: the claimed events are the
  oldest claimable ones that no other transaction holds, at most \<open>limit\<close> of them, each
  returned once and stored under the new token; and none of them is claimable again, by any
  publisher, until the claim has expired.
\<close>

theorem claim_outbox_exclusive:
  assumes "db_wf d" "\<And>xs. mset (returning xs) = mset xs"
    and "ClaimOutbox ft locked returning now limit token until d = (Inr es, d')"
  shows "length es \<le> limit \<and> distinct (map event_ID es) \<and>
    (\<forall>x \<in> set es. \<exists>e. event_of d (event_ID x) = Some e \<and> claimable now e \<and> \<not> locked (o_id e) \<and>
       x = scan_event (claim_event token until e) \<and>
       event_of d' (event_ID x) = Some (claim_event token until e) \<and>
       (\<forall>e' \<in> set (outbox_events d). claimable now e' \<and> \<not> locked (o_id e') \<and> o_id e' \<notin> event_ID ` set es \<longrightarrow>
          (o_created_at e, o_id e) \<le> (o_created_at e', o_id e') \<and> length es = limit) \<and>
       (\<forall>now' \<le> until. event_ID x \<notin> o_id ` set (outbox_candidates locked' now' limit' d')))"
proof -
  let ?c = "outbox_candidates locked now limit d" and ?g = "scan_event \<circ> claim_event token until"
  let ?p = "\<lambda>e. o_id e \<in> o_id ` set ?c"
  have d': "d' = d\<lparr>outbox_events := update_where ?p (claim_event token until) (outbox_events d)\<rparr>"
    and m: "mset es = mset (map ?g ?c)" using ClaimOutbox_Inr [OF assms] by auto
  have sid: "event_ID \<circ> ?g = o_id" by (simp add: fun_eq_iff scan_event_def)
  have sub: "set ?c \<subseteq> {e \<in> set (outbox_events d). claimable now e \<and> \<not> locked (o_id e)}" by (rule candidates_subset)
  have es: "set es = ?g ` set ?c" using mset_eq_setD [OF m] by simp
  have ids: "event_ID ` set es = o_id ` set ?c" unfolding es image_comp sid ..
  have len: "length es = length ?c" using mset_eq_length [OF m] by simp
  have "mset (map event_ID es) = mset (map o_id ?c)" by (simp add: m multiset.map_comp sid)
  then have dist: "distinct (map event_ID es)" using candidates_distinct [OF assms(1)] mset_eq_imp_distinct_iff by blast
  have "\<exists>e. event_of d (event_ID x) = Some e \<and> claimable now e \<and> \<not> locked (o_id e) \<and>
       x = scan_event (claim_event token until e) \<and>
       event_of d' (event_ID x) = Some (claim_event token until e) \<and>
       (\<forall>e' \<in> set (outbox_events d). claimable now e' \<and> \<not> locked (o_id e') \<and> o_id e' \<notin> event_ID ` set es \<longrightarrow>
          (o_created_at e, o_id e) \<le> (o_created_at e', o_id e') \<and> length es = limit) \<and>
       (\<forall>now' \<le> until. event_ID x \<notin> o_id ` set (outbox_candidates locked' now' limit' d'))"
    if "x \<in> set es" for x
  proof -
    from that es obtain e where e: "e \<in> set ?c" and x: "x = scan_event (claim_event token until e)" by auto
    with sub have mem: "e \<in> set (outbox_events d)" "claimable now e" "\<not> locked (o_id e)" by auto
    have ix: "event_ID x = o_id e" by (simp add: x scan_event_def)
    have ev: "event_of d (o_id e) = Some e" using lookup_by_eqI [OF db_wf_event_ids [OF assms(1)] mem(1)] by simp
    have ev': "event_of d' (o_id e) = Some (claim_event token until e)"
      using lookup_by_update_where [of o_id "claim_event token until" ?p "outbox_events d" "o_id e"] ev e
      by (simp add: d')
    have least: "(o_created_at e, o_id e) \<le> (o_created_at e', o_id e') \<and> length es = limit"
      if "e' \<in> set (outbox_events d)" "claimable now e'" "\<not> locked (o_id e')" "o_id e' \<notin> event_ID ` set es" for e'
    proof -
      from that(4) have "e' \<notin> set ?c" unfolding ids by blast
      with selection_least [of e limit "\<lambda>e. \<not> locked (o_id e)" "\<lambda>e. (o_created_at e, o_id e)"
          "filter (claimable now) (outbox_events d)" e'] e that(1-3)
      show ?thesis unfolding len outbox_candidates_def by simp
    qed
    have wf': "db_wf d'" using ClaimOutbox_wf [OF assms(1), of ft locked returning now limit token until] assms(3) by simp
    have held: "o_id e \<notin> o_id ` set (outbox_candidates locked' now' limit' d')" if "now' \<le> until" for now'
    proof
      assume "o_id e \<in> o_id ` set (outbox_candidates locked' now' limit' d')"
      then obtain q where q: "q \<in> set (outbox_events d')" "claimable now' q" "o_id q = o_id e"
        using candidates_subset by fastforce
      then have "q = claim_event token until e"
        using lookup_by_eqI [OF db_wf_event_ids [OF wf'] q(1,3)] ev' by simp
      with q(2) that show False by (simp add: claimable_def claim_event_def)
    qed
    show ?thesis unfolding ix using ev ev' mem x least held by blast
  qed
  then show ?thesis using dist len by (simp add: outbox_candidates_def)
qed

lemma fresh_candidate: "outbox_candidates (\<lambda>_. False) now (Suc 0) (fresh_db None) = [sample_event None None]"
  by (simp add: outbox_candidates_def fresh_db_def claimable_def)

lemma claim_outbox_exclusive_witness:
  "\<exists>es d'. ClaimOutbox Completed (\<lambda>_. False) (\<lambda>xs. xs) 0 1 ''t1'' Minute (fresh_db None) = (Inr es, d') \<and>
     map event_ID es = [''e1''] \<and> outbox_candidates (\<lambda>_. False) Second 5 d' = []"
proof -
  let ?d' = "\<lparr>notification_tasks = [sample_row StatusPending], outbox_events = [claim_event ''t1'' Minute (sample_event None None)]\<rparr>"
  let ?es = "[scan_event (claim_event ''t1'' Minute (sample_event None None))]"
  have "pg_text ''t1''" by (rule ascii_pg_text) (simp_all add: ascii_def)
  then have "outbox_row_ok (claim_event ''t1'' Minute (sample_event None None))"
    by (simp add: outbox_row_ok_def claim_event_def sample_event_def sample_texts int4_def)
  then have c: "ClaimOutbox Completed (\<lambda>_. False) (\<lambda>xs. xs) 0 1 ''t1'' Minute (fresh_db None) = (Inr ?es, ?d')"
    by (simp add: ClaimOutbox_def fresh_candidate sql_update_def) (simp add: fresh_db_def update_where_def)
  have "\<forall>x \<in> set ?es. \<forall>now' \<le> Minute. event_ID x \<notin> o_id ` set (outbox_candidates (\<lambda>_. False) now' 5 ?d')"
    using claim_outbox_exclusive [OF fresh_db_wf _ c, of "\<lambda>_. False" 5] by blast
  then have "event_ID (hd ?es) \<notin> o_id ` set (outbox_candidates (\<lambda>_. False) Second 5 ?d')"
    by (simp add: duration_units)
  moreover have "set (outbox_candidates (\<lambda>_. False) Second 5 ?d') \<subseteq> set (outbox_events ?d')"
    using candidates_subset by fast
  ultimately have "outbox_candidates (\<lambda>_. False) Second 5 ?d' = []"
    by (cases "outbox_candidates (\<lambda>_. False) Second 5 ?d'") (auto simp: scan_event_def)
  with c show ?thesis by (auto simp: scan_event_def)
qed

end
