(* ===== verification/StoreSched.thy ===== *)
theory StoreSched
  imports StoreInv
begin

text \<open>
  The scheduler's transaction (\<open>ScheduleDue\<close>) and the administrator's replay
  (\<open>ReplayDeadAtomic\<close>). The statement-by-statement loop of \<open>ScheduleDue\<close> is shown equal
  to one batch: every candidate is replaced by \<open>scheduled_row\<close> and the new events are
  appended in the order of the candidates.
\<close>

section \<open>One statement of the loop\<close>

lemma tx_update_Inr:
  "tx_update tf k i f d = Inr d' \<longleftrightarrow>
   stmt_ok tf k \<and> (\<forall>r \<in> set (notification_tasks d). r_id r = i \<longrightarrow> task_row_ok (f r)) \<and>
   d' = d\<lparr>notification_tasks := update_where (\<lambda>r. r_id r = i) f (notification_tasks d)\<rparr>"
  by (auto simp: tx_update_def sql_update_def stmt_fault_def list_all_iff)

definition lease_code :: "task_row \<Rightarrow> string" where
  "lease_code r = (if r_status r = StatusDelivering then ''delivery_lease_expired'' else [])"

definition scheduled_row :: "time \<Rightarrow> task_row \<Rightarrow> task_row" where
  "scheduled_row now r =
     (if exhausted now r then kill_row now r else resume_row (r_generation r + 1) (lease_code r) now r)"

definition scheduled_event :: "time \<Rightarrow> task_row \<Rightarrow> outbox_row" where
  "scheduled_event now r = retry_event (r_id r) (r_generation r + 1) now"

definition scheduled_events :: "time \<Rightarrow> task_row list \<Rightarrow> outbox_row list" where
  "scheduled_events now items = map (scheduled_event now) (filter (\<lambda>r. \<not> exhausted now r) items)"

definition count_items :: "time \<Rightarrow> task_row list \<Rightarrow> schedule_result \<Rightarrow> schedule_result" where
  "count_items now items res =
     \<lparr>Scheduled = Scheduled res + int (count_where (\<lambda>r. \<not> exhausted now r) items),
      Dead = Dead res + int (count_where (exhausted now) items),
      RecoveredLeases = RecoveredLeases res +
        int (count_where (\<lambda>r. \<not> exhausted now r \<and> r_status r = StatusDelivering) items)\<rparr>"

definition in_flight :: "task_row \<Rightarrow> bool" where
  "in_flight r \<longleftrightarrow> r_status r = StatusRetryWait \<or> r_status r = StatusDelivering"

lemma scheduled_row_sel [simp]:
  "r_id (scheduled_row now r) = r_id r" "r_caller_id (scheduled_row now r) = r_caller_id r"
  "r_idempotency_key (scheduled_row now r) = r_idempotency_key r"
  by (simp_all add: scheduled_row_def kill_row_def resume_row_def)

lemma kill_row_sel [simp]:
  "r_id (kill_row now r) = r_id r" "r_caller_id (kill_row now r) = r_caller_id r"
  "r_idempotency_key (kill_row now r) = r_idempotency_key r" "r_generation (kill_row now r) = r_generation r"
  by (simp_all add: kill_row_def)

lemma resume_row_sel [simp]:
  "r_id (resume_row g c now r) = r_id r" "r_caller_id (resume_row g c now r) = r_caller_id r"
  "r_idempotency_key (resume_row g c now r) = r_idempotency_key r" "r_generation (resume_row g c now r) = g"
  by (simp_all add: resume_row_def)

lemma in_flight_shape:
  "in_flight r \<Longrightarrow> row_shape r \<Longrightarrow> row_shape (kill_row now r) \<and> row_shape (resume_row g c now r)"
  by (auto simp: in_flight_def row_shape_def kill_row_def resume_row_def)

lemma row_by_id:
  "db_wf d \<Longrightarrow> r \<in> set (notification_tasks d) \<Longrightarrow> q \<in> set (notification_tasks d) \<Longrightarrow> r_id q = r_id r \<longleftrightarrow> q = r"
  using db_wf_ids [of d] by (meson eq_key_imp_eq_value distinct_map inj_onD)

lemma update_one_cong:
  assumes "db_wf d" "r \<in> set (notification_tasks d)" "f r = g r"
  shows "update_where (\<lambda>q. r_id q = r_id r) f (notification_tasks d) =
         update_where (\<lambda>q. r_id q = r_id r) g (notification_tasks d)"
  using assms row_by_id [OF assms(1,2)] by (auto simp: update_where_def)

text \<open>No event of the next generation exists, so DO NOTHING never applies.\<close>

lemma next_generation_fresh:
  assumes "db_wf d" "r \<in> set (notification_tasks d)"
  shows "(r_id r, r_generation r + 1) \<notin> event_key ` set (outbox_events d)"
  using assms by (fastforce simp: db_wf_def covered_def)

lemma loop_step_dead:
  assumes wf: "db_wf d" and r: "r \<in> set (notification_tasks d)" "in_flight r" and x: "exhausted now r"
    and st: "tx_update tf k (r_id r) (kill_row now) d = Inr d'"
  shows "db_wf d'"
    and "d' = d\<lparr>notification_tasks := update_where (\<lambda>q. r_id q = r_id r) (scheduled_row now) (notification_tasks d)\<rparr>"
proof -
  from st have d': "d' = d\<lparr>notification_tasks := update_where (\<lambda>q. r_id q = r_id r) (kill_row now) (notification_tasks d)\<rparr>"
    and ok: "\<forall>q \<in> set (notification_tasks d). r_id q = r_id r \<longrightarrow> task_row_ok (kill_row now q)"
    by (auto simp: tx_update_Inr)
  have sh: "\<forall>q \<in> set (notification_tasks d). r_id q = r_id r \<longrightarrow> row_shape (kill_row now q)"
    using row_by_id [OF wf r(1)] r wf in_flight_shape by (auto simp: db_wf_def rows_wf_def)
  show "db_wf d'" unfolding d' by (rule update_tasks_wf [OF wf _ _ _ ok sh]) simp_all
  show "d' = d\<lparr>notification_tasks := update_where (\<lambda>q. r_id q = r_id r) (scheduled_row now) (notification_tasks d)\<rparr>"
    unfolding d' using update_one_cong [OF wf r(1), of "kill_row now" "scheduled_row now"] x
    by (simp add: scheduled_row_def)
qed

lemma loop_step_resume:
  assumes wf: "db_wf d" and r: "r \<in> set (notification_tasks d)" "in_flight r" and x: "\<not> exhausted now r"
    and st: "tx_update tf k (r_id r) (resume_row (r_generation r + 1) (lease_code r) now) d = Inr d1"
    and ins: "tx_insert_outbox tf k' (scheduled_event now r) d1 = Inr d'"
  shows "db_wf d'"
    and "d' = \<lparr>notification_tasks = update_where (\<lambda>q. r_id q = r_id r) (scheduled_row now) (notification_tasks d),
               outbox_events = outbox_events d @ [scheduled_event now r]\<rparr>"
proof -
  let ?f = "resume_row (r_generation r + 1) (lease_code r) now"
  from st have d1: "d1 = d\<lparr>notification_tasks := update_where (\<lambda>q. r_id q = r_id r) ?f (notification_tasks d)\<rparr>"
    and ok: "\<forall>q \<in> set (notification_tasks d). r_id q = r_id r \<longrightarrow> task_row_ok (?f q)"
    by (auto simp: tx_update_Inr)
  have key: "event_key (scheduled_event now r) = (r_id r, r_generation r + 1)"
    by (simp add: scheduled_event_def retry_event_def)
  with next_generation_fresh [OF wf r(1)] ins have ins': "insert_outbox (scheduled_event now r) d1 = Inr d'"
    by (auto simp: tx_insert_outbox_def insert_outbox_or_nothing_def d1 split: if_splits)
  show "db_wf d'"
  proof (rule bump_wf [OF wf r(1), where p = "\<lambda>q. r_id q = r_id r" and f = ?f])
    show "row_shape (?f r)" using in_flight_shape r wf by (auto simp: db_wf_def rows_wf_def)
  qed (use ok r(1) key ins' row_by_id [OF wf r(1)] in \<open>auto simp: d1\<close>)
  show "d' = \<lparr>notification_tasks = update_where (\<lambda>q. r_id q = r_id r) (scheduled_row now) (notification_tasks d),
               outbox_events = outbox_events d @ [scheduled_event now r]\<rparr>"
    using ins' update_one_cong [OF wf r(1), of ?f "scheduled_row now"] x
    by (simp add: insert_outbox_Inr d1 scheduled_row_def)
qed

section \<open>The whole loop\<close>

lemma update_where_twice:
  assumes "\<And>r. k (f r) = k r" "i \<notin> I"
  shows "update_where (\<lambda>r. k r \<in> I) f (update_where (\<lambda>r. k r = i) f rs) = update_where (\<lambda>r. k r \<in> insert i I) f rs"
  using assms by (auto simp: update_where_def)

lemma update_other_mem:
  assumes "r \<in> set rs" "k r \<noteq> i" shows "r \<in> set (update_where (\<lambda>q. k q = i) f rs)"
  using assms by (force simp: set_update_where)

lemma schedule_loop_batch:
  assumes "schedule_loop tf now k items res d = ((res', None), d')" "db_wf d"
    "set items \<subseteq> set (notification_tasks d)" "distinct (map r_id items)" "\<forall>r \<in> set items. in_flight r"
  shows "db_wf d' \<and>
    notification_tasks d' = update_where (\<lambda>r. r_id r \<in> r_id ` set items) (scheduled_row now) (notification_tasks d) \<and>
    outbox_events d' = outbox_events d @ scheduled_events now items \<and>
    res' = count_items now items res"
  using assms
proof (induction items arbitrary: k res d)
  case Nil
  then show ?case
    by (simp add: update_where_none scheduled_events_def count_items_def count_where_def)
next
  case (Cons r items)
  let ?sub = "\<lambda>d. set items \<subseteq> set (notification_tasks d)"
  have r: "r \<in> set (notification_tasks d)" "in_flight r" and dist: "r_id r \<notin> r_id ` set items"
    using Cons.prems by auto
  have sub: "?sub (d\<lparr>notification_tasks := update_where (\<lambda>q. r_id q = r_id r) (scheduled_row now) (notification_tasks d)\<rparr>)"
  proof -
    have "x \<in> set items \<Longrightarrow> r_id x \<noteq> r_id r" for x using dist by (metis image_eqI)
    then show ?thesis using Cons.prems(3) by (auto intro!: update_other_mem)
  qed
  show ?case
  proof (cases "exhausted now r")
    case True
    with Cons.prems(1) obtain d1 where st: "tx_update tf k (r_id r) (kill_row now) d = Inr d1"
      and lp: "schedule_loop tf now (k + 1) items (res\<lparr>Dead := Dead res + 1\<rparr>) d1 = ((res', None), d')"
      by (auto split: sum.splits)
    note step = loop_step_dead [OF Cons.prems(2) r True st]
    have "?sub d1" using sub unfolding step(2) by simp
    from Cons.IH [OF lp step(1) this] Cons.prems(4,5) True update_where_twice [of r_id "scheduled_row now", OF _ dist]
    show ?thesis unfolding step(2)
      by (simp add: scheduled_events_def count_items_def count_where_def)
  next
    case False
    define res1 where "res1 = (if r_status r = StatusDelivering
        then res\<lparr>RecoveredLeases := RecoveredLeases res + 1\<rparr> else res)"
    from False Cons.prems(1) obtain d1 d2 where
      st: "tx_update tf k (r_id r) (resume_row (r_generation r + 1) (lease_code r) now) d = Inr d1"
      and ins: "tx_insert_outbox tf (k + 1) (scheduled_event now r) d1 = Inr d2"
      and lp: "schedule_loop tf now (k + 2) items (res1\<lparr>Scheduled := Scheduled res1 + 1\<rparr>) d2 = ((res', None), d')"
      by (auto simp: Let_def lease_code_def scheduled_event_def res1_def split: sum.splits)
    note step = loop_step_resume [OF Cons.prems(2) r False st ins]
    have "?sub d2" using sub unfolding step(2) by simp
    from Cons.IH [OF lp step(1) this] Cons.prems(4,5) False update_where_twice [of r_id "scheduled_row now", OF _ dist]
    show ?thesis unfolding step(2)
      by (simp add: scheduled_events_def count_items_def count_where_def res1_def)
  qed
qed

section \<open>ScheduleDue\<close>

lemma due_in_flight: "due now r \<Longrightarrow> in_flight r"
  by (auto simp: due_def in_flight_def)

lemma due_candidates_mem:
  "set (due_candidates locked now limit d) \<subseteq> {r \<in> set (notification_tasks d). due now r \<and> \<not> locked (r_id r)}"
  by (auto simp: due_candidates_def dest!: in_set_takeD)

lemma due_candidates_distinct: "db_wf d \<Longrightarrow> distinct (map r_id (due_candidates locked now limit d))"
  unfolding due_candidates_def by (rule selection_distinct) (simp add: distinct_map_filter db_wf_ids)

definition schedule_batch :: "(string \<Rightarrow> bool) \<Rightarrow> time \<Rightarrow> nat \<Rightarrow> db \<Rightarrow> db" where
  "schedule_batch locked now limit d =
     (let items = due_candidates locked now limit d
      in \<lparr>notification_tasks =
            update_where (\<lambda>r. r_id r \<in> r_id ` set items) (scheduled_row now) (notification_tasks d),
          outbox_events = outbox_events d @ scheduled_events now items\<rparr>)"

lemma schedule_loop_due:
  assumes "db_wf d" "schedule_loop tf now k (due_candidates locked now limit d) no_schedule d = ((res, None), d')"
  shows "db_wf d' \<and> d' = schedule_batch locked now limit d \<and>
    res = count_items now (due_candidates locked now limit d) no_schedule"
proof -
  have "set (due_candidates locked now limit d) \<subseteq> set (notification_tasks d)"
    "\<forall>r \<in> set (due_candidates locked now limit d). in_flight r"
    using due_candidates_mem due_in_flight by blast+
  from schedule_loop_batch [OF assms(2,1) this(1) due_candidates_distinct [OF assms(1)] this(2)]
  show ?thesis by (cases d') (auto simp: schedule_batch_def Let_def)
qed

lemma ScheduleDue_effect:
  assumes "db_wf d" "ScheduleDue tf locked now limit d = ((res, err), d')"
  shows "db_wf d'" and "d' = d \<or> d' = schedule_batch locked now limit d"
    and "err = None \<Longrightarrow> d' = schedule_batch locked now limit d \<and>
          res = count_items now (due_candidates locked now limit d) no_schedule"
    and "err \<noteq> None \<Longrightarrow> commit_fault tf \<noteq> Unacknowledged \<Longrightarrow> d' = d"
proof -
  obtain res1 err1 d1 where lp:
    "schedule_loop tf now 1 (due_candidates locked now limit d) no_schedule d = ((res1, err1), d1)"
    by (metis prod.exhaust)
  have L: "err1 = None \<Longrightarrow> db_wf d1 \<and> d1 = schedule_batch locked now limit d \<and>
      res1 = count_items now (due_candidates locked now limit d) no_schedule"
    using schedule_loop_due [OF assms(1)] lp by auto
  show "db_wf d'" and "d' = d \<or> d' = schedule_batch locked now limit d"
    and "err = None \<Longrightarrow> d' = schedule_batch locked now limit d \<and>
          res = count_items now (due_candidates locked now limit d) no_schedule"
    and "err \<noteq> None \<Longrightarrow> commit_fault tf \<noteq> Unacknowledged \<Longrightarrow> d' = d"
    using assms L lp
    by (cases err1; cases "commit_fault tf"; force simp: ScheduleDue_def split: if_splits)+
qed

section \<open>The loop succeeds\<close>

lemma hex_digit_ascii: "n < 16 \<Longrightarrow> byte (hex_digit n) < 128 \<and> byte (hex_digit n) \<noteq> 0"
  by (simp add: hex_digit_def)

lemma hex_ascii: "ascii (hex_EncodeToString bs)" "list_all (\<lambda>c. 0 < byte c) (hex_EncodeToString bs)"
proof -
  have b: "byte c div 16 < 16" for c :: char
    using nat_of_char_less_256 [of c] by (intro less_mult_imp_div_less) simp
  show "ascii (hex_EncodeToString bs)" "list_all (\<lambda>c. 0 < byte c) (hex_EncodeToString bs)"
    using hex_digit_ascii [OF b] hex_digit_ascii [of "byte c mod 16" for c]
    by (auto simp: ascii_def hex_EncodeToString_def list_all_iff)
qed

lemma retry_event_id_text: "text_between (Suc 0) 64 (retry_event_id i g)"
  by (rule ascii_text_between) (simp_all add: retry_event_id_def hex_ascii)

lemma event_type_text: "text_between (Suc 0) 128 ''notification.ready''"
  by (rule ascii_text_between) (simp_all add: ascii_def)

lemma retry_event_ok: "0 \<le> g \<Longrightarrow> int4 g \<Longrightarrow> outbox_row_ok (retry_event i g now)"
  by (simp add: outbox_row_ok_def retry_event_def retry_event_id_text event_type_text int4_def)

lemma kill_row_ok: "task_row_ok r \<Longrightarrow> task_row_ok (kill_row now r)"
  by (simp add: task_row_ok_def kill_row_def)

lemma resume_row_ok:
  assumes "task_row_ok r" "0 \<le> g" "int4 g" shows "task_row_ok (resume_row g (lease_code r) now r)"
proof -
  have "text_between 0 128 ''delivery_lease_expired''"
    by (rule ascii_text_between) (simp_all add: ascii_def)
  then have "opt_text 128 (NULLIF (lease_code r) [])" by (simp add: opt_text_def NULLIF_def lease_code_def)
  with assms show ?thesis by (simp add: task_row_ok_def resume_row_def)
qed

definition schedulable :: "time \<Rightarrow> task_row list \<Rightarrow> db \<Rightarrow> bool" where
  "schedulable now items d \<longleftrightarrow>
     (\<forall>r \<in> set items. exhausted now r \<or> int4 (r_generation r + 1)) \<and>
     distinct (map o_id (scheduled_events now items)) \<and>
     o_id ` set (scheduled_events now items) \<inter> o_id ` set (outbox_events d) = {}"

lemma schedule_loop_succeeds:
  assumes "\<And>k. stmt_ok tf k" "db_wf d" "set items \<subseteq> set (notification_tasks d)" "distinct (map r_id items)"
    "\<forall>r \<in> set items. in_flight r" "schedulable now items d"
  shows "\<exists>res' d'. schedule_loop tf now k items res d = ((res', None), d')"
  using assms(2-)
proof (induction items arbitrary: k res d)
  case (Cons r items)
  have r: "r \<in> set (notification_tasks d)" "in_flight r" and dist: "r_id r \<notin> r_id ` set items"
    and rok: "task_row_ok r" using Cons.prems by (auto simp: db_wf_def rows_wf_def)
  note uniq = row_by_id [OF Cons.prems(1) r(1)]
  have other: "x \<in> set items \<Longrightarrow> r_id x \<noteq> r_id r" for x using dist by (metis image_eqI)
  show ?case
  proof (cases "exhausted now r")
    case True
    define d1 where "d1 = d\<lparr>notification_tasks := update_where (\<lambda>q. r_id q = r_id r) (kill_row now) (notification_tasks d)\<rparr>"
    have st: "tx_update tf k (r_id r) (kill_row now) d = Inr d1"
      using assms(1) kill_row_ok [OF rok] uniq by (simp add: tx_update_Inr d1_def)
    have "set items \<subseteq> set (notification_tasks d1)"
      using Cons.prems(2) other by (auto simp: d1_def intro!: update_other_mem)
    moreover have "schedulable now items d1"
      using Cons.prems(5) True by (simp add: schedulable_def scheduled_events_def d1_def)
    ultimately show ?thesis
      using Cons.IH [OF loop_step_dead(1) [OF Cons.prems(1) r True st]] Cons.prems(3,4) True st by simp
  next
    case False
    let ?f = "resume_row (r_generation r + 1) (lease_code r) now"
    define d1 where "d1 = d\<lparr>notification_tasks := update_where (\<lambda>q. r_id q = r_id r) ?f (notification_tasks d)\<rparr>"
    define d2 where "d2 = d1\<lparr>outbox_events := outbox_events d @ [scheduled_event now r]\<rparr>"
    have g: "0 \<le> r_generation r + 1" "int4 (r_generation r + 1)"
      using rok Cons.prems(5) False by (auto simp: task_row_ok_def schedulable_def)
    have st: "tx_update tf k (r_id r) ?f d = Inr d1"
      using assms(1) resume_row_ok [OF rok g] uniq by (simp add: tx_update_Inr d1_def)
    have key: "event_key (scheduled_event now r) = (r_id r, r_generation r + 1)"
      by (simp add: scheduled_event_def retry_event_def)
    have ids: "o_id (scheduled_event now r) \<notin> o_id ` set (outbox_events d)"
      using Cons.prems(5) False by (auto simp: schedulable_def scheduled_events_def)
    have "insert_outbox (scheduled_event now r) d1 = Inr d2"
      using retry_event_ok [OF g] ids next_generation_fresh [OF Cons.prems(1) r(1)] key r(1)
        image_update_where [of r_id ?f]
      by (simp add: insert_outbox_Inr d1_def d2_def scheduled_event_def)
    then have ins: "tx_insert_outbox tf (k + 1) (scheduled_event now r) d1 = Inr d2"
      using assms(1) next_generation_fresh [OF Cons.prems(1) r(1)] key
      by (simp add: tx_insert_outbox_def insert_outbox_or_nothing_def d1_def)
    have sub: "set items \<subseteq> set (notification_tasks d2)"
      using Cons.prems(2) other by (auto simp: d1_def d2_def intro!: update_other_mem)
    have sch: "schedulable now items d2"
      using Cons.prems(5) False by (auto simp: schedulable_def scheduled_events_def d1_def d2_def)
    show ?thesis
      using Cons.IH [OF loop_step_resume(1) [OF Cons.prems(1) r False st ins] sub _ _ sch]
        Cons.prems(3,4) False st ins
      by (simp add: Let_def lease_code_def scheduled_event_def)
  qed
qed simp

section \<open>Replay\<close>

lemma replay_row_sel [simp]:
  "r_id (replay_row now r) = r_id r" "r_caller_id (replay_row now r) = r_caller_id r"
  "r_idempotency_key (replay_row now r) = r_idempotency_key r"
  "r_generation (replay_row now r) = r_generation r + 1"
  "r_status (replay_row now r) = StatusPending"
  by (simp_all add: replay_row_def)

lemma replay_row_shape: "row_shape r \<Longrightarrow> r_status r = StatusDead \<Longrightarrow> row_shape (replay_row now r)"
  by (auto simp: row_shape_def replay_row_def)

definition replay_db :: "string \<Rightarrow> time \<Rightarrow> string \<Rightarrow> task_row \<Rightarrow> db \<Rightarrow> db" where
  "replay_db nid now eventID r d =
     \<lparr>notification_tasks = update_where (\<lambda>q. r_id q = nid) (replay_row now) (notification_tasks d),
      outbox_events = outbox_events d @ [replay_event eventID nid (r_generation r + 1) now]\<rparr>"

lemma dead_filter:
  assumes "db_wf d"
  shows "filter (\<lambda>r. r_id r = nid \<and> r_status r = StatusDead) (notification_tasks d) =
    (case task_of d nid of None \<Rightarrow> [] | Some r \<Rightarrow> if r_status r = StatusDead then [r] else [])"
  by (rule filter_key_lookup [OF db_wf_ids [OF assms]])

lemma ReplayDeadAtomic_effect:
  assumes wf: "db_wf d" and call: "ReplayDeadAtomic tf nid now eventID d = (res, d')"
  shows "db_wf d'"
    and "d' \<noteq> d \<Longrightarrow> \<exists>r. task_of d nid = Some r \<and> r_status r = StatusDead \<and> d' = replay_db nid now eventID r d"
    and "res = Inr True \<Longrightarrow> \<exists>r. task_of d nid = Some r \<and> r_status r = StatusDead \<and> d' = replay_db nid now eventID r d"
    and "res = Inr False \<Longrightarrow> d' = d \<and> \<not> (\<exists>r. task_of d nid = Some r \<and> r_status r = StatusDead)"
proof -
  let ?p = "\<lambda>r. r_id r = nid \<and> r_status r = StatusDead"
  let ?u = "update_where ?p (replay_row now) (notification_tasks d)"
  let ?e = "\<lambda>r. replay_event eventID nid (r_generation r + 1) now"
  have "db_wf d' \<and>
    (d' = d \<and> res \<noteq> Inr True \<and> (res = Inr False \<longrightarrow> \<not> (\<exists>r. task_of d nid = Some r \<and> r_status r = StatusDead)) \<or>
     (\<exists>r. task_of d nid = Some r \<and> r_status r = StatusDead \<and> d' = replay_db nid now eventID r d) \<and> res \<noteq> Inr False)"
  proof (cases "\<exists>r. task_of d nid = Some r \<and> r_status r = StatusDead")
    case False
    then have "filter ?p (notification_tasks d) = []"
      unfolding dead_filter [OF wf] by (auto split: option.splits)
    with call wf False show ?thesis
      by (auto simp: ReplayDeadAtomic_def sql_update_def split: if_splits)
  next
    case True
    then obtain r where r: "task_of d nid = Some r" "r_status r = StatusDead" by blast
    then have mem: "r \<in> set (notification_tasks d)" and nid: "r_id r = nid" by (auto dest: lookup_by_SomeD)
    have p: "q \<in> set (notification_tasks d) \<Longrightarrow> ?p q \<longleftrightarrow> q = r" for q
      using row_by_id [OF wf mem] nid r(2) by auto
    have f: "filter ?p (notification_tasks d) = [r]" unfolding dead_filter [OF wf] using r by simp
    have "d' = d \<and> res \<noteq> Inr True \<and> res \<noteq> Inr False \<or>
      insert_outbox (?e r) (d\<lparr>notification_tasks := ?u\<rparr>) = Inr d' \<and> task_row_ok (replay_row now r) \<and> res \<noteq> Inr False"
      using call f
      by (auto simp: ReplayDeadAtomic_def sql_update_def stmt_fault_def split: if_splits sum.splits fault.splits)
    then show ?thesis
    proof (elim disjE conjE)
      assume ins: "insert_outbox (?e r) (d\<lparr>notification_tasks := ?u\<rparr>) = Inr d'"
        and ok: "task_row_ok (replay_row now r)" and res: "res \<noteq> Inr False"
      have "row_shape (replay_row now r)" using wf mem r(2) replay_row_shape by (auto simp: db_wf_def rows_wf_def)
      then have "db_wf d'"
        by (intro bump_wf [OF wf mem p _ _ _ ok _ _ ins]) (simp_all add: replay_event_def nid)
      moreover have "d' = replay_db nid now eventID r d"
        using ins update_where_one [OF db_wf_ids [OF wf] mem p] nid
        by (simp add: insert_outbox_Inr replay_db_def)
      ultimately show ?thesis using r res by blast
    qed (use wf in auto)
  qed
  then show "db_wf d'"
    and "d' \<noteq> d \<Longrightarrow> \<exists>r. task_of d nid = Some r \<and> r_status r = StatusDead \<and> d' = replay_db nid now eventID r d"
    and "res = Inr True \<Longrightarrow> \<exists>r. task_of d nid = Some r \<and> r_status r = StatusDead \<and> d' = replay_db nid now eventID r d"
    and "res = Inr False \<Longrightarrow> d' = d \<and> \<not> (\<exists>r. task_of d nid = Some r \<and> r_status r = StatusDead)"
    by auto
qed

section \<open>Guarantees\<close>

lemma ScheduleDue_succeeds:
  assumes "db_wf d" "schedulable now (due_candidates locked now limit d) d"
  shows "\<exists>res d'. ScheduleDue no_faults locked now limit d = ((res, None), d')"
proof -
  let ?c = "due_candidates locked now limit d"
  have ok: "stmt_ok no_faults k" for k by (simp add: no_faults_def)
  have mem: "set ?c \<subseteq> set (notification_tasks d)" "\<forall>r \<in> set ?c. in_flight r"
    using due_candidates_mem due_in_flight by blast+
  from schedule_loop_succeeds [OF ok assms(1) mem(1) due_candidates_distinct [OF assms(1)] mem(2) assms(2)]
  obtain res d1 where "schedule_loop no_faults now 1 ?c no_schedule d = ((res, None), d1)" by blast
  then show ?thesis by (simp add: ScheduleDue_def) (simp add: no_faults_def)
qed

text \<open>
  C8. The scheduler's transaction, statement by statement, equals one batch: either every
  candidate is moved (killed when exhausted, otherwise made pending at its next generation
  with the event of that generation appended, in the order of the candidates) and the counters
  say how many of each, or nothing is changed; a partial batch is never stored, and an error
  with a stored batch is a lost commit acknowledgement.
\<close>

theorem schedule_due_batch:
  assumes "db_wf d"
  shows "case ScheduleDue tf locked now limit d of
      ((res, None), d') \<Rightarrow> db_wf d' \<and> d' = schedule_batch locked now limit d \<and>
        res = count_items now (due_candidates locked now limit d) no_schedule
    | ((res, Some err), d') \<Rightarrow> db_wf d' \<and>
        (d' = d \<or> commit_fault tf = Unacknowledged \<and> d' = schedule_batch locked now limit d)"
proof -
  obtain res err d' where c: "ScheduleDue tf locked now limit d = ((res, err), d')" by (metis prod.exhaust)
  show ?thesis
    using ScheduleDue_effect(1) [OF assms c] ScheduleDue_effect(2) [OF assms c]
      ScheduleDue_effect(3) [OF assms c] ScheduleDue_effect(4) [OF assms c]
    unfolding c by (cases err) auto
qed

lemma scheduled_not_due: "\<not> due now (scheduled_row now r)"
  by (simp add: due_def scheduled_row_def kill_row_def resume_row_def)


lemma sample_schedulable:
  "schedulable (20 * Second) (due_candidates (\<lambda>_. False) (20 * Second) (Suc 0) (sample_db StatusRetryWait)) (sample_db StatusRetryWait)"
  "due (20 * Second) (sample_row StatusRetryWait)" "\<not> exhausted (20 * Second) (sample_row StatusRetryWait)"
proof -
  show due: "due (20 * Second) (sample_row StatusRetryWait)" and ex: "\<not> exhausted (20 * Second) (sample_row StatusRetryWait)"
    by (simp_all add: due_def exhausted_def time_simps duration_units)
  have "length (retry_event_id ''n1'' 1) \<noteq> length ''e1''"
    by (simp add: retry_event_id_def length_hex)
  then have "retry_event_id ''n1'' 1 \<noteq> ''e1''" by metis
  with due ex show "schedulable (20 * Second) (due_candidates (\<lambda>_. False) (20 * Second) (Suc 0) (sample_db StatusRetryWait)) (sample_db StatusRetryWait)"
    by (simp add: schedulable_def due_candidates_def sample_db_def scheduled_events_def scheduled_event_def
        retry_event_def int4_def)
qed

lemma schedule_due_batch_witness:
  "\<exists>d'. ScheduleDue no_faults (\<lambda>_. False) (20 * Second) (Suc 0) (sample_db StatusRetryWait) =
     ((\<lparr>Scheduled = 1, Dead = 0, RecoveredLeases = 0\<rparr>, None), d') \<and> db_wf d' \<and>
     outbox_events d' = [sample_event (Some Second) None, retry_event ''n1'' 1 (20 * Second)]"
proof -
  let ?c = "due_candidates (\<lambda>_. False) (20 * Second) (Suc 0) (sample_db StatusRetryWait)"
  have c: "?c = [sample_row StatusRetryWait]"
    using sample_schedulable(2) by (simp add: due_candidates_def sample_db_def)
  from ScheduleDue_succeeds [OF sample_db_wf sample_schedulable(1)] obtain res d' where
    r: "ScheduleDue no_faults (\<lambda>_. False) (20 * Second) (Suc 0) (sample_db StatusRetryWait) = ((res, None), d')"
    by blast
  with schedule_due_batch [OF sample_db_wf, where tf = no_faults and locked = "\<lambda>_. False" and
      now = "20 * Second" and limit = "Suc 0", of StatusRetryWait]
  have w: "db_wf d'" and d': "d' = schedule_batch (\<lambda>_. False) (20 * Second) (Suc 0) (sample_db StatusRetryWait)"
    and res: "res = count_items (20 * Second) ?c no_schedule" by auto
  have "outbox_events d' = [sample_event (Some Second) None, retry_event ''n1'' 1 (20 * Second)]"
    using sample_schedulable(3)
    by (simp add: d' schedule_batch_def c scheduled_events_def scheduled_event_def) (simp add: sample_db_def)
  moreover have "res = \<lparr>Scheduled = 1, Dead = 0, RecoveredLeases = 0\<rparr>"
    using sample_schedulable(3) by (simp add: res c count_items_def count_where_def no_schedule_def)
  ultimately show ?thesis using r w by simp
qed


text \<open>
  Replay moves dead tasks only, and moves them completely: a call that reports success
  found the task dead and leaves it pending at its next generation, its counters and its
  snapshot as they were, with an unpublished event of that generation; a call that reports
  that it did not apply found no dead task under that identifier and changed nothing; and an
  error changes nothing unless the acknowledgement of the commit was lost.
\<close>

theorem replay_only_dead:
  assumes "db_wf d"
  shows "case ReplayDeadAtomic tf nid now eventID d of
      (Inr True, d') \<Rightarrow> db_wf d' \<and>
        (\<exists>r. task_of d nid = Some r \<and> r_status r = StatusDead \<and> task_of d' nid = Some (replay_row now r) \<and>
             outbox_events d' = outbox_events d @ [replay_event eventID nid (r_generation r + 1) now])
    | (Inr False, d') \<Rightarrow> d' = d \<and> \<not> (\<exists>r. task_of d nid = Some r \<and> r_status r = StatusDead)
    | (Inl err, d') \<Rightarrow> db_wf d' \<and> (d' = d \<or> commit_fault tf = Unacknowledged \<and>
        (\<exists>r. task_of d nid = Some r \<and> r_status r = StatusDead \<and> d' = replay_db nid now eventID r d))"
proof -
  obtain res d' where c: "ReplayDeadAtomic tf nid now eventID d = (res, d')" by fastforce
  have look: "task_of (replay_db nid now eventID r d) nid = Some (replay_row now r)" if "task_of d nid = Some r" for r
    using that lookup_by_update_where [of r_id "replay_row now" "\<lambda>q. r_id q = nid" "notification_tasks d" nid]
    by (auto simp: replay_db_def dest: lookup_by_SomeD)
  have quiet: "d' = d" if "res = Inl err" "commit_fault tf \<noteq> Unacknowledged" for err
    using c that by (auto simp: ReplayDeadAtomic_def split: if_splits prod.splits sum.splits list.splits fault.splits)
  note e = ReplayDeadAtomic_effect [OF assms c]
  show ?thesis
  proof (cases res)
    case (Inl err)
    then show ?thesis unfolding c using e(1,2) quiet by auto
  next
    case (Inr applied)
    show ?thesis
    proof (cases applied)
      case True
      with Inr e(3) obtain r where r: "task_of d nid = Some r" "r_status r = StatusDead"
        and d': "d' = replay_db nid now eventID r d" by auto
      have "outbox_events d' = outbox_events d @ [replay_event eventID nid (r_generation r + 1) now]"
        by (simp add: d' replay_db_def)
      with Inr True r look [OF r(1)] e(1) show ?thesis unfolding c d' by simp
    next
      case False
      with Inr e(4) show ?thesis unfolding c by simp
    qed
  qed
qed

lemma replay_only_dead_witness:
  "fst (ReplayDeadAtomic no_faults ''n1'' Second ''e2'' (sample_db StatusDelivered)) = Inr False \<and>
   snd (ReplayDeadAtomic no_faults ''n1'' Second ''e2'' (sample_db StatusDelivered)) = sample_db StatusDelivered"
  using replay_only_dead [OF sample_db_wf, where tf = no_faults and nid = "''n1''" and now = Second and eventID = "''e2''",
      of StatusDelivered]
  by (simp add: ReplayDeadAtomic_def no_faults_def stmt_fault_def sql_update_def sample_db_def)

text \<open>
  C24. Retention removes only finished work: a deleted task was delivered or dead, older than
  the cutoff and without an unpublished event; its events go with it, every other task and
  event stays as it was, and at most \<open>limit\<close> tasks go, as many as the call reports.
\<close>

theorem retention_safe:
  assumes "db_wf d"
  shows "case DeleteTerminalBefore ft locked cutoff limit d of (res, d') \<Rightarrow>
    db_wf d' \<and>
    (\<forall>r \<in> set (notification_tasks d) - set (notification_tasks d').
       (r_status r = StatusDelivered \<or> r_status r = StatusDead) \<and> r_updated_at r < cutoff \<and>
       (\<forall>e \<in> set (outbox_events d). o_aggregate_id e = r_id r \<longrightarrow> o_published_at e \<noteq> None)) \<and>
    set (notification_tasks d') \<subseteq> set (notification_tasks d) \<and>
    outbox_events d' = filter (\<lambda>e. o_aggregate_id e \<in> r_id ` set (notification_tasks d')) (outbox_events d) \<and>
    (case res of
       Inr n \<Rightarrow> int (length (notification_tasks d)) = n + int (length (notification_tasks d')) \<and> n \<le> int limit
     | Inl err \<Rightarrow> ft = Completed \<longrightarrow> False)"
proof -
  let ?c = "removal_candidates locked cutoff limit d"
  let ?T = "notification_tasks d"
  have sub: "set ?c \<subseteq> {r \<in> set ?T. removable cutoff d r}"
    unfolding removal_candidates_def by (auto dest!: in_set_takeD)
  have dist: "distinct (map r_id ?c)"
    unfolding removal_candidates_def by (rule selection_distinct) (simp add: distinct_map_filter db_wf_ids [OF assms])
  have p: "r_id r \<in> r_id ` set ?c \<longleftrightarrow> r \<in> set ?c" if "r \<in> set ?T" for r
    using row_by_id [OF assms that] sub by fastforce
  have owner: "o_aggregate_id e \<in> r_id ` set ?T" if "e \<in> set (outbox_events d)" for e
    using assms that by (auto simp: db_wf_def keys_wf_def)
  have ev: "outbox_events (delete_tasks (map r_id ?c) d) =
      filter (\<lambda>e. o_aggregate_id e \<in> r_id ` set (notification_tasks (delete_tasks (map r_id ?c) d))) (outbox_events d)"
  proof -
    have img: "a \<in> f ` A \<Longrightarrow> a \<notin> K \<longleftrightarrow> a \<in> f ` {x \<in> A. f x \<notin> K}" for a :: string and f :: "task_row \<Rightarrow> string" and A K
      by auto
    have "o_aggregate_id e \<notin> set (map r_id ?c) \<longleftrightarrow>
        o_aggregate_id e \<in> r_id ` {r \<in> set ?T. r_id r \<notin> set (map r_id ?c)}" if "e \<in> set (outbox_events d)" for e
      by (rule img [OF owner [OF that]])
    then show ?thesis unfolding delete_tasks_def by (simp del: set_map cong: filter_cong)
  qed
  have gone: "length (filter (\<lambda>r. r_id r \<in> r_id ` set ?c) ?T) \<le> limit"
  proof -
    have "distinct (filter (\<lambda>r. r_id r \<in> r_id ` set ?c) ?T)"
      using db_wf_ids [OF assms] by (simp add: distinct_map)
    then have "length (filter (\<lambda>r. r_id r \<in> r_id ` set ?c) ?T) = card {r \<in> set ?T. r_id r \<in> r_id ` set ?c}"
      by (metis distinct_card set_filter)
    also have "\<dots> \<le> card (set ?c)" using p by (intro card_mono) auto
    also have "\<dots> \<le> limit" using card_length [of ?c] by (simp add: removal_candidates_def)
    finally show ?thesis .
  qed
  have all: "outbox_events d = filter (\<lambda>e. o_aggregate_id e \<in> r_id ` set ?T) (outbox_events d)"
    using owner by (simp add: filter_id_conv)
  have "\<forall>r \<in> set ?T - set (notification_tasks (delete_tasks (map r_id ?c) d)). removable cutoff d r"
    using sub p by (auto simp: delete_tasks_def)
  then have rem': "\<forall>r \<in> set ?T - set (notification_tasks (delete_tasks (map r_id ?c) d)).
       (r_status r = StatusDelivered \<or> r_status r = StatusDead) \<and> r_updated_at r < cutoff \<and>
       (\<forall>e \<in> set (outbox_events d). o_aggregate_id e = r_id r \<longrightarrow> o_published_at e \<noteq> None)"
    by (simp add: removable_def terminal_def list_ex_iff)
  show ?thesis
  proof (cases "ft = Failed")
    case True
    then show ?thesis using assms all by (simp add: DeleteTerminalBefore_def)
  next
    case False
    have n: "int (length ?T) = int (length (filter (\<lambda>r. r_id r \<in> r_id ` set ?c) ?T)) +
        int (length (filter (\<lambda>r. r_id r \<notin> r_id ` set ?c) ?T))"
      using sum_length_filter_compl [of "\<lambda>r. r_id r \<in> r_id ` set ?c" ?T] by simp
    have D: "snd (DeleteTerminalBefore ft locked cutoff limit d) = delete_tasks (map r_id ?c) d"
      using False by (simp add: DeleteTerminalBefore_def Let_def)
    have "set (notification_tasks (delete_tasks (map r_id ?c) d)) \<subseteq> set ?T" by (auto simp: delete_tasks_def)
    moreover have "case fst (DeleteTerminalBefore ft locked cutoff limit d) of
        Inr n \<Rightarrow> int (length ?T) = n + int (length (notification_tasks (delete_tasks (map r_id ?c) d))) \<and> n \<le> int limit
      | Inl err \<Rightarrow> ft = Completed \<longrightarrow> False"
      using False n gone by (cases ft) (simp_all add: DeleteTerminalBefore_def delete_tasks_def count_where_def)
    ultimately show ?thesis
      using rem' ev delete_tasks_wf [OF assms, of "map r_id ?c"] D
      by (cases "DeleteTerminalBefore ft locked cutoff limit d") (simp del: set_map)
  qed
qed

lemma retention_safe_witness:
  "fst (DeleteTerminalBefore Completed (\<lambda>_. False) Minute 10 (sample_db StatusDelivered)) = Inr 1 \<and>
   snd (DeleteTerminalBefore Completed (\<lambda>_. False) Minute 10 (sample_db StatusDelivered)) = empty_db \<and> db_wf empty_db"
  using retention_safe [OF sample_db_wf, where ft = Completed and locked = "\<lambda>_. False" and cutoff = Minute and limit = 10,
      of StatusDelivered]
  by (simp add: DeleteTerminalBefore_def removal_candidates_def removable_def terminal_def sample_db_def delete_tasks_def
      count_where_def duration_units empty_db_def)

end
