(* ===== verification/Delivery.thy ===== *)
theory Delivery
  imports StoreInv
begin

text \<open>
  The delivery service \<open>internal/delivery/service.go\<close>. \<open>Handle\<close> takes what the Go
  service holds in fields as arguments: the repository's two operations, the sender, the
  capacity limiter, the jitter. \<open>between\<close> is what other sessions do to the database while
  the request is at the supplier, when no transaction is open. The Repository interface is
  the locale \<open>delivery_repository\<close>, interpreted on the PostgreSQL store.
\<close>

section \<open>Handle\<close>

record message =
  msg_EventID :: string
  msg_NotificationID :: string

datatype disposition = Ack | Requeue | Reject

record send_result =
  res_Outcome :: outcome
  res_HTTPStatus :: int
  res_ErrorCode :: string
  res_ErrorMessage :: string
  res_RetryAfter :: "time option"

text \<open>The \<open>AttemptResult\<close> that \<open>Handle\<close> builds from a result of the sender.\<close>

definition attempt_of ::
  "task \<Rightarrow> send_result \<Rightarrow> time \<Rightarrow> (duration \<Rightarrow> duration) option \<Rightarrow> attempt_result" where
  "attempt_of t result completed jitter =
     (let attempt = \<lparr>ar_Outcome = res_Outcome result, ar_HTTPStatus = res_HTTPStatus result,
            ar_ErrorCode = res_ErrorCode result, ar_ErrorMessage = res_ErrorMessage result,
            ar_NextAttemptAt = None, ar_CompletedAt = completed\<rparr>
      in if res_Outcome result = Retryable
         then (case NextAttempt (snap_Retry (task_Snapshot t)) (task_AttemptCount t) (res_RetryAfter result)
                      completed jitter of
                 Some nxt \<Rightarrow> attempt\<lparr>ar_NextAttemptAt := Some nxt\<rparr>
               | None \<Rightarrow> attempt\<lparr>ar_Outcome := Permanent\<rparr>)
         else attempt)"

definition observed_outcome :: "attempt_result \<Rightarrow> string" where
  "observed_outcome attempt =
     (if ar_Outcome attempt = Permanent then ''dead'' else outcome_string (ar_Outcome attempt))"

record 'db handled =
  hd_disposition :: disposition
  hd_sent :: "delivery_snapshot option"
  hd_observed :: "string option"
  hd_db :: 'db

definition Handle ::
  "(string \<Rightarrow> string \<Rightarrow> time \<Rightarrow> 'db \<Rightarrow> (error + claim) \<times> 'db) \<Rightarrow>
   (string \<Rightarrow> string \<Rightarrow> attempt_result \<Rightarrow> 'db \<Rightarrow> (error + bool) \<times> 'db) \<Rightarrow>
   (string \<Rightarrow> int \<Rightarrow> error option) \<Rightarrow> (delivery_snapshot \<Rightarrow> send_result) \<Rightarrow> (duration \<Rightarrow> duration) option \<Rightarrow>
   ('db \<Rightarrow> 'db) \<Rightarrow> duration \<Rightarrow> string \<Rightarrow> time \<Rightarrow> time \<Rightarrow> message \<Rightarrow> 'db \<Rightarrow> 'db handled" where
  "Handle claimDelivery applyResult acquire send jitter between leaseTTL lease now completed m d =
     (case claimDelivery (msg_NotificationID m) lease (Add now leaseTTL) d of
        (Inl _, d1) \<Rightarrow> \<lparr>hd_disposition = Requeue, hd_sent = None, hd_observed = None, hd_db = d1\<rparr>
      | (Inr None, d1) \<Rightarrow> \<lparr>hd_disposition = Ack, hd_sent = None, hd_observed = None, hd_db = d1\<rparr>
      | (Inr (Some t), d1) \<Rightarrow>
          (case acquire (snap_DestinationID (task_Snapshot t)) (snap_ConcurrencyLimit (task_Snapshot t)) of
             Some _ \<Rightarrow> \<lparr>hd_disposition = Requeue, hd_sent = None, hd_observed = None, hd_db = d1\<rparr>
           | None \<Rightarrow>
               let result = send (task_Snapshot t);
                   attempt = attempt_of t result completed jitter
               in (case applyResult (msg_NotificationID m) lease attempt (between d1) of
                     (Inl _, d2) \<Rightarrow>
                       \<lparr>hd_disposition = Requeue, hd_sent = Some (task_Snapshot t), hd_observed = None, hd_db = d2\<rparr>
                   | (Inr False, d2) \<Rightarrow>
                       \<lparr>hd_disposition = Ack, hd_sent = Some (task_Snapshot t), hd_observed = None, hd_db = d2\<rparr>
                   | (Inr True, d2) \<Rightarrow>
                       \<lparr>hd_disposition = Ack, hd_sent = Some (task_Snapshot t),
                        hd_observed = Some (observed_outcome attempt), hd_db = d2\<rparr>)))"

lemma attempt_of_ok: "result_ok (attempt_of t result completed jitter)"
  by (auto simp: attempt_of_def result_ok_def Let_def split: option.splits)

lemma attempt_of_outcome:
  "ar_Outcome (attempt_of t result completed jitter) =
     (if res_Outcome result = Retryable \<and>
         NextAttempt (snap_Retry (task_Snapshot t)) (task_AttemptCount t) (res_RetryAfter result) completed jitter = None
      then Permanent else res_Outcome result)"
  by (auto simp: attempt_of_def Let_def split: option.splits)

lemma Handle_never_rejects: "hd_disposition (Handle c a acq snd' j b ttl l now cpl m d) \<noteq> Reject"
  by (auto simp: Handle_def Let_def split: prod.splits sum.splits option.splits bool.splits)

section \<open>The Repository interface\<close>

definition outcome_status :: "outcome \<Rightarrow> status" where
  "outcome_status oc =
     (case oc of Delivered \<Rightarrow> StatusDelivered | Retryable \<Rightarrow> StatusRetryWait | Permanent \<Rightarrow> StatusDead)"

text \<open>
  \<open>view d i\<close> is the status and the lease of task \<open>i\<close> in state \<open>d\<close>, \<open>inv\<close> the
  invariant of the repository. A claim is granted exactly on a pending task and gives it to
  the claimant; a result is applied only for the holder of the lease.
\<close>

locale delivery_repository =
  fixes claim :: "string \<Rightarrow> string \<Rightarrow> time \<Rightarrow> 'db \<Rightarrow> (error + claim) \<times> 'db"
    and apply_result :: "string \<Rightarrow> string \<Rightarrow> attempt_result \<Rightarrow> 'db \<Rightarrow> (error + bool) \<times> 'db"
    and view :: "'db \<Rightarrow> string \<Rightarrow> (status \<times> string option) option"
    and inv :: "'db \<Rightarrow> bool"
  assumes claim_inv: "inv d \<Longrightarrow> inv (snd (claim i l u d))"
    and claim_granted: "inv d \<Longrightarrow> claim i l u d = (Inr (Some t), d') \<Longrightarrow>
        map_option fst (view d i) = Some StatusPending \<and> view d' i = Some (StatusDelivering, Some l)"
    and claim_refused: "inv d \<Longrightarrow> claim i l u d = (Inr None, d') \<Longrightarrow>
        d' = d \<and> map_option fst (view d i) \<noteq> Some StatusPending"
    and apply_inv: "inv d \<Longrightarrow> result_ok a \<Longrightarrow> inv (snd (apply_result i l a d))"
    and apply_done: "inv d \<Longrightarrow> apply_result i l a d = (Inr True, d') \<Longrightarrow>
        view d i = Some (StatusDelivering, Some l) \<and> view d' i = Some (outcome_status (ar_Outcome a), None)"
    and apply_refused: "inv d \<Longrightarrow> view d i \<noteq> Some (StatusDelivering, Some l) \<Longrightarrow> snd (apply_result i l a d) = d"
begin

lemma handle_db:
  defines "d1 \<equiv> \<lambda>m l now ttl d. snd (claim (msg_NotificationID m) l (Add now ttl) d)"
  shows "hd_db (Handle claim apply_result acquire send j between ttl l now cpl m d) = d1 m l now ttl d \<or>
    (\<exists>t r. hd_db (Handle claim apply_result acquire send j between ttl l now cpl m d) =
       snd (apply_result (msg_NotificationID m) l (attempt_of t r cpl j) (between (d1 m l now ttl d))))"
proof (cases "claim (msg_NotificationID m) l (Add now ttl) d")
  case (Pair res c1)
  show ?thesis
  proof (cases "\<exists>t. res = Inr (Some t) \<and>
      acquire (snap_DestinationID (task_Snapshot t)) (snap_ConcurrencyLimit (task_Snapshot t)) = None")
    case True
    then obtain t where t: "res = Inr (Some t)"
        "acquire (snap_DestinationID (task_Snapshot t)) (snap_ConcurrencyLimit (task_Snapshot t)) = None" by blast
    then have "hd_db (Handle claim apply_result acquire send j between ttl l now cpl m d) =
        snd (apply_result (msg_NotificationID m) l (attempt_of t (send (task_Snapshot t)) cpl j) (between c1))"
      using Pair by (simp add: Handle_def Let_def split: prod.splits sum.splits bool.splits)
    then show ?thesis using Pair by (auto simp: d1_def)
  next
    case False
    then show ?thesis using Pair by (auto simp: Handle_def d1_def split: sum.splits option.splits)
  qed
qed

lemma handle_inv:
  assumes "inv d" "\<And>x. inv x \<Longrightarrow> inv (between x)"
  shows "inv (hd_db (Handle claim apply_result acquire send j between ttl l now cpl m d))"
  using handle_db [of acquire send j between ttl l now cpl m d] claim_inv apply_inv attempt_of_ok assms by metis

lemma handle_sends_pending:
  assumes "inv d" "hd_sent (Handle claim apply_result acquire send j between ttl l now cpl m d) \<noteq> None"
  shows "map_option fst (view d (msg_NotificationID m)) = Some StatusPending"
  using assms
  by (auto simp: Handle_def Let_def split: prod.splits sum.splits option.splits bool.splits
      dest!: claim_granted)

lemma handle_duplicate:
  assumes "inv d" "map_option fst (view d (msg_NotificationID m)) \<noteq> Some StatusPending"
    and "\<And>e d'. claim (msg_NotificationID m) l (Add now ttl) d \<noteq> (Inl e, d')"
  shows "Handle claim apply_result acquire send j between ttl l now cpl m d =
    \<lparr>hd_disposition = Ack, hd_sent = None, hd_observed = None, hd_db = d\<rparr>"
  using assms claim_granted claim_refused
  by (fastforce simp: Handle_def Let_def split: prod.splits sum.splits option.splits bool.splits)

lemma handle_observed:
  assumes inv: "inv d" "\<And>x. inv x \<Longrightarrow> inv (between x)"
    and h: "Handle claim apply_result acquire send j between ttl l now cpl m d = h" "hd_observed h = Some outc"
  shows "\<exists>s. view (hd_db h) (msg_NotificationID m) = Some (s, None) \<and> hd_disposition h = Ack \<and> hd_sent h \<noteq> None \<and>
    outc = (if s = StatusDelivered then ''delivered'' else if s = StatusRetryWait then ''retryable'' else ''dead'')"
proof -
  from h obtain t d1 d2 r where c: "claim (msg_NotificationID m) l (Add now ttl) d = (Inr (Some t), d1)"
    and a: "apply_result (msg_NotificationID m) l (attempt_of t r cpl j) (between d1) = (Inr True, d2)"
    and o: "outc = observed_outcome (attempt_of t r cpl j)" "hd_db h = d2" "hd_disposition h = Ack" "hd_sent h \<noteq> None"
    by (auto simp: Handle_def Let_def split: prod.splits sum.splits option.splits bool.splits)
  have "inv (between d1)" using inv claim_inv [OF inv(1)] c by (metis snd_conv)
  from apply_done [OF this a] o show ?thesis
    by (cases "ar_Outcome (attempt_of t r cpl j)") (auto simp: outcome_status_def observed_outcome_def)
qed

text \<open>A worker that lost its lease during the request changes nothing.\<close>

lemma handle_stale:
  assumes inv: "inv d" "\<And>x. inv x \<Longrightarrow> inv (between x)"
    and c: "claim (msg_NotificationID m) l (Add now ttl) d = (Inr (Some t), d1)"
    and lost: "view (between d1) (msg_NotificationID m) \<noteq> Some (StatusDelivering, Some l)"
    and cap: "\<And>i n. acquire i n = None"
  shows "hd_db (Handle claim apply_result acquire send j between ttl l now cpl m d) = between d1 \<and>
         hd_observed (Handle claim apply_result acquire send j between ttl l now cpl m d) = None"
proof -
  have i: "inv (between d1)" using inv claim_inv [OF inv(1)] c by (metis snd_conv)
  have "snd (apply_result (msg_NotificationID m) l (attempt_of t (send (task_Snapshot t)) cpl j) (between d1)) = between d1"
    by (rule apply_refused [OF i lost])
  moreover have "fst (apply_result (msg_NotificationID m) l (attempt_of t (send (task_Snapshot t)) cpl j) (between d1)) \<noteq> Inr True"
    using apply_done [OF i] lost by (metis prod.collapse)
  ultimately show ?thesis using c cap
    by (auto simp: Handle_def Let_def split: prod.splits sum.splits option.splits bool.splits)
qed

end

section \<open>The store provides the interface\<close>

definition lease_view :: "db \<Rightarrow> string \<Rightarrow> (status \<times> string option) option" where
  "lease_view d i = map_option (\<lambda>r. (r_status r, r_lease_token r)) (task_of d i)"

lemma claim_row_sel [simp]:
  "r_id (claim_row l u n r) = r_id r" "r_status (claim_row l u n r) = StatusDelivering"
  "r_lease_token (claim_row l u n r) = Some l" "r_attempt_count (claim_row l u n r) = r_attempt_count r + 1"
  by (simp_all add: claim_row_def)

lemma result_row_sel [simp]:
  "r_id (result_row a r) = r_id r" "r_status (result_row a r) = outcome_status (ar_Outcome a)"
  "r_lease_token (result_row a r) = None" "r_attempt_count (result_row a r) = r_attempt_count r"
  by (simp_all add: result_row_def outcome_status_def)

lemma ClaimDelivery_granted:
  assumes wf: "db_wf d" and c: "ClaimDelivery ft dbnow i l u d = (Inr (Some t), d')"
  obtains r where "task_of d i = Some r" "r_status r = StatusPending" "ft = Completed"
    "task_of d' i = Some (claim_row l u dbnow r)" "scan_claim l u (claim_row l u dbnow r) = Inr t"
    "d' = d\<lparr>notification_tasks := update_where (\<lambda>r. r_id r = i \<and> r_status r = StatusPending) (claim_row l u dbnow) (notification_tasks d)\<rparr>"
proof -
  let ?p = "\<lambda>r. r_id r = i \<and> r_status r = StatusPending"
  have f: "filter ?p (notification_tasks d) =
      (case task_of d i of None \<Rightarrow> [] | Some r \<Rightarrow> if r_status r = StatusPending then [r] else [])"
    by (rule filter_key_lookup [OF db_wf_ids [OF wf]])
  from c obtain q qs where q: "map (claim_row l u dbnow) (filter ?p (notification_tasks d)) = q # qs"
    and s: "scan_claim l u q = Inr t" and ft: "ft = Completed"
    and d': "d' = d\<lparr>notification_tasks := update_where ?p (claim_row l u dbnow) (notification_tasks d)\<rparr>"
    by (cases ft) (auto simp: ClaimDelivery_def sql_update_def split: if_splits list.splits sum.splits)
  from q f obtain r where r: "task_of d i = Some r" "r_status r = StatusPending" "q = claim_row l u dbnow r"
    by (auto split: option.splits if_splits)
  then have "task_of d' i = Some (claim_row l u dbnow r)"
    by (auto simp: d' lookup_by_update_where dest: lookup_by_SomeD)
  with r s ft d' show thesis by (intro that [of r]) auto
qed

lemma ClaimDelivery_refused:
  assumes wf: "db_wf d" and c: "ClaimDelivery ft dbnow i l u d = (Inr None, d')"
  shows "d' = d \<and> (\<forall>r. task_of d i = Some r \<longrightarrow> r_status r \<noteq> StatusPending)"
proof -
  let ?p = "\<lambda>r. r_id r = i \<and> r_status r = StatusPending"
  have "fst (sql_update ft task_row_ok ?p (claim_row l u dbnow) (notification_tasks d)) = Inr []"
    using c by (auto simp: ClaimDelivery_def split: prod.splits sum.splits list.splits)
  then have "filter ?p (notification_tasks d) = []" by (simp add: sql_update_ok)
  then have none: "\<And>r. r \<in> set (notification_tasks d) \<Longrightarrow> \<not> ?p r" by (auto simp: filter_empty_conv)
  have "d' = snd (ClaimDelivery ft dbnow i l u d)" using c by simp
  also have "\<dots> = d" unfolding ClaimDelivery_db by (subst sql_update_none [OF none]) auto
  finally show ?thesis using none by (auto dest: lookup_by_SomeD)
qed

lemma owner_filter:
  assumes "db_wf d"
  shows "filter (\<lambda>r. r_id r = i \<and> r_status r = StatusDelivering \<and> r_lease_token r = Some l) (notification_tasks d) =
    (case task_of d i of None \<Rightarrow> []
     | Some r \<Rightarrow> if r_status r = StatusDelivering \<and> r_lease_token r = Some l then [r] else [])"
  by (rule filter_key_lookup [OF db_wf_ids [OF assms]])

lemma ApplyDeliveryResult_done:
  assumes wf: "db_wf d" and c: "ApplyDeliveryResult ft i l a d = (Inr True, d')"
  obtains r where "task_of d i = Some r" "r_status r = StatusDelivering" "r_lease_token r = Some l"
    "task_of d' i = Some (result_row a r)"
    "d' = d\<lparr>notification_tasks := update_where (\<lambda>r. r_id r = i \<and> r_status r = StatusDelivering \<and> r_lease_token r = Some l)
         (result_row a) (notification_tasks d)\<rparr>"
proof -
  let ?p = "\<lambda>r. r_id r = i \<and> r_status r = StatusDelivering \<and> r_lease_token r = Some l"
  from c have "length (filter ?p (notification_tasks d)) = 1"
    and d': "d' = d\<lparr>notification_tasks := update_where ?p (result_row a) (notification_tasks d)\<rparr>"
    by (cases ft; auto simp: ApplyDeliveryResult_def sql_update_def split: if_splits)+
  then obtain r where r: "task_of d i = Some r" "r_status r = StatusDelivering" "r_lease_token r = Some l"
    unfolding owner_filter [OF wf] by (auto split: option.splits if_splits)
  then have "task_of d' i = Some (result_row a r)"
    by (auto simp: d' lookup_by_update_where dest: lookup_by_SomeD)
  with r d' show thesis by (intro that [of r]) auto
qed

lemma ApplyDeliveryResult_refused:
  assumes wf: "db_wf d" and v: "lease_view d i \<noteq> Some (StatusDelivering, Some l)"
  shows "snd (ApplyDeliveryResult ft i l a d) = d"
proof -
  have "\<not> (r_id r = i \<and> r_status r = StatusDelivering \<and> r_lease_token r = Some l)"
    if "r \<in> set (notification_tasks d)" for r
    using that v lookup_by_eqI [OF db_wf_ids [OF wf] that] by (auto simp: lease_view_def)
  then show ?thesis unfolding ApplyDeliveryResult_db by (subst sql_update_none) auto
qed

interpretation pg_delivery: delivery_repository "ClaimDelivery ft dbnow" "ApplyDeliveryResult ft'" lease_view db_wf
  for ft dbnow ft'
proof unfold_locales
  fix d i l u t d' a
  assume wf: "db_wf d"
  show "db_wf (snd (ClaimDelivery ft dbnow i l u d))" using wf by (rule ClaimDelivery_wf)
  show "map_option fst (lease_view d i) = Some StatusPending \<and> lease_view d' i = Some (StatusDelivering, Some l)"
    if "ClaimDelivery ft dbnow i l u d = (Inr (Some t), d')"
    by (rule ClaimDelivery_granted [OF wf that]) (simp add: lease_view_def)
  show "d' = d \<and> map_option fst (lease_view d i) \<noteq> Some StatusPending"
    if "ClaimDelivery ft dbnow i l u d = (Inr None, d')"
    using ClaimDelivery_refused [OF wf that] by (auto simp: lease_view_def)
  show "db_wf (snd (ApplyDeliveryResult ft' i l a d))" if "result_ok a"
    using wf that by (rule ApplyDeliveryResult_wf)
  show "lease_view d i = Some (StatusDelivering, Some l) \<and> lease_view d' i = Some (outcome_status (ar_Outcome a), None)"
    if "ApplyDeliveryResult ft' i l a d = (Inr True, d')"
    by (rule ApplyDeliveryResult_done [OF wf that]) (simp add: lease_view_def)
  show "snd (ApplyDeliveryResult ft' i l a d) = d" if "lease_view d i \<noteq> Some (StatusDelivering, Some l)"
    using wf that by (rule ApplyDeliveryResult_refused)
qed

section \<open>Guarantees\<close>

lemma ClaimDelivery_twice:
  assumes wf: "db_wf d" and r: "task_of d i = Some r" "r_status r \<noteq> StatusPending"
  shows "snd (ClaimDelivery ft n i l u d) = d" and "fst (ClaimDelivery ft n i l u d) \<noteq> Inr (Some t)"
proof -
  have "\<not> (r_id q = i \<and> r_status q = StatusPending)" if "q \<in> set (notification_tasks d)" for q
    using that r lookup_by_eqI [OF db_wf_ids [OF wf] that] by auto
  then show "snd (ClaimDelivery ft n i l u d) = d"
    unfolding ClaimDelivery_db by (subst sql_update_none) auto
  show "fst (ClaimDelivery ft n i l u d) \<noteq> Inr (Some t)"
  proof
    assume "fst (ClaimDelivery ft n i l u d) = Inr (Some t)"
    then have "ClaimDelivery ft n i l u d = (Inr (Some t), snd (ClaimDelivery ft n i l u d))" by (metis prod.collapse)
    from ClaimDelivery_granted [OF wf this] r show False by force
  qed
qed

text \<open>
  C6. A delivery claim is exclusive: it is granted on a pending task only, counts the
  attempt, records the new lease, and from then on no other worker can claim the task, under
  any lease, until something makes it pending again.
\<close>

theorem claim_delivery_exclusive:
  assumes "db_wf d" "ClaimDelivery ft dbnow i l u d = (Inr (Some t), d')"
  shows "db_wf d' \<and>
    (\<exists>r. task_of d i = Some r \<and> r_status r = StatusPending \<and> task_of d' i = Some (claim_row l u dbnow r) \<and>
         task_AttemptCount t = r_attempt_count r + 1) \<and>
    (\<forall>ft2 n2 l2 u2 t2. snd (ClaimDelivery ft2 n2 i l2 u2 d') = d' \<and> fst (ClaimDelivery ft2 n2 i l2 u2 d') \<noteq> Inr (Some t2))"
proof -
  obtain r where r: "task_of d i = Some r" "r_status r = StatusPending" "task_of d' i = Some (claim_row l u dbnow r)"
    "scan_claim l u (claim_row l u dbnow r) = Inr t"
    using ClaimDelivery_granted [OF assms] by metis
  have wf: "db_wf d'" using ClaimDelivery_wf [OF assms(1), of ft dbnow i l u] assms(2) by simp
  have "task_AttemptCount t = r_attempt_count r + 1"
    using r(4) by (auto simp: scan_claim_def zero_task_def split: option.splits)
  moreover have "r_status (claim_row l u dbnow r) \<noteq> StatusPending" by simp
  ultimately show ?thesis using wf r ClaimDelivery_twice [OF wf r(3)] by blast
qed

text \<open>
  C7. A delivery result is applied exactly for the holder of the lease: on a task that is
  being delivered under that lease it sets the status the outcome asks for and drops the
  lease; for anyone else (a lease that expired and was recovered, a result applied already)
  it reports so and changes nothing.
\<close>

theorem delivery_result_owner:
  assumes "db_wf d" "result_ok result"
  shows "case ApplyDeliveryResult ft i l result d of (res, d') \<Rightarrow>
    db_wf d' \<and>
    (case res of
       Inr True \<Rightarrow> lease_view d i = Some (StatusDelivering, Some l) \<and>
         lease_view d' i = Some (outcome_status (ar_Outcome result), None) \<and>
         (\<forall>j. j \<noteq> i \<longrightarrow> task_of d' j = task_of d j) \<and> outbox_events d' = outbox_events d
     | Inr False \<Rightarrow> lease_view d i \<noteq> Some (StatusDelivering, Some l) \<and> d' = d
     | Inl err \<Rightarrow> lease_view d i \<noteq> Some (StatusDelivering, Some l) \<longrightarrow> d' = d)"
proof -
  obtain res d' where c: "ApplyDeliveryResult ft i l result d = (res, d')" by fastforce
  have wf: "db_wf d'" using ApplyDeliveryResult_wf [OF assms, of ft i l] c by simp
  have refused: "lease_view d i \<noteq> Some (StatusDelivering, Some l) \<Longrightarrow> d' = d"
    using ApplyDeliveryResult_refused [OF assms(1), of i l ft result] c by simp
  show ?thesis
  proof (cases res)
    case (Inl err)
    then show ?thesis using wf refused by (simp add: c)
  next
    case (Inr applied)
    show ?thesis
    proof (cases applied)
      case True
      with Inr c have c': "ApplyDeliveryResult ft i l result d = (Inr True, d')" by simp
      obtain r where r: "task_of d i = Some r" "r_status r = StatusDelivering" "r_lease_token r = Some l"
        "task_of d' i = Some (result_row result r)"
        and d': "d' = d\<lparr>notification_tasks := update_where (\<lambda>r. r_id r = i \<and> r_status r = StatusDelivering \<and> r_lease_token r = Some l)
              (result_row result) (notification_tasks d)\<rparr>"
        by (rule ApplyDeliveryResult_done [OF assms(1) c'])
      have "task_of d' j = task_of d j" if "j \<noteq> i" for j
        using that lookup_by_update_where [of r_id "result_row result" "\<lambda>r. r_id r = i \<and> r_status r = StatusDelivering \<and> r_lease_token r = Some l" "notification_tasks d" j]
        by (cases "task_of d j") (auto simp: d' dest: lookup_by_SomeD)
      with r True Inr wf d' show ?thesis by (simp add: c lease_view_def)
    next
      case False
      with Inr c have "length (filter (\<lambda>r. r_id r = i \<and> r_status r = StatusDelivering \<and> r_lease_token r = Some l) (notification_tasks d)) \<noteq> 1"
        by (cases ft) (auto simp: ApplyDeliveryResult_def sql_update_def split: if_splits)
      then have "lease_view d i \<noteq> Some (StatusDelivering, Some l)"
        unfolding owner_filter [OF assms(1)] by (auto simp: lease_view_def split: option.splits if_splits)
      with refused False Inr wf show ?thesis by (simp add: c)
    qed
  qed
qed

text \<open>
  A handled message sends at most what is pending and reports what is stored: the
  supplier is called only if the task was pending when the message came; the message is never
  rejected; and when an outcome is reported to the observer, the request was sent, the message
  is acknowledged, and the stored task has that outcome and no lease.
\<close>

theorem handle_reports_stored:
  fixes send :: "delivery_snapshot \<Rightarrow> send_result"
  assumes "db_wf d" "\<And>x. db_wf x \<Longrightarrow> db_wf (between x)"
    and "h = Handle (ClaimDelivery ft dbnow) (ApplyDeliveryResult ft') acquire send j between ttl l now cpl m d"
  shows "db_wf (hd_db h) \<and> hd_disposition h \<noteq> Reject \<and>
    (hd_sent h \<noteq> None \<longrightarrow> map_option fst (lease_view d (msg_NotificationID m)) = Some StatusPending) \<and>
    (case hd_observed h of None \<Rightarrow> True
     | Some outc \<Rightarrow> hd_sent h \<noteq> None \<and> hd_disposition h = Ack \<and>
         (\<exists>s. lease_view (hd_db h) (msg_NotificationID m) = Some (s, None) \<and>
              outc = (if s = StatusDelivered then ''delivered'' else if s = StatusRetryWait then ''retryable'' else ''dead'')))"
proof -
  have "db_wf (hd_db h)" unfolding assms(3) by (rule pg_delivery.handle_inv [OF assms(1,2)])
  moreover have "hd_disposition h \<noteq> Reject" unfolding assms(3) by (rule Handle_never_rejects)
  moreover have "hd_sent h \<noteq> None \<longrightarrow> map_option fst (lease_view d (msg_NotificationID m)) = Some StatusPending"
    unfolding assms(3) using pg_delivery.handle_sends_pending [OF assms(1)] by blast
  moreover note pg_delivery.handle_observed [OF assms(1,2) assms(3) [symmetric]]
  ultimately show ?thesis by (cases "hd_observed h") (simp_all only: option.case simp_thms, blast)
qed

text \<open>
  Duplicated messages are harmless: for a task that is not pending (unknown, being
  delivered, waiting, delivered or dead), a message whose claim reaches the database is
  acknowledged without a request to the supplier and without a change to the database.
\<close>

theorem handle_duplicate_ignored:
  assumes "db_wf d" "map_option r_status (task_of d (msg_NotificationID m)) \<noteq> Some StatusPending"
  shows "Handle (ClaimDelivery Completed dbnow) apply acquire send j between ttl l now cpl m d =
    \<lparr>hd_disposition = Ack, hd_sent = None, hd_observed = None, hd_db = d\<rparr>"
proof -
  have "\<not> (r_id r = msg_NotificationID m \<and> r_status r = StatusPending)" if "r \<in> set (notification_tasks d)" for r
    using that assms(2) lookup_by_eqI [OF db_wf_ids [OF assms(1)] that] by auto
  then have "ClaimDelivery Completed dbnow (msg_NotificationID m) l (Add now ttl) d = (Inr None, d)"
    by (simp add: ClaimDelivery_def sql_update_def filter_False update_where_none list_all_iff)
  then show ?thesis by (simp add: Handle_def)
qed

text \<open>
  A worker whose lease was taken over while its request was at the supplier changes
  nothing when it returns: the state other sessions left stays as it is, and no outcome is
  reported.
\<close>

theorem handle_stale_lease:
  assumes "db_wf d" "\<And>x. db_wf x \<Longrightarrow> db_wf (between x)"
    and "ClaimDelivery ft dbnow (msg_NotificationID m) l (Add now ttl) d = (Inr (Some t), d1)"
    and "lease_view (between d1) (msg_NotificationID m) \<noteq> Some (StatusDelivering, Some l)"
    and "h = Handle (ClaimDelivery ft dbnow) (ApplyDeliveryResult ft') (\<lambda>i n. None) send j between ttl l now cpl m d"
  shows "hd_db h = between d1 \<and> hd_observed h = None \<and> hd_sent h = Some (task_Snapshot t)"
proof -
  have "hd_sent h = Some (task_Snapshot t)"
    using assms(3) by (auto simp: assms(5) Handle_def Let_def split: prod.splits sum.splits bool.splits)
  then show ?thesis
    using pg_delivery.handle_stale [where between = between and acquire = "\<lambda>i n. None", OF assms(1-4)]
    unfolding assms(5) by blast
qed

section \<open>Witnesses\<close>

text \<open>A worker that finds the sample task pending, and a supplier that answers 200.\<close>

definition sample_message :: message where
  "sample_message = \<lparr>msg_EventID = ''e1'', msg_NotificationID = ''n1''\<rparr>"

definition answer_ok :: "delivery_snapshot \<Rightarrow> send_result" where
  "answer_ok s = \<lparr>res_Outcome = Delivered, res_HTTPStatus = 200, res_ErrorCode = [], res_ErrorMessage = [], res_RetryAfter = None\<rparr>"

definition claimed_db :: db where
  "claimed_db = \<lparr>notification_tasks = [claim_row ''lease1'' Minute Second (sample_row StatusPending)],
                 outbox_events = [sample_event None None]\<rparr>"

lemma sample_claim:
  "\<exists>t. ClaimDelivery Completed Second ''n1'' ''lease1'' Minute (fresh_db None) = (Inr (Some t), claimed_db) \<and>
     task_AttemptCount t = 2"
proof -
  have "pg_text ''lease1''" by (rule ascii_pg_text) (simp_all add: ascii_def)
  then have ok: "task_row_ok (claim_row ''lease1'' Minute Second (sample_row StatusPending))"
    using sample_row_ok [of StatusPending] by (simp add: task_row_ok_def claim_row_def int4_def)
  have u: "unmarshal_header (marshal_header [(''Content-Type'', [''application/json''])]) = Some [(''Content-Type'', [''application/json''])]"
    "unmarshal_strmap (marshal_strmap [(''Authorization'', ''CRM_TOKEN'')]) = Some [(''Authorization'', ''CRM_TOKEN'')]"
    "unmarshal_delays (marshal_delays [5 * Second, 30 * Second]) = Some [5 * Second, 30 * Second]"
    by (rule header_roundtrip strmap_roundtrip delays_roundtrip; simp add: int64_def duration_units)+
  have "\<exists>t. scan_claim ''lease1'' Minute (claim_row ''lease1'' Minute Second (sample_row StatusPending)) = Inr t \<and>
      task_AttemptCount t = 2"
    by (simp add: scan_claim_def claim_row_def) (simp add: sample_row_def u zero_task_def)
  then show ?thesis
    using ok by (auto simp: ClaimDelivery_def sql_update_def fresh_db_def update_where_def claimed_db_def)
qed

lemma claim_delivery_exclusive_witness:
  "fst (ClaimDelivery Completed Second ''n1'' ''lease2'' Minute claimed_db) \<noteq> Inr (Some sample_task) \<and>
   snd (ClaimDelivery Completed Second ''n1'' ''lease2'' Minute claimed_db) = claimed_db \<and> db_wf claimed_db"
proof -
  obtain t where c: "ClaimDelivery Completed Second ''n1'' ''lease1'' Minute (fresh_db None) = (Inr (Some t), claimed_db)"
    using sample_claim by blast
  show ?thesis using claim_delivery_exclusive [OF fresh_db_wf c] by blast
qed

definition sample_result :: attempt_result where
  "sample_result = \<lparr>ar_Outcome = Delivered, ar_HTTPStatus = 200, ar_ErrorCode = [], ar_ErrorMessage = [],
                    ar_NextAttemptAt = None, ar_CompletedAt = 2 * Second\<rparr>"

lemma sample_result_row_ok: "task_row_ok (result_row sample_result (sample_row StatusDelivering))"
  using sample_row_ok [of StatusDelivering]
  by (simp add: task_row_ok_def result_row_def sample_result_def NULLIF_def int4_def opt_text_def)

lemma delivery_result_owner_witness:
  "lease_view (snd (ApplyDeliveryResult Completed ''n1'' ''lease1'' sample_result (sample_db StatusDelivering))) ''n1'' =
     Some (StatusDelivered, None)"
proof -
  have "fst (ApplyDeliveryResult Completed ''n1'' ''lease1'' sample_result (sample_db StatusDelivering)) = Inr True"
    by (simp add: ApplyDeliveryResult_def sql_update_def sample_db_def sample_result_row_ok)
  then show ?thesis
    using delivery_result_owner [OF sample_db_wf [of StatusDelivering], where ft = Completed and i = "''n1''" and
        l = "''lease1''" and result = sample_result]
    by (auto simp: result_ok_def sample_result_def outcome_status_def)
qed

lemma handle_reports_stored_witness:
  "hd_observed (Handle (ClaimDelivery Completed Second) (ApplyDeliveryResult Completed) (\<lambda>i n. None) answer_ok None (\<lambda>x. x)
     Minute ''lease1'' 0 (2 * Second) sample_message (fresh_db None)) = Some ''delivered'' \<and>
   map_option fst (lease_view (fresh_db None) ''n1'') = Some StatusPending"
proof -
  let ?h = "Handle (ClaimDelivery Completed Second) (ApplyDeliveryResult Completed) (\<lambda>i n. None) answer_ok None (\<lambda>x. x)
     Minute ''lease1'' 0 (2 * Second) sample_message (fresh_db None)"
  obtain t where c: "ClaimDelivery Completed Second ''n1'' ''lease1'' Minute (fresh_db None) = (Inr (Some t), claimed_db)"
    using sample_claim by blast
  have "task_row_ok (result_row sample_result (claim_row ''lease1'' Minute Second (sample_row StatusPending)))"
    using sample_row_ok [of StatusPending]
    by (simp add: task_row_ok_def result_row_def claim_row_def sample_result_def NULLIF_def int4_def opt_text_def)
  then have "fst (ApplyDeliveryResult Completed ''n1'' ''lease1'' sample_result claimed_db) = Inr True"
    by (simp add: ApplyDeliveryResult_def sql_update_def claimed_db_def)
  then obtain d2 where "ApplyDeliveryResult Completed ''n1'' ''lease1'' sample_result claimed_db = (Inr True, d2)"
    by (metis prod.collapse)
  moreover have "attempt_of t (answer_ok s) (2 * Second) None = sample_result" for s
    by (simp add: attempt_of_def answer_ok_def sample_result_def Let_def)
  ultimately have o: "hd_observed ?h = Some ''delivered''" "hd_sent ?h \<noteq> None"
    using c by (simp_all add: Handle_def sample_message_def Add_def Let_def)
      (simp add: observed_outcome_def sample_result_def)
  with handle_reports_stored [OF fresh_db_wf, where between = "\<lambda>x. x" and h = ?h, OF _ _ refl]
  show ?thesis by (auto simp: sample_message_def)
qed

lemma handle_duplicate_ignored_witness:
  "Handle (ClaimDelivery Completed Second) (ApplyDeliveryResult Completed) (\<lambda>i n. None) answer_ok None (\<lambda>x. x)
     Minute ''lease2'' 0 (2 * Second) sample_message claimed_db =
   \<lparr>hd_disposition = Ack, hd_sent = None, hd_observed = None, hd_db = claimed_db\<rparr>"
proof (rule handle_duplicate_ignored)
  obtain t where "ClaimDelivery Completed Second ''n1'' ''lease1'' Minute (fresh_db None) = (Inr (Some t), claimed_db)"
    using sample_claim by blast
  then show "db_wf claimed_db"
    using ClaimDelivery_wf [OF fresh_db_wf, of None Completed Second "''n1''" "''lease1''" Minute] by simp
qed (simp add: claimed_db_def sample_message_def)

lemma handle_stale_lease_witness:
  "hd_db (Handle (ClaimDelivery Completed Second) (ApplyDeliveryResult Completed) (\<lambda>i n. None) answer_ok None
     (\<lambda>_. sample_db StatusPending) Minute ''lease1'' 0 (2 * Second) sample_message (fresh_db None)) = sample_db StatusPending"
proof -
  obtain t where "ClaimDelivery Completed Second ''n1'' ''lease1'' Minute (fresh_db None) = (Inr (Some t), claimed_db)"
    using sample_claim by blast
  then have c: "ClaimDelivery Completed Second (msg_NotificationID sample_message) ''lease1'' (Add 0 Minute) (fresh_db None) =
      (Inr (Some t), claimed_db)"
    by (simp add: sample_message_def Add_def)
  have "lease_view (sample_db StatusPending) (msg_NotificationID sample_message) \<noteq> Some (StatusDelivering, Some ''lease1'')"
    by (simp add: lease_view_def sample_db_def sample_message_def)
  from handle_stale_lease [where between = "\<lambda>_. sample_db StatusPending" and t = t and ft' = Completed and
      send = answer_ok and j = None and cpl = "2 * Second", OF fresh_db_wf sample_db_wf c this refl]
  show ?thesis by (rule conjunct1) simp
qed

end
