(* ===== verification/Evolve.thy ===== *)
theory Evolve
  imports StoreSched Delivery
begin

text \<open>
  How a task may change between two states of the database. \<open>row_step R\<close> is the abstract
  specification of a task's life: its snapshot never changes, its status moves along the
  transitions the store performs, its generation grows by one exactly when it becomes pending
  again, an attempt is counted exactly when it is claimed, it becomes pending again only with
  attempts left, and it leaves the dead state only when it is one of the replayed tasks \<open>R\<close>.
  Every operation of the store refines it.
\<close>

definition same_snapshot :: "task_row \<Rightarrow> task_row \<Rightarrow> bool" where
  "same_snapshot r r' \<longleftrightarrow>
     r_id r' = r_id r \<and> r_caller_id r' = r_caller_id r \<and> r_idempotency_key r' = r_idempotency_key r \<and>
     r_request_hash r' = r_request_hash r \<and> r_destination_id r' = r_destination_id r \<and>
     r_method r' = r_method r \<and> r_url r' = r_url r \<and> r_static_headers r' = r_static_headers r \<and>
     r_secret_headers r' = r_secret_headers r \<and> r_body r' = r_body r \<and>
     r_timeout_ns r' = r_timeout_ns r \<and> r_max_attempts r' = r_max_attempts r \<and>
     r_lifetime_ns r' = r_lifetime_ns r \<and> r_retry_delays_ns r' = r_retry_delays_ns r \<and>
     r_concurrency_limit r' = r_concurrency_limit r \<and> r_created_at r' = r_created_at r"

text \<open>The transition table of \<open>state.go\<close>, and the recovery of an expired lease.\<close>

definition store_transition :: "status \<Rightarrow> status \<Rightarrow> bool" where
  "store_transition s t \<longleftrightarrow> CanTransition s t \<or> s = StatusDelivering \<and> t = StatusPending"

definition row_step :: "string set \<Rightarrow> task_row \<Rightarrow> task_row \<Rightarrow> bool" where
  "row_step R r r' \<longleftrightarrow>
     same_snapshot r r' \<and>
     (r_status r' = r_status r \<and> r_generation r' = r_generation r \<or>
      store_transition (r_status r) (r_status r') \<and>
      r_generation r' = r_generation r + (if r_status r' = StatusPending then 1 else 0)) \<and>
     r_attempt_count r' =
       r_attempt_count r + (if r_status r = StatusPending \<and> r_status r' = StatusDelivering then 1 else 0) \<and>
     (in_flight r \<and> r_status r' = StatusPending \<longrightarrow> r_attempt_count r < r_max_attempts r) \<and>
     (r_status r = StatusDead \<and> r_status r' \<noteq> StatusDead \<longrightarrow> r_id r \<in> R)"

definition evolves :: "string set \<Rightarrow> db \<Rightarrow> db \<Rightarrow> bool" where
  "evolves R d d' \<longleftrightarrow>
     (\<forall>r' \<in> set (notification_tasks d').
        r_id r' \<notin> r_id ` set (notification_tasks d) \<and> r_status r' = StatusPending \<and> r_attempt_count r' = 0 \<or>
        (\<exists>r \<in> set (notification_tasks d). row_step R r r'))"

lemma row_step_refl [simp]: "row_step R r r"
  by (auto simp: row_step_def same_snapshot_def in_flight_def)

lemma evolves_subset: "set (notification_tasks d') \<subseteq> set (notification_tasks d) \<Longrightarrow> evolves R d d'"
  unfolding evolves_def using row_step_refl by blast

lemma evolves_refl [simp]: "evolves R d d"
  by (simp add: evolves_subset)

lemma evolves_same_tasks: "notification_tasks d' = notification_tasks d \<Longrightarrow> evolves R d d'"
  by (simp add: evolves_subset)

lemma evolves_update:
  assumes "\<And>r. r \<in> set (notification_tasks d) \<Longrightarrow> p r \<Longrightarrow> row_step R r (f r)"
  shows "evolves R d (d\<lparr>notification_tasks := update_where p f (notification_tasks d)\<rparr>)"
  unfolding evolves_def
proof (intro ballI disjI2)
  fix r' assume "r' \<in> set (notification_tasks (d\<lparr>notification_tasks := update_where p f (notification_tasks d)\<rparr>))"
  then obtain r where "r \<in> set (notification_tasks d)" "r' = (if p r then f r else r)"
    by (auto simp: set_update_where)
  with assms show "\<exists>r \<in> set (notification_tasks d). row_step R r r'"
    by (intro bexI [of _ r]) auto
qed

lemma evolves_sql_update:
  assumes "\<And>r. r \<in> set (notification_tasks d) \<Longrightarrow> p r \<Longrightarrow> row_step R r (f r)"
  shows "evolves R d (d\<lparr>notification_tasks := snd (sql_update ft ok p f (notification_tasks d))\<rparr>)"
  using sql_update_cases [of ft ok p f "notification_tasks d"] evolves_update [OF assms]
  by (auto simp: evolves_same_tasks)

lemma create_tx_evolves: "initial_pair t e \<Longrightarrow> create_tx jsonb t e tf d = Inr d' \<Longrightarrow> evolves R d d'"
  by (erule create_tx_Inr) (auto simp: evolves_def initial_pair_def intro: row_step_refl)

lemma ClaimDelivery_evolves: "evolves R d (snd (ClaimDelivery ft dbnow i l u d))"
  unfolding ClaimDelivery_db
  by (rule evolves_sql_update) (simp add: row_step_def same_snapshot_def claim_row_def store_transition_def)

lemma ApplyDeliveryResult_evolves: "evolves R d (snd (ApplyDeliveryResult ft i l a d))"
  unfolding ApplyDeliveryResult_db
  by (rule evolves_sql_update)
     (auto simp: row_step_def same_snapshot_def result_row_def store_transition_def split: outcome.splits)

lemma scheduled_row_step: "in_flight r \<Longrightarrow> row_step R r (scheduled_row now r)"
  by (auto simp: row_step_def same_snapshot_def scheduled_row_def kill_row_def resume_row_def
      store_transition_def in_flight_def exhausted_def)

lemma ScheduleDue_evolves:
  assumes "db_wf d" shows "evolves R d (snd (ScheduleDue tf locked now limit d))"
proof -
  obtain res err d' where c: "ScheduleDue tf locked now limit d = ((res, err), d')" by (metis prod.exhaust)
  have "row_step R r (scheduled_row now r)"
    if "r \<in> set (notification_tasks d)" "r_id r \<in> r_id ` set (due_candidates locked now limit d)" for r
  proof -
    from that(2) obtain q where q: "q \<in> set (due_candidates locked now limit d)" "r_id r = r_id q" by auto
    then have "q \<in> set (notification_tasks d)" "due now q" using due_candidates_mem by blast+
    with q row_by_id [OF assms that(1), of q] due_in_flight scheduled_row_step show ?thesis by auto
  qed
  then have "evolves R d (schedule_batch locked now limit d)"
    using evolves_update [where d = d and f = "scheduled_row now" and
        p = "\<lambda>r. r_id r \<in> r_id ` set (due_candidates locked now limit d)"]
    by (auto simp: schedule_batch_def Let_def evolves_def)
  then show ?thesis using ScheduleDue_effect(2) [OF assms c] c by auto
qed

lemma ReplayDeadAtomic_evolves:
  assumes "db_wf d" shows "evolves {nid} d (snd (ReplayDeadAtomic tf nid now eventID d))"
proof (cases "snd (ReplayDeadAtomic tf nid now eventID d) = d")
  case False
  obtain res d' where c: "ReplayDeadAtomic tf nid now eventID d = (res, d')" by fastforce
  with False ReplayDeadAtomic_effect(2) [OF assms c] obtain r where r: "task_of d nid = Some r"
    "r_status r = StatusDead" "d' = replay_db nid now eventID r d" by auto
  have "row_step {nid} q (replay_row now q)" if "q \<in> set (notification_tasks d)" "r_id q = nid" for q
  proof -
    from that r(1) row_by_id [OF assms that(1), of r] have "q = r" by (auto dest: lookup_by_SomeD)
    with r(2) that(2) show ?thesis
      by (simp add: row_step_def same_snapshot_def replay_row_def store_transition_def in_flight_def)
  qed
  then have "evolves {nid} d d'"
    using evolves_update [where d = d and p = "\<lambda>q. r_id q = nid" and f = "replay_row now"] r(3)
    by (auto simp: replay_db_def evolves_def)
  with c show ?thesis by simp
qed simp

lemma DeleteTerminalBefore_evolves: "evolves R d (snd (DeleteTerminalBefore ft locked cutoff limit d))"
  by (rule evolves_subset) (auto simp: DeleteTerminalBefore_def Let_def delete_tasks_def)

text \<open>
  An event is spent when its task cannot be pending at the event's generation any more.
  Once spent, an event stays spent.
\<close>

definition spent :: "db \<Rightarrow> outbox_row \<Rightarrow> bool" where
  "spent d e \<longleftrightarrow>
     (\<forall>r \<in> set (notification_tasks d). r_id r = o_aggregate_id e \<longrightarrow>
        o_generation e < r_generation r \<or> o_generation e = r_generation r \<and> r_status r \<noteq> StatusPending)"

lemma spent_evolves:
  assumes "spent d e" "evolves R d d'" "o_aggregate_id e \<in> r_id ` set (notification_tasks d)"
  shows "spent d' e"
  unfolding spent_def
proof (intro ballI impI)
  fix r' assume r': "r' \<in> set (notification_tasks d')" "r_id r' = o_aggregate_id e"
  with assms(2,3) obtain r where r: "r \<in> set (notification_tasks d)" "row_step R r r'"
    by (auto simp: evolves_def)
  then have "r_id r = o_aggregate_id e" using r' by (simp add: row_step_def same_snapshot_def)
  with assms(1) r(1) have "o_generation e < r_generation r \<or> o_generation e = r_generation r \<and> r_status r \<noteq> StatusPending"
    by (auto simp: spent_def)
  with r(2) show "o_generation e < r_generation r' \<or> o_generation e = r_generation r' \<and> r_status r' \<noteq> StatusPending"
    by (auto simp: row_step_def split: if_splits)
qed

lemma spent_same_key:
  "spent d e \<Longrightarrow> event_key e' = event_key e \<Longrightarrow> spent d e'"
  by (simp add: spent_def)

end
