(* ===== verification/Registry.thy ===== *)
theory Registry
  imports Notification
begin

text \<open>
  The destination registry (\<open>internal/destination/config.go\<close>, types \<open>Destination\<close> and
  \<open>Registry\<close>). A \<open>*url.URL\<close> is the record of what the source reads of it; \<open>clone\<close>
  copies maps and slices, which in a model without sharing is the identity on values, and
  turns an empty slice of delays into nil, which is the same list.
\<close>

record url =
  url_Scheme :: string
  url_Hostname :: string
  url_Host :: string
  url_User :: bool
  url_Fragment :: string
  url_String :: string

record destination =
  dest_ID :: string
  dest_Method :: string
  dest_URL :: "url option"
  dest_StaticHeaders :: header
  dest_SecretHeaders :: "(string, string) gomap"
  dest_Timeout :: duration
  dest_Retry :: retry_policy
  dest_ConcurrencyLimit :: int

type_synonym registry = "(string, destination) gomap"

definition clone :: "destination \<Rightarrow> destination" where
  "clone source =
     \<lparr>dest_ID = dest_ID source, dest_Method = dest_Method source,
      dest_URL = (case dest_URL source of None \<Rightarrow> None | Some u \<Rightarrow> Some u),
      dest_StaticHeaders = dest_StaticHeaders source,
      dest_SecretHeaders = map (\<lambda>(key, v). (key, v)) (dest_SecretHeaders source),
      dest_Timeout = dest_Timeout source,
      dest_Retry = (dest_Retry source)\<lparr>Delays := [] @ Delays (dest_Retry source)\<rparr>,
      dest_ConcurrencyLimit = dest_ConcurrencyLimit source\<rparr>"

text \<open>The loop of \<open>NewRegistry\<close>, with the items inserted so far.\<close>

fun new_registry_loop :: "destination list \<Rightarrow> registry \<Rightarrow> error + registry" where
  "new_registry_loop [] items = Inr items"
| "new_registry_loop (c # cs) items =
     (if dest_ID c = [] \<or> dest_URL c = None then Inl (New ''destination id and URL are required'')
      else if map_of items (dest_ID c) \<noteq> None then Inl (New ''duplicate destination'')
      else new_registry_loop cs (items @ [(dest_ID c, clone c)]))"

definition NewRegistry :: "destination list \<Rightarrow> error + registry" where
  "NewRegistry ds = new_registry_loop ds []"

definition Get :: "registry \<Rightarrow> string \<Rightarrow> destination option" where
  "Get r i = (case map_of r i of None \<Rightarrow> None | Some d \<Rightarrow> Some (clone d))"

lemma clone_id [simp]: "clone d = d"
  by (simp add: clone_def split: option.splits)

lemma new_registry_loop_eq:
  "new_registry_loop ds items = Inr r \<Longrightarrow> r = items @ map (\<lambda>c. (dest_ID c, c)) ds"
proof (induction ds arbitrary: items)
  case (Cons c cs)
  then have "new_registry_loop cs (items @ [(dest_ID c, c)]) = Inr r" by (auto split: if_splits)
  from Cons.IH [OF this] show ?case by simp
qed simp

lemma new_registry_loop_wf:
  assumes "new_registry_loop ds items = Inr r" "distinct (map fst items)"
    "\<forall>(k, v) \<in> set items. k \<noteq> [] \<and> dest_URL v \<noteq> None"
  shows "distinct (map fst r) \<and> (\<forall>(k, v) \<in> set r. k \<noteq> [] \<and> dest_URL v \<noteq> None)"
  using assms
proof (induction ds arbitrary: items)
  case (Cons c cs)
  from Cons.prems(1) have g: "dest_ID c \<noteq> []" "dest_URL c \<noteq> None" "map_of items (dest_ID c) = None"
    and rest: "new_registry_loop cs (items @ [(dest_ID c, c)]) = Inr r"
    by (auto split: if_splits)
  from g Cons.prems(2) have "distinct (map fst (items @ [(dest_ID c, c)]))"
    by (simp add: map_of_eq_None_iff)
  with Cons.IH [OF rest this] Cons.prems(3) g show ?case by auto
qed simp

text \<open>A registry that was accepted answers exactly with the destinations it was given.\<close>

lemma NewRegistry_Get:
  assumes "NewRegistry ds = Inr r"
  shows "Get r i = Some d \<longleftrightarrow> d \<in> set ds \<and> dest_ID d = i"
proof -
  have r: "r = map (\<lambda>c. (dest_ID c, c)) ds" "distinct (map fst r)"
    using new_registry_loop_eq new_registry_loop_wf assms unfolding NewRegistry_def by force+
  then have "map_of r i = Some d \<longleftrightarrow> (i, d) \<in> set r" by simp
  then show ?thesis by (auto simp: Get_def r(1) split: option.splits)
qed

end
