(* ===== verification/JsonRoundtrip.thy ===== *)
theory JsonRoundtrip
  imports JsonText
begin

text \<open>
  What the encoder writes, the decoder reads: strings, numbers, values and objects.
\<close>

section \<open>Strings are read back\<close>

text \<open>A segment the scanner passes inside a string literal.\<close>

definition raw_segment :: "string \<Rightarrow> bool" where
  "raw_segment seg \<longleftrightarrow>
     (\<forall>rest. scan_string InString (seg @ rest) = and_then (scan_string InString rest) (\<lambda>raw. Done (seg @ raw)))"

lemma and_then_Done [simp]: "and_then p Done = p"
  by (cases p) auto

lemma and_then_assoc: "and_then (and_then p f) g = and_then p (\<lambda>x r. and_then (f x r) g)"
  by (cases p) auto

lemma raw_segment_Nil: "raw_segment []"
  by (simp add: raw_segment_def)

lemma raw_segment_append: "raw_segment a \<Longrightarrow> raw_segment b \<Longrightarrow> raw_segment (a @ b)"
  by (simp add: raw_segment_def and_then_assoc)

lemma raw_segment_plain: "32 \<le> byte c \<Longrightarrow> c \<noteq> CHR 0x22 \<Longrightarrow> c \<noteq> CHR 0x5C \<Longrightarrow> raw_segment [c]"
  by (auto simp: raw_segment_def)

lemma raw_segment_high: "list_all (\<lambda>c. 128 \<le> byte c) seg \<Longrightarrow> raw_segment seg"
proof (induction seg)
  case (Cons c seg)
  then have "raw_segment [c]" by (intro raw_segment_plain) auto
  with Cons raw_segment_append [of "[c]" seg] show ?case by simp
qed (rule raw_segment_Nil)

lemma hex_digit_value: "n < 16 \<Longrightarrow> is_hex (hex_digit n) \<and> hex_val (hex_digit n) = n"
  by (auto simp: hex_digit_def is_hex_def hex_val_def is_digit_def)

lemma raw_segment_u:
  "is_hex a \<Longrightarrow> is_hex b \<Longrightarrow> is_hex c \<Longrightarrow> is_hex d \<Longrightarrow> raw_segment [CHR 0x5C, CHR ''u'', a, b, c, d]"
  by (simp add: raw_segment_def numeral_3_eq_3 and_then_assoc)

lemma raw_segment_escape: "e \<in> set ''bfnrt/'' \<or> e = CHR 0x5C \<or> e = CHR 0x22 \<Longrightarrow> raw_segment [CHR 0x5C, e]"
  by (auto simp: raw_segment_def and_then_assoc)

lemma is_hex_zero: "is_hex CHR ''0''" "is_hex CHR ''2''" "is_hex CHR ''f''" "is_hex CHR ''d''"
  by (simp_all add: is_hex_def is_digit_def)

lemma raw_segment_byte:
  assumes "byte c < 128" shows "raw_segment (if htmlSafe c then [c] else escape_byte c)"
proof (cases "htmlSafe c")
  case True
  then have "raw_segment [c]" unfolding htmlSafe_def by (intro raw_segment_plain) simp_all
  with True show ?thesis by simp
next
  case False
  from assms have "byte c div 16 < 16" by simp
  with hex_digit_value have hex: "is_hex (hex_digit (byte c div 16))" "is_hex (hex_digit (byte c mod 16))" by simp_all
  have "raw_segment (escape_byte c)"
    unfolding escape_byte_def
    by (simp only: split: if_split, intro conjI impI;
        (rule raw_segment_escape; simp; fail | rule raw_segment_u [OF is_hex_zero(1,1) hex]))
  with False show ?thesis by simp
qed

text \<open>The bytes of a decoded sequence are its rune's encoding, all of them beyond ASCII.\<close>

lemma base64_digits: "z < 64 \<Longrightarrow> (a * 64 + z) div 64 = a" "z < 64 \<Longrightarrow> (a * 64 + z) mod 64 = (z :: nat)"
  by simp_all

lemma encode_two: "2 \<le> x \<Longrightarrow> x < 32 \<Longrightarrow> y < 64 \<Longrightarrow> encode_valid (x * 64 + y) = [192 + x, 128 + y]"
  by (simp add: encode_valid_def base64_digits)

lemma encode_three:
  assumes "y < 64" "z < 64" "x < 16" "x = 0 \<longrightarrow> 32 \<le> y"
  shows "encode_valid ((x * 64 + y) * 64 + z) = [224 + x, 128 + y, 128 + z]"
proof -
  have "2048 \<le> (x * 64 + y) * 64 + z"
  proof (cases "x = 0")
    case False
    then have "1 * 64 \<le> x * 64" by (intro mult_right_mono) auto
    then show ?thesis by simp
  qed (use assms in simp)
  moreover have "(x * 64 + y) * 64 + z < 65536" using assms by simp
  moreover have "((x * 64 + y) * 64 + z) div 4096 = ((x * 64 + y) * 64 + z) div 64 div 64"
    by (simp add: div_mult2_eq [symmetric])
  ultimately show ?thesis using assms by (simp only: encode_valid_def base64_digits if_False not_less) (simp add: base64_digits)
qed

lemma encode_four:
  assumes "y < 64" "z < 64" "u < 64" "x < 5" "x = 0 \<longrightarrow> 16 \<le> y"
  shows "encode_valid (((x * 64 + y) * 64 + z) * 64 + u) = [240 + x, 128 + y, 128 + z, 128 + u]"
proof -
  let ?n = "((x * 64 + y) * 64 + z) * 64 + u"
  have "65536 \<le> ?n"
  proof (cases "x = 0")
    case False
    then have "1 * 64 \<le> x * 64" by (intro mult_right_mono) auto
    then show ?thesis by simp
  qed (use assms in simp)
  moreover have "?n div 262144 = ?n div 64 div 64 div 64" "?n div 4096 = ?n div 64 div 64"
    by (simp_all add: div_mult2_eq [symmetric])
  ultimately show ?thesis using assms by (simp only: encode_valid_def base64_digits if_False not_less) (simp add: base64_digits)
qed


lemma add_split: "(k :: nat) \<le> b \<Longrightarrow> \<exists>x. b = k + x"
  by (rule le_Suc_ex)

lemma decode_rune_multibyte:
  assumes "128 \<le> b" "decode_rune (b # bs) = (r, w)" "(r, w) \<noteq> (RuneError, 1)"
  shows "valid_rune r \<and> take w (b # bs) = encode_valid r \<and> list_all (\<lambda>x. 128 \<le> x) (take w (b # bs))"
proof -
  consider b1 tl where "194 \<le> b" "b < 224" "bs = b1 # tl" "cont b1"
    | b1 b2 tl where "224 \<le> b" "b < 240" "bs = b1 # b2 # tl" "second_ok b b1" "cont b2"
    | b1 b2 b3 tl where "240 \<le> b" "b < 245" "bs = b1 # b2 # b3 # tl" "second_ok b b1" "cont b2" "cont b3"
    using assms by (auto split: list.splits if_splits)
  then show ?thesis
  proof cases
    case 1
    from add_split [of 194 b] add_split [of 128 b1] 1 obtain x y where b: "b = 194 + x" "b1 = 128 + y"
      by (auto simp: cont_def)
    with 1 have "x < 30" "y < 64" by (simp_all add: cont_def)
    with 1 assms(2) encode_two [of "x + 2" y] show ?thesis by (auto simp: b valid_rune_def)
  next
    case 2
    from 2 have low: "128 \<le> b1" "b1 < 192" by (auto simp: second_ok_def split: if_splits)
    from add_split [of 224 b] add_split [of 128 b1] add_split [of 128 b2] 2 low obtain x y z
      where b: "b = 224 + x" "b1 = 128 + y" "b2 = 128 + z" by (auto simp: cont_def)
    with 2 low have l: "x < 16" "y < 64" "z < 64" "x = 0 \<longrightarrow> 32 \<le> y" "x = 13 \<longrightarrow> y < 32"
      by (auto simp: cont_def second_ok_def)
    from 2 b l assms(2) have r: "r = (x * 64 + y) * 64 + z" "w = 3" by auto
    have "valid_rune r"
    proof (cases "x \<le> 12 \<or> x = 13")
      case True
      then have "x * 64 + y < 864" using l by auto
      then show ?thesis using l by (simp add: r valid_rune_def)
    next
      case False
      then have "14 * 64 \<le> x * 64" by (intro mult_right_mono) auto
      with l show ?thesis by (simp add: r valid_rune_def)
    qed
    with encode_three [of y z x] l 2 show ?thesis by (simp add: r b)
  next
    case 3
    from 3 have low: "128 \<le> b1" "b1 < 192" by (auto simp: second_ok_def split: if_splits)
    from add_split [of 240 b] add_split [of 128 b1] add_split [of 128 b2] add_split [of 128 b3] 3 low obtain x y z u
      where b: "b = 240 + x" "b1 = 128 + y" "b2 = 128 + z" "b3 = 128 + u" by (auto simp: cont_def)
    with 3 low have l: "x < 5" "y < 64" "z < 64" "u < 64" "x = 0 \<longrightarrow> 16 \<le> y" "x = 4 \<longrightarrow> y < 16"
      by (auto simp: cont_def second_ok_def)
    from 3 b l assms(2) have r: "r = ((x * 64 + y) * 64 + z) * 64 + u" "w = 4" by auto
    have "x * 64 + y < 272" using l by (cases "x = 4") auto
    moreover have "16 \<le> x * 64 + y" using l by (cases "x = 0") auto
    ultimately have "valid_rune r" using l by (simp add: r valid_rune_def)
    with encode_four [of y z u x] l 3 show ?thesis by (simp add: r b)
  qed
qed

lemma multibyte_segment:
  assumes "s = c # t" "128 \<le> byte c" "decode_rune (map byte s) = (r, w)" "(r, w) \<noteq> (RuneError, 1)"
  shows "raw_segment (take w s)" "utf8_chars r = take w s" "valid_rune r"
    "decode_rune (map byte (take w s @ rest)) = (r, w)" "length (take w s) = w"
proof -
  have d: "decode_rune (byte c # map byte t) = (r, w)" using assms(1,3) by simp
  have m: "valid_rune r" "map byte (take w s) = encode_valid r" "list_all (\<lambda>x. 128 \<le> byte x) (take w s)"
    using decode_rune_multibyte [OF assms(2) d assms(4)] assms(1) by (simp_all add: take_map list_all_iff flip: list.map)
  show "raw_segment (take w s)" using m(3) by (rule raw_segment_high)
  show "valid_rune r" by (rule m(1))
  have "map char_of (map byte (take w s)) = take w s" by (simp add: map_idI)
  then show "utf8_chars r = take w s" using m by (simp add: utf8_chars_def encode_rune_def)
  show l: "length (take w s) = w" using decode_rune_width_le [of "map byte s"] assms(3) by simp
  have "w = length (encode_valid r)" using m(2) l by (metis length_map)
  with decode_encode_valid [OF m(1), of "map byte rest"] m(2) show "decode_rune (map byte (take w s @ rest)) = (r, w)"
    by (simp only: map_append)
qed

lemma raw_segment_rune:
  assumes "s = c # t" "128 \<le> byte c" shows "raw_segment (quote_rune s)"
proof -
  obtain r w where d: "decode_rune (map byte s) = (r, w)" by fastforce
  have "is_hex (hex_digit (r mod 16))" using hex_digit_value by simp
  with multibyte_segment(1) [OF assms d] show ?thesis
    by (auto simp: quote_rune_def d is_hex_zero intro!: raw_segment_u)
qed

lemma raw_segment_quote: "raw_segment (quote_body s)"
proof (induction s rule: quote_body.induct)
  case (1 s)
  show ?case
  proof (cases s)
    case Nil
    then show ?thesis by (simp add: quote_body.simps raw_segment_Nil)
  next
    case (Cons c r)
    have "raw_segment (if byte c < 128 then (if htmlSafe c then [c] else escape_byte c) @ quote_body r
        else quote_rune s @ quote_body (drop (snd (decode_rune (map byte s))) s))"
    proof (cases "byte c < 128")
      case True
      then show ?thesis using raw_segment_append [OF raw_segment_byte [OF True] 1 (1) [OF Cons True]] by simp
    next
      case False
      then have "raw_segment (quote_rune s)" by (intro raw_segment_rune [OF Cons]) simp
      from raw_segment_append [OF this 1 (2) [OF Cons False]] False show ?thesis by (simp only: if_False)
    qed
    with Cons show ?thesis by (subst quote_body.simps) (simp only: list.case)
  qed
qed

lemma scan_quoted: "scan_string InString (quote_body s @ CHR 0x22 # rest) = Done (quote_body s) rest"
  using raw_segment_quote [of s] by (simp add: raw_segment_def)

lemma utf8_chars_ascii: "byte c < 128 \<Longrightarrow> utf8_chars (byte c) = [c]"
  by (simp add: utf8_chars_def encode_rune_def encode_valid_def valid_rune_def)

lemma getu4_escape: "c \<noteq> CHR ''u'' \<Longrightarrow> getu4 (CHR 0x5C # c # r) = None"
  by (cases "(CHR 0x5C # c # r)" rule: getu4.cases) auto

lemma unquote_letter: "e \<noteq> CHR ''u'' \<Longrightarrow> unquote (CHR 0x5C # e # rest) = escaped e # unquote rest"
  by (subst unquote.simps) (simp add: getu4_escape)

lemma unquote_u:
  assumes "is_hex a" "is_hex b" "is_hex c" "is_hex d"
    and "u = ((hex_val a * 16 + hex_val b) * 16 + hex_val c) * 16 + hex_val d" "\<not> high_surrogate u"
  shows "unquote (CHR 0x5C # CHR ''u'' # a # b # c # d # rest) = utf8_chars u @ unquote rest"
  using assms by (subst unquote.simps) (simp split: option.split)

lemma unquote_byte:
  assumes "byte c < 128" shows "unquote ((if htmlSafe c then [c] else escape_byte c) @ rest) = c # unquote rest"
proof (cases "htmlSafe c")
  case True
  then show ?thesis by (subst unquote.simps) (simp add: htmlSafe_def)
next
  case False
  have n: "byte c div 16 < 16" "byte c mod 16 < 16" using assms by simp_all
  have z: "hex_val CHR ''0'' = 0" by (simp add: hex_val_def is_digit_def)
  have u: "unquote (CHR 0x5C # CHR ''u'' # CHR ''0'' # CHR ''0'' # hex_digit (byte c div 16) # hex_digit (byte c mod 16) # rest) =
      utf8_chars (byte c) @ unquote rest"
    using assms by (intro unquote_u) (simp_all add: is_hex_zero hex_digit_value [OF n(1)] hex_digit_value [OF n(2)] z high_surrogate_def)
  from False u assms show ?thesis
    by (simp add: escape_byte_def unquote_letter utf8_chars_ascii escaped_def)
qed

lemma unquote_rune:
  assumes "s = c # t" "128 \<le> byte c" and d: "decode_rune (map byte s) = (r, w)"
  shows "unquote (quote_rune s @ rest) = utf8_chars r @ unquote rest"
proof -
  have h: "hex_val CHR ''f'' = 15" "hex_val CHR ''d'' = 13" "hex_val CHR ''2'' = 2" "hex_val CHR ''0'' = 0"
    by (simp_all add: hex_val_def is_digit_def)
  consider "(r, w) = (RuneError, 1)" | "(r, w) \<noteq> (RuneError, 1)" "r = 8232 \<or> r = 8233"
    | "(r, w) \<noteq> (RuneError, 1)" "r \<noteq> 8232" "r \<noteq> 8233" by blast
  then show ?thesis
  proof cases
    case 1
    then show ?thesis
      by (simp add: quote_rune_def d unquote_u [OF is_hex_zero(3,3,3,4) refl] h high_surrogate_def RuneError_def)
  next
    case 2
    then have x: "is_hex (hex_digit (r mod 16))" "hex_val (hex_digit (r mod 16)) = r mod 16" using hex_digit_value by simp_all
    have "r = ((hex_val CHR ''2'' * 16 + hex_val CHR ''0'') * 16 + hex_val CHR ''2'') * 16 + hex_val (hex_digit (r mod 16))"
      "\<not> high_surrogate r" using 2 by (auto simp: x h high_surrogate_def)
    note u = unquote_u [OF is_hex_zero(2,1,2) x(1) this]
    have "quote_rune s = [CHR 0x5C, CHR ''u'', CHR ''2'', CHR ''0'', CHR ''2'', hex_digit (r mod 16)]"
      using 2 by (auto simp: quote_rune_def d RuneError_def)
    with u show ?thesis by simp
  next
    case 3
    note seg = multibyte_segment [OF assms(1,2) d 3(1)]
    have "0 < w" using decode_rune_width [of "map byte s"] assms(1) d by simp
    then obtain tl where tl: "take w s = c # tl" using assms(1) by (cases w) auto
    have "unquote (take w s @ rest) = utf8_chars r @ unquote rest"
      using assms(2) seg(4) [of rest] seg(5) tl by (subst unquote.simps) (auto simp del: decode_rune.simps)
    moreover have "quote_rune s = take w s" using 3 by (auto simp: quote_rune_def d)
    ultimately show ?thesis by simp
  qed
qed

lemma strings_Map_step:
  assumes "s = c # t" "decode_rune (map byte s) = (r, w)"
  shows "strings_Map (\<lambda>r. r) s = utf8_chars r @ strings_Map (\<lambda>r. r) (drop w s)"
proof -
  have "map byte s \<noteq> []" using assms(1) by simp
  with assms(2) show ?thesis
    by (subst strings_Map_def, subst runes.simps) (simp add: strings_Map_def utf8_chars_def drop_map)
qed

text \<open>Ill-formed text is read back with replacement characters, well-formed text as it was.\<close>

lemma unquote_quote: "unquote (quote_body s) = strings_Map (\<lambda>r. r) s"
proof (induction s rule: quote_body.induct)
  case (1 s)
  show ?case
  proof (cases s)
    case Nil
    then show ?thesis by (simp add: quote_body.simps unquote.simps strings_Map_def runes.simps)
  next
    case (Cons c r)
    obtain rune w where d: "decode_rune (map byte s) = (rune, w)" by fastforce
    note run = strings_Map_step [OF Cons d]
    show ?thesis
    proof (cases "byte c < 128")
      case True
      then have "rune = byte c" "w = 1" using d Cons by simp_all
      with run have "strings_Map (\<lambda>r. r) s = c # strings_Map (\<lambda>r. r) r"
        using Cons utf8_chars_ascii [OF True] by simp
      with 1 (1) [OF Cons True] unquote_byte [OF True] Cons True show ?thesis by (subst quote_body.simps) simp
    next
      case False
      with 1 (2) [OF Cons False] unquote_rune [OF Cons _ d] Cons run d show ?thesis
        by (subst quote_body.simps) (simp del: decode_rune.simps)
    qed
  qed
qed

lemma strings_Map_id: "utf8_valid s \<Longrightarrow> strings_Map (\<lambda>r. r) s = s"
proof (induction "map byte s" arbitrary: s rule: valid_bytes.induct)
  case 1
  show ?case
  proof (cases s)
    case Nil
    then show ?thesis by (simp add: strings_Map_def runes.simps)
  next
    case (Cons c t)
    obtain r w where d: "decode_rune (map byte s) = (r, w)" by fastforce
    have ne: "map byte s \<noteq> []" using Cons by simp
    then have v: "(r, w) \<noteq> (RuneError, 1)" "utf8_valid (drop w s)"
      using 1 (2) d unfolding utf8_valid_def by (subst (asm) valid_bytes.simps; simp add: drop_map)+
    have ih: "strings_Map (\<lambda>r. r) (drop w s) = drop w s"
      using 1 (1) [OF ne, of "drop w s"] v d by (simp add: drop_map)
    have "utf8_chars r = take w s"
    proof (cases "byte c < 128")
      case True
      then show ?thesis using d Cons utf8_chars_ascii [OF True] by auto
    next
      case False
      then show ?thesis using multibyte_segment(2) [OF Cons _ d v(1)] by simp
    qed
    with strings_Map_step [OF Cons d] show ?thesis by (simp add: ih)
  qed
qed

lemma utf8_valid_chars: "utf8_valid (utf8_chars r @ s) \<longleftrightarrow> utf8_valid s"
proof -
  have "map byte (utf8_chars r) = encode_rune r"
    unfolding utf8_chars_def by (rule byte_char_of_map) (auto dest: encode_rune_bytes)
  then show ?thesis by (simp add: utf8_valid_def valid_bytes_encode)
qed

lemma utf8_valid_ascii_Cons: "byte c < 128 \<Longrightarrow> utf8_valid (c # s) \<longleftrightarrow> utf8_valid s"
  using utf8_valid_chars [of "byte c" s] by (simp add: utf8_chars_ascii)

lemma utf8_valid_Nil: "utf8_valid []"
  by (simp add: utf8_valid_def valid_bytes.simps)

lemma escaped_ascii: "byte (escaped c) < 128"
  by (simp add: escaped_def)

lemma unquote_valid: "utf8_valid (unquote s)"
proof (induction "length s" arbitrary: s rule: less_induct)
  case less
  show ?case
  proof (cases s)
    case Nil
    then show ?thesis by (simp add: unquote.simps utf8_valid_Nil)
  next
    case (Cons c r)
    have shorter: "utf8_valid (unquote (drop n s))" if "0 < n" for n
      using that Cons by (intro less) simp
    have tails: "utf8_valid (unquote r)" "\<And>e r'. r = e # r' \<Longrightarrow> utf8_valid (unquote r')"
      using shorter [of 1] shorter [of 2] Cons by simp_all
    have "0 < snd (decode_rune (map byte s))" by (rule decode_rune_width) (simp add: Cons)
    note wide = shorter [OF this]
    have "utf8_valid (unquote s)" if "c = CHR 0x5C" "getu4 s = Some u" for u
      using that Cons shorter [of 6] shorter [of 12]
      by (subst unquote.simps) (simp add: utf8_valid_chars Let_def split: option.split)
    moreover have "utf8_valid (unquote s)" if "c = CHR 0x5C" "getu4 s = None"
      using that Cons tails
      by (subst unquote.simps) (auto simp: utf8_valid_ascii_Cons escaped_ascii utf8_valid_Nil split: list.split)
    moreover have "utf8_valid (unquote s)" if "c \<noteq> CHR 0x5C"
      using that Cons tails(1) wide
      by (subst unquote.simps) (simp add: utf8_valid_ascii_Cons utf8_valid_chars del: decode_rune.simps)
    ultimately show ?thesis by (cases "getu4 s") auto
  qed
qed

section \<open>Numbers are read back\<close>

definition no_digit :: "string \<Rightarrow> bool" where
  "no_digit s \<longleftrightarrow> (case s of c # _ \<Rightarrow> \<not> is_digit c | [] \<Rightarrow> True)"

definition number_end :: "string \<Rightarrow> bool" where
  "number_end s \<longleftrightarrow> no_digit s \<and> (case s of c # _ \<Rightarrow> c \<noteq> CHR ''.'' \<and> c \<noteq> CHR ''e'' \<and> c \<noteq> CHR ''E'' | [] \<Rightarrow> True)"

lemma takeWhile_digits_append: "no_digit rest \<Longrightarrow> list_all is_digit ds \<Longrightarrow> takeWhile is_digit (ds @ rest) = ds \<and> dropWhile is_digit (ds @ rest) = rest"
  by (induction ds) (auto simp: no_digit_def split: list.splits)

lemma scan_digits_again:
  assumes "scan_digits s = Done ds r" "no_digit rest"
  shows "scan_digits (ds @ rest) = Done ds rest \<and> (\<exists>d ds'. ds = d # ds' \<and> is_digit d)"
proof -
  obtain c t where s: "s = c # t" "is_digit c" "ds = takeWhile is_digit s"
    using assms(1) by (auto simp: scan_digits_def split: list.splits if_splits)
  then have "list_all is_digit ds" by (auto simp: list_all_iff dest: set_takeWhileD)
  from takeWhile_digits_append [OF assms(2) this] s show ?thesis by (simp add: scan_digits_def)
qed

lemma and_then_eq_Done: "and_then p f = Done y r \<longleftrightarrow> (\<exists>x t. p = Done x t \<and> f x t = Done y r)"
  by (cases p) auto

lemma scan_integer_again:
  "scan_integer s = Done i r \<Longrightarrow> no_digit rest \<Longrightarrow> scan_integer (i @ rest) = Done i rest \<and> (\<exists>d i'. i = d # i' \<and> is_digit d)"
proof -
  assume i: "scan_integer s = Done i r" and rest: "no_digit rest"
  then obtain c t where s: "s = c # t" by (auto simp: scan_integer_def split: list.splits)
  show ?thesis
  proof (cases "c = CHR ''0''")
    case True
    with i s have "i = [CHR ''0'']" by (simp add: scan_integer_def)
    then show ?thesis by (simp add: scan_integer_def is_digit_def)
  next
    case False
    with i s have d: "scan_digits s = Done i r" by (simp add: scan_integer_def)
    then have "hd i = c" using s by (auto simp: scan_digits_def split: if_splits)
    with scan_digits_again [OF d rest] False show ?thesis by (auto simp: scan_integer_def)
  qed
qed

lemma scan_fraction_again:
  "scan_fraction s = Done f r \<Longrightarrow> no_digit rest \<Longrightarrow> (\<And>c t. rest = c # t \<Longrightarrow> c \<noteq> CHR ''.'') \<Longrightarrow>
   scan_fraction (f @ rest) = Done f rest \<and> (f = [] \<or> hd f = CHR ''.'')"
  using scan_digits_again [of _ _ _ rest]
  by (cases rest) (auto simp: scan_fraction_def and_then_eq_Done split: list.splits if_splits)


lemma scan_exponent_again:
  assumes "scan_exponent s = Done e r" "number_end rest"
  shows "scan_exponent (e @ rest) = Done e rest \<and> (e = [] \<or> hd e = CHR ''e'' \<or> hd e = CHR ''E'')"
proof -
  have d: "no_digit rest" using assms(2) by (simp add: number_end_def)
  consider (none) "e = []"
    | (signed) x g ds t where "x = CHR ''e'' \<or> x = CHR ''E''" "g = CHR ''+'' \<or> g = CHR ''-''" "scan_digits t = Done ds r" "e = x # g # ds"
    | (plain) x ds t where "x = CHR ''e'' \<or> x = CHR ''E''" "scan_digits t = Done ds r" "e = x # ds"
    using assms(1) by (auto simp: scan_exponent_def and_then_eq_Done split: list.splits if_splits)
  then show ?thesis
  proof cases
    case none
    then show ?thesis using assms(2) by (cases rest) (simp_all add: scan_exponent_def number_end_def)
  next
    case signed
    with scan_digits_again [OF signed(3) d] show ?thesis by (auto simp: scan_exponent_def)
  next
    case plain
    with scan_digits_again [OF plain(2) d] obtain c ds' where c: "ds = c # ds'" "is_digit c"
      "scan_digits (c # ds' @ rest) = Done ds rest" by auto
    with plain is_digit_not_sign [OF c(2)] show ?thesis by (auto simp: scan_exponent_def)
  qed
qed

lemma number_end_no_digit: "number_end s \<Longrightarrow> no_digit s"
  by (simp add: number_end_def)

lemma scan_number_again:
  assumes "scan_number s = Done lit r" "number_end rest"
  shows "scan_number (lit @ rest) = Done lit rest \<and> (\<exists>c lit'. lit = c # lit' \<and> (c = CHR ''-'' \<or> is_digit c))"
proof -
  define sign where "sign = (case s of c # _ \<Rightarrow> if c = CHR ''-'' then [c] else [] | [] \<Rightarrow> ([] :: string))"
  have sign: "sign = [] \<or> sign = ''-''" by (simp add: sign_def split: list.split)
  from assms(1) obtain i r1 f r2 e r0 where p: "scan_integer r0 = Done i r1" "scan_fraction r1 = Done f r2"
      "scan_exponent r2 = Done e r" "lit = sign @ i @ f @ e"
    by (auto simp: scan_number_def and_then_eq_Done sign_def split: list.splits if_splits)
  from scan_exponent_again [OF p(3) assms(2)] have e: "scan_exponent (e @ rest) = Done e rest" "e = [] \<or> hd e = CHR ''e'' \<or> hd e = CHR ''E''"
    by simp_all
  then have ne: "no_digit (e @ rest)" "e @ rest = c # t \<Longrightarrow> c \<noteq> CHR ''.''" for c t
    using assms(2) by (cases e; auto simp: number_end_def no_digit_def is_digit_def split: list.splits)+
  from scan_fraction_again [OF p(2) ne] have f: "scan_fraction (f @ e @ rest) = Done f (e @ rest)" "f = [] \<or> hd f = CHR ''.''"
    by simp_all
  then have nf: "no_digit (f @ e @ rest)" using ne(1) by (cases f) (auto simp: no_digit_def is_digit_def)
  from scan_integer_again [OF p(1) nf] obtain d i' where i: "scan_integer (i @ f @ e @ rest) = Done i (f @ e @ rest)"
      "i = d # i'" "is_digit d" by blast
  from sign i e(1) f(1) is_digit_not_sign [OF i(3)] show ?thesis by (auto simp: scan_number_def p(4) Let_def)
qed

lemma scan_number_valid: "scan_number s = Done lit r \<Longrightarrow> valid_number lit"
  using scan_number_again [of s lit r "[]"] by (simp add: valid_number_def number_end_def no_digit_def)

lemma valid_number_scan:
  "valid_number lit \<Longrightarrow> number_end rest \<Longrightarrow> scan_number (lit @ rest) = Done lit rest \<and> (\<exists>c lit'. lit = c # lit' \<and> (c = CHR ''-'' \<or> is_digit c))"
  unfolding valid_number_def by (rule scan_number_again)

section \<open>Values are read back\<close>

text \<open>
  The values \<open>Decode\<close> puts into an \<open>any\<close>: well-formed text, valid numbers, and objects with one
  member of each name.
\<close>

fun any_ok :: "json \<Rightarrow> bool" where
  "any_ok (JNum lit) = valid_number lit"
| "any_ok (JStr s) = utf8_valid s"
| "any_ok (JArr js) = list_all any_ok js"
| "any_ok (JObj kvs) = (distinct (map fst kvs) \<and> list_all (\<lambda>(k, v). utf8_valid k \<and> any_ok v) kvs)"
| "any_ok _ = True"

text \<open>Nested no deeper than \<open>d\<close>.\<close>

fun fits :: "nat \<Rightarrow> json \<Rightarrow> bool" where
  "fits 0 (JArr js) = False"
| "fits (Suc d) (JArr js) = list_all (fits d) js"
| "fits 0 (JObj kvs) = False"
| "fits (Suc d) (JObj kvs) = list_all (\<lambda>(k, v). fits d v) kvs"
| "fits d v = True"

text \<open>The same value with every object in the order of the member names.\<close>

fun sort_members :: "json \<Rightarrow> json" where
  "sort_members (JArr js) = JArr (map sort_members js)"
| "sort_members (JObj kvs) = JObj (sort_key fst (map (\<lambda>(k, v). (k, sort_members v)) kvs))"
| "sort_members v = v"

lemma insort_map_snd: "insort_key fst (k, f v) (map (\<lambda>(k, v). (k, f v)) kvs) = map (\<lambda>(k, v). (k, f v)) (insort_key fst (k, v) kvs)"
  by (induction kvs) auto

lemma sort_map_snd: "sort_key fst (map (\<lambda>(k, v). (k, f v)) kvs) = map (\<lambda>(k, v). (k, f v)) (sort_key fst kvs)"
  by (induction kvs) (auto simp: insort_map_snd)

lemma next_byte_plain: "\<not> is_space c \<Longrightarrow> next_byte (c # r) f = f c r"
  by simp

text \<open>The first byte of a written value: not a space, and not the end of an array or object.\<close>

lemma print_json_head:
  assumes "any_ok v" shows "\<exists>c t. print_json v = c # t \<and> \<not> is_space c \<and> c \<noteq> CHR '']'' \<and> c \<noteq> CHR ''}''"
proof (cases v)
  case (JNum lit)
  with assms obtain c t where "lit = c # t" "c = CHR ''-'' \<or> is_digit c"
    using valid_number_scan [of lit "[]"] by (auto simp: number_end_def no_digit_def)
  with JNum show ?thesis by (auto simp: is_space_def is_digit_def)
qed (auto simp: is_space_def quote_def)

text \<open>What may follow a value: the end, a comma or a closing bracket.\<close>

definition value_end :: "string \<Rightarrow> bool" where
  "value_end s \<longleftrightarrow> (case s of c # _ \<Rightarrow> c = CHR '','' \<or> c = CHR '']'' \<or> c = CHR ''}'' | [] \<Rightarrow> True)"

lemma value_end_number: "value_end s \<Longrightarrow> number_end s"
  by (auto simp: value_end_def number_end_def no_digit_def is_digit_def split: list.splits)

text \<open>A value that is read back in any context with fuel in proportion to its text.\<close>

definition reads :: "json \<Rightarrow> bool" where
  "reads v \<longleftrightarrow> (\<forall>n depth rest. 2 * length (print_json v) < n \<longrightarrow> fits (maxNestingDepth - depth) v \<longrightarrow> value_end rest \<longrightarrow>
     parse_value n depth (print_json v @ rest) = Done (sort_members v) rest)"

lemma readsD:
  "reads v \<Longrightarrow> 2 * length (print_json v) < n \<Longrightarrow> fits (maxNestingDepth - depth) v \<Longrightarrow> value_end rest \<Longrightarrow>
   parse_value n depth (print_json v @ rest) = Done (sort_members v) rest"
  by (simp add: reads_def)

lemma parse_elements_print:
  assumes "vs \<noteq> []" "\<forall>v \<in> set vs. reads v \<and> fits (maxNestingDepth - depth) v"
    and "2 * length (comma_join (map print_json vs)) + 1 < n"
  shows "parse_elements n depth (comma_join (map print_json vs) @ CHR '']'' # rest) acc =
    Done (JArr (acc @ map sort_members vs)) rest"
  using assms
proof (induction vs arbitrary: n acc)
  case (Cons v vs)
  from Cons.prems(3) obtain m where n: "n = Suc m" by (cases n) auto
  show ?case
  proof (cases vs)
    case Nil
    with Cons.prems n have "parse_value m depth (print_json v @ CHR '']'' # rest) = Done (sort_members v) (CHR '']'' # rest)"
      by (intro readsD) (auto simp: value_end_def)
    with Nil n show ?thesis by (simp add: is_space_def)
  next
    case (Cons w ws)
    have "parse_value m depth (print_json v @ CHR '','' # comma_join (map print_json vs) @ CHR '']'' # rest) =
        Done (sort_members v) (CHR '','' # comma_join (map print_json vs) @ CHR '']'' # rest)"
      using Cons.prems n Cons by (intro readsD) (auto simp: value_end_def)
    moreover have "parse_elements m depth (comma_join (map print_json vs) @ CHR '']'' # rest) (acc @ [sort_members v]) =
        Done (JArr ((acc @ [sort_members v]) @ map sort_members vs)) rest"
      using Cons.prems n Cons by (intro Cons.IH) auto
    ultimately show ?thesis using n Cons by (simp add: is_space_def)
  qed
qed simp

definition print_member :: "string \<times> json \<Rightarrow> string" where
  "print_member kv = quote (fst kv) @ CHR '':'' # print_json (snd kv)"

lemma print_json_object: "print_json (JObj kvs) = ''{'' @ comma_join (map print_member (sort_key fst kvs)) @ ''}''"
  unfolding print_json.simps sort_map_snd by (simp add: print_member_def [abs_def] case_prod_unfold comp_def)

lemma parse_members_print:
  assumes "kvs \<noteq> []" "\<forall>(k, v) \<in> set kvs. utf8_valid k \<and> reads v \<and> fits (maxNestingDepth - depth) v"
    and "2 * length (comma_join (map print_member kvs)) + 1 < n"
  shows "parse_members n depth (comma_join (map print_member kvs) @ CHR ''}'' # rest) acc =
    Done (JObj (acc @ map (\<lambda>(k, v). (k, sort_members v)) kvs)) rest"
  using assms
proof (induction kvs arbitrary: n acc)
  case (Cons kv kvs)
  obtain k v where kv: "kv = (k, v)" by fastforce
  from Cons.prems(3) obtain m where n: "n = Suc m" by (cases n) auto
  have key: "unquote (quote_body k) = k" using Cons.prems(2) kv by (simp add: unquote_quote strings_Map_id)
  have step: "parse_members n depth (print_member kv @ tl) acc =
      and_then (parse_value m depth (print_json v @ tl)) (\<lambda>v r3. next_byte r3 (\<lambda>c' r4.
           if c' = CHR '','' then parse_members m depth r4 (acc @ [(k, v)])
           else if c' = CHR ''}'' then Done (JObj (acc @ [(k, v)])) r4 else Bad))" for tl
    using scan_quoted [of k "CHR '':'' # print_json v @ tl"]
    by (simp add: n kv print_member_def quote_def is_space_def) (unfold key, rule refl)
  show ?case
  proof (cases kvs)
    case Nil
    with Cons.prems n kv have "parse_value m depth (print_json v @ CHR ''}'' # rest) = Done (sort_members v) (CHR ''}'' # rest)"
      by (intro readsD) (auto simp: value_end_def print_member_def)
    with Nil step [of "CHR ''}'' # rest"] show ?thesis by (simp add: is_space_def kv)
  next
    case (Cons w ws)
    have "parse_value m depth (print_json v @ CHR '','' # comma_join (map print_member kvs) @ CHR ''}'' # rest) =
        Done (sort_members v) (CHR '','' # comma_join (map print_member kvs) @ CHR ''}'' # rest)"
      using Cons.prems n kv Cons by (intro readsD) (auto simp: value_end_def print_member_def)
    moreover have "parse_members m depth (comma_join (map print_member kvs) @ CHR ''}'' # rest) (acc @ [(k, sort_members v)]) =
        Done (JObj ((acc @ [(k, sort_members v)]) @ map (\<lambda>(k, v). (k, sort_members v)) kvs)) rest"
      using Cons.prems n Cons by (intro Cons.IH) auto
    ultimately show ?thesis using step [of "CHR '','' # comma_join (map print_member kvs) @ CHR ''}'' # rest"] Cons
      by (simp add: is_space_def kv)
  qed
qed simp

lemma less_is_Suc: "(k :: nat) < n \<Longrightarrow> \<exists>m. n = Suc m"
  by (cases n) auto

lemma reads_print: "any_ok v \<Longrightarrow> reads v"
proof (induction v)
  case (JNum lit)
  show ?case unfolding reads_def
  proof (intro allI impI)
    fix n depth rest assume n: "2 * length (print_json (JNum lit)) < n" and e: "value_end rest"
    from JNum valid_number_scan [OF _ value_end_number [OF e], of lit] obtain c lit' where
      l: "scan_number (lit @ rest) = Done lit rest" "lit = c # lit'" "c = CHR ''-'' \<or> is_digit c" by auto
    then have "\<not> is_space c" by (auto simp: is_space_def is_digit_def)
    moreover have "c \<notin> {CHR ''{'', CHR ''['', CHR 0x22, CHR ''t'', CHR ''f'', CHR ''n''}" using l(3) by (auto simp: is_digit_def)
    ultimately show "parse_value n depth (print_json (JNum lit) @ rest) = Done (sort_members (JNum lit)) rest"
      using n l by (cases n) auto
  qed
next
  case (JStr s)
  then have s: "unquote (quote_body s) = s" by (simp add: unquote_quote strings_Map_id)
  show ?case unfolding reads_def
  proof (intro allI impI)
    fix n depth rest assume n: "2 * length (print_json (JStr s)) < n"
    with s scan_quoted [of s rest] show "parse_value n depth (print_json (JStr s) @ rest) = Done (sort_members (JStr s)) rest"
      by (cases n) (simp_all add: quote_def is_space_def)
  qed
next
  case (JArr js)
  then have ok: "\<forall>v \<in> set js. any_ok v \<and> reads v" by (auto simp: list_all_iff)
  show ?case unfolding reads_def
  proof (intro allI impI)
    fix n depth rest assume n: "2 * length (print_json (JArr js)) < n" and f: "fits (maxNestingDepth - depth) (JArr js)"
    from f obtain d where d: "maxNestingDepth - depth = Suc d" "list_all (fits d) js" by (cases "maxNestingDepth - depth") auto
    then have depth: "\<not> maxNestingDepth \<le> depth" "maxNestingDepth - (depth + 1) = d" by auto
    from n obtain m where m: "n = Suc m" by (cases n) auto
    show "parse_value n depth (print_json (JArr js) @ rest) = Done (sort_members (JArr js)) rest"
    proof (cases js)
      case Nil
      with m depth show ?thesis by (simp add: is_space_def)
    next
      case (Cons v vs)
      from ok Cons print_json_head [of v] obtain c t where c: "print_json v = c # t" "\<not> is_space c" "c \<noteq> CHR '']''" by auto
      then obtain t' where t': "comma_join (map print_json js) = c # t'" using Cons by (cases vs) auto
      have "parse_elements m (depth + 1) (comma_join (map print_json js) @ CHR '']'' # rest) [] =
          Done (JArr ([] @ map sort_members js)) rest"
        using n m ok d depth Cons by (intro parse_elements_print) (auto simp: list_all_iff)
      with m depth c t' show ?thesis by (simp add: is_space_def)
    qed
  qed
next
  case (JObj kvs)
  then have ok: "\<forall>(k, v) \<in> set kvs. utf8_valid k \<and> any_ok v \<and> reads v" by (fastforce simp: list_all_iff)
  let ?kvs = "sort_key fst kvs"
  show ?case unfolding reads_def
  proof (intro allI impI)
    fix n depth rest assume n: "2 * length (print_json (JObj kvs)) < n" and f: "fits (maxNestingDepth - depth) (JObj kvs)"
    from f obtain d where d: "maxNestingDepth - depth = Suc d" "list_all (\<lambda>(k, v). fits d v) kvs"
      by (cases "maxNestingDepth - depth") auto
    then have depth: "\<not> maxNestingDepth \<le> depth" "maxNestingDepth - (depth + 1) = d" by auto
    from n obtain m where m: "n = Suc m" by (cases n) auto
    show "parse_value n depth (print_json (JObj kvs) @ rest) = Done (sort_members (JObj kvs)) rest"
    proof (cases "kvs = []")
      case True
      with m depth show ?thesis by (simp add: is_space_def)
    next
      case False
      then have ne: "?kvs \<noteq> []" by (metis set_empty set_sort)
      then obtain t where t: "comma_join (map print_member ?kvs) = CHR 0x22 # t"
        by (cases ?kvs; cases "tl ?kvs") (auto simp: print_member_def quote_def)
      have "parse_members m (depth + 1) (comma_join (map print_member ?kvs) @ CHR ''}'' # rest) [] =
          Done (JObj ([] @ map (\<lambda>(k, v). (k, sort_members v)) ?kvs)) rest"
        using n m ok d depth ne by (intro parse_members_print) (auto simp: list_all_iff print_json_object simp del: print_json.simps)
      with m depth t show ?thesis
        unfolding print_json_object by (simp add: is_space_def sort_map_snd)
    qed
  qed
qed (auto simp: reads_def is_space_def dest!: less_is_Suc)

text \<open>What \<open>print_json\<close> writes, \<open>parse\<close> reads, spaces or the end of the text following.\<close>

theorem parse_print:
  assumes "any_ok v" "fits maxNestingDepth v" shows "parse (print_json v) = Done (sort_members v) []"
  using readsD [OF reads_print [OF assms(1)], of "2 * length (print_json v) + 1" 0 "[]"] assms(2)
  by (simp add: parse_def value_end_def del: parse_value.simps)

section \<open>What is read is a value\<close>

text \<open>A parser yields \<open>P\<close> when every value it is done with satisfies \<open>P\<close>.\<close>

definition yields :: "('a \<Rightarrow> bool) \<Rightarrow> 'a parsed \<Rightarrow> bool" where
  "yields P p \<longleftrightarrow> (case p of Done x _ \<Rightarrow> P x | _ \<Rightarrow> True)"

lemma yields_simps [simp]: "yields P (Done x r) \<longleftrightarrow> P x" "yields P Bad" "yields P More" "yields P Stuck"
  by (simp_all add: yields_def)

lemma yields_and_then: "yields Q p \<Longrightarrow> (\<And>x r. Q x \<Longrightarrow> yields P (f x r)) \<Longrightarrow> yields P (and_then p f)"
  by (cases p) auto

lemma yields_any: "(\<And>x r. yields P (f x r)) \<Longrightarrow> yields P (and_then p f)"
  by (cases p) auto

lemma yields_next: "(\<And>c r. yields P (f c r)) \<Longrightarrow> yields P (next_byte s f)"
  by (induction s) auto

lemma yields_if: "(b \<Longrightarrow> yields P p) \<Longrightarrow> (\<not> b \<Longrightarrow> yields P q) \<Longrightarrow> yields P (if b then p else q)"
  by simp

lemma yields_word: "P v \<Longrightarrow> yields P (scan_word w v s)"
  by (induction w v s rule: scan_word.induct) auto

lemma yields_number: "yields valid_number (scan_number s)"
  by (cases "scan_number s") (auto dest: scan_number_valid)

text \<open>A parsed value: as \<open>any_ok\<close>, where an object may still repeat a name.\<close>

fun text_ok :: "json \<Rightarrow> bool" where
  "text_ok (JNum lit) = valid_number lit"
| "text_ok (JStr s) = utf8_valid s"
| "text_ok (JArr js) = list_all text_ok js"
| "text_ok (JObj kvs) = list_all (\<lambda>(k, v). utf8_valid k \<and> text_ok v) kvs"
| "text_ok _ = True"

abbreviation good :: "nat \<Rightarrow> json \<Rightarrow> bool" where
  "good d v \<equiv> text_ok v \<and> fits d v"

lemma parse_yields:
  "yields (good (maxNestingDepth - depth)) (parse_value n depth s) \<and>
   (depth < Suc maxNestingDepth \<longrightarrow> 0 < depth \<longrightarrow> list_all (good (maxNestingDepth - depth)) es \<longrightarrow>
      yields (good (Suc (maxNestingDepth - depth))) (parse_elements n depth s es)) \<and>
   (depth < Suc maxNestingDepth \<longrightarrow> 0 < depth \<longrightarrow> list_all (\<lambda>(k, v). utf8_valid k \<and> good (maxNestingDepth - depth) v) ms \<longrightarrow>
      yields (good (Suc (maxNestingDepth - depth))) (parse_members n depth s ms))"
proof (induction n arbitrary: depth s es ms)
  case (Suc n)
  note vals = Suc.IH [THEN conjunct1]
    and elements = Suc.IH [THEN conjunct2, THEN conjunct1, THEN mp, THEN mp, THEN mp]
    and members = Suc.IH [THEN conjunct2, THEN conjunct2, THEN mp, THEN mp, THEN mp]
  have open_elements: "yields (good (maxNestingDepth - depth)) (parse_elements n (depth + 1) t [])"
    and open_members: "yields (good (maxNestingDepth - depth)) (parse_members n (depth + 1) t [])"
    if "\<not> maxNestingDepth \<le> depth" for t
    using elements [of "depth + 1" "[]" t] members [of "depth + 1" "[]" t] that by (simp_all add: Suc_diff_Suc)
  have empty: "fits (maxNestingDepth - depth) (JArr [])" "fits (maxNestingDepth - depth) (JObj [])" if "\<not> maxNestingDepth \<le> depth"
    using that by (cases "maxNestingDepth - depth"; simp)+
  have "yields (good (maxNestingDepth - depth)) (parse_value (Suc n) depth s)"
    unfolding parse_value.simps
    by (intro yields_next yields_if;
        (simp add: empty; fail | rule open_elements; simp; fail | rule open_members; simp; fail |
         rule yields_any; simp add: unquote_valid; fail | rule yields_word; simp; fail | rule yields_and_then [OF yields_number]; simp))
  moreover have "yields (good (Suc (maxNestingDepth - depth))) (parse_elements (Suc n) depth s es)"
    if "depth < Suc maxNestingDepth" "0 < depth" "list_all (good (maxNestingDepth - depth)) es"
    unfolding parse_elements.simps
    by (insert that, (intro yields_and_then [OF vals] yields_next yields_if; (simp add: list_all_iff; fail | rule elements; simp)))
  moreover have "yields (good (Suc (maxNestingDepth - depth))) (parse_members (Suc n) depth s ms)"
    if "depth < Suc maxNestingDepth" "0 < depth" "list_all (\<lambda>(k, v). utf8_valid k \<and> good (maxNestingDepth - depth) v) ms"
    unfolding parse_members.simps
    by (insert that, (intro yields_and_then [OF vals] yields_any yields_next yields_if;
      (simp add: list_all_iff unquote_valid case_prod_unfold; fail | rule members; simp add: unquote_valid)))
  ultimately show ?case by blast
qed simp

lemma parse_text_ok: "parse s = Done v r \<Longrightarrow> text_ok v \<and> fits maxNestingDepth v"
  using parse_yields [of 0 "2 * length s + 1" s] by (simp add: parse_def del: parse_value.simps)

lemma interface_value_ok: "text_ok v \<Longrightarrow> any_ok (interface_value v)"
proof (induction v)
  case (JObj kvs)
  have "any_ok v" "utf8_valid k" if "(k, v) \<in> set (to_map (map (\<lambda>(k, v). (k, interface_value v)) kvs))" for k v
    using JObj that to_map_entries [of "map (\<lambda>(k, v). (k, interface_value v)) kvs"]
    by (fastforce simp: list_all_iff)+
  then show ?case using to_map_entries [of "map (\<lambda>(k, v). (k, interface_value v)) kvs"] by (auto simp: list_all_iff)
qed (auto simp: list_all_iff)

lemma interface_value_fits: "fits d v \<Longrightarrow> fits d (interface_value v)"
proof (induction v arbitrary: d)
  case (JArr js)
  then show ?case by (cases d) (auto simp: list_all_iff)
next
  case (JObj kvs)
  then obtain e where d: "d = Suc e" and f: "\<forall>(k, v) \<in> set kvs. fits e v" by (cases d) (auto simp: list_all_iff)
  have "fits e v" if "(k, v) \<in> set (to_map (map (\<lambda>(k, v). (k, interface_value v)) kvs))" for k v
    using JObj.IH that f to_map_entries [of "map (\<lambda>(k, v). (k, interface_value v)) kvs"]
    by (fastforce simp: list_all_iff)
  then show ?case by (auto simp: d list_all_iff)
qed auto

lemma any_ok_numbers: "any_ok v \<Longrightarrow> numbers_valid v"
  by (induction v) (fastforce simp: list_all_iff)+

section \<open>Order of members\<close>

lemma interface_value_id: "any_ok v \<Longrightarrow> interface_value v = v"
proof (induction v)
  case (JArr js)
  then show ?case by (auto simp: list_all_iff intro!: map_idI)
next
  case (JObj kvs)
  then have "map (\<lambda>(k, v). (k, interface_value v)) kvs = kvs" by (intro map_idI) (fastforce simp: list_all_iff)
  with JObj.prems show ?case by (simp add: to_map_distinct)
qed auto

lemma map_fst_pair: "map (fst \<circ> (\<lambda>(k, v). (k, f v))) kvs = map fst kvs"
  by (induction kvs) auto

lemma sort_members_ok: "any_ok v \<Longrightarrow> any_ok (sort_members v)"
proof (induction v)
  case (JObj kvs)
  have "any_ok (sort_members v) \<and> utf8_valid k" if "(k, v) \<in> set kvs" for k v
    using JObj that by (fastforce simp: list_all_iff)
  then show ?case using JObj.prems by (auto simp: list_all_iff distinct_map_sort_key map_fst_pair)
qed (auto simp: list_all_iff)

lemma sort_key_sorted: "sorted (map f xs) \<Longrightarrow> sort_key f xs = xs"
  by (induction xs) (auto simp: insort_is_Cons)

text \<open>Sorting the members first does not change what is written.\<close>

lemma print_sort_members: "print_json (sort_members v) = print_json v"
proof (induction v)
  case (JArr js)
  then show ?case by (simp cong: map_cong)
next
  case (JObj kvs)
  have s: "sort_key fst (sort_key fst (map (\<lambda>(k, v). (k, sort_members v)) kvs)) = sort_key fst (map (\<lambda>(k, v). (k, sort_members v)) kvs)"
    by (rule sort_key_sorted) simp
  have "map print_member (map (\<lambda>(k, v). (k, sort_members v)) (sort_key fst kvs)) = map print_member (sort_key fst kvs)"
    using JObj by (fastforce simp: print_member_def)
  then show ?case unfolding sort_members.simps print_json_object s by (simp only: sort_map_snd)
qed auto

lemma sort_members_idem: "sort_members (sort_members v) = sort_members v"
proof (induction v)
  case (JObj kvs)
  have "map (\<lambda>(k, v). (k, sort_members v)) (map (\<lambda>(k, v). (k, sort_members v)) kvs) = map (\<lambda>(k, v). (k, sort_members v)) kvs"
    using JObj by fastforce
  then show ?case by (simp only: sort_members.simps flip: sort_map_snd) (simp add: sort_key_sorted)
qed auto

lemma sort_members_fits: "fits d v \<Longrightarrow> fits d (sort_members v)"
proof (induction v arbitrary: d)
  case (JArr js)
  then show ?case by (cases d) (auto simp: list_all_iff)
next
  case (JObj kvs)
  then show ?case by (cases d) (fastforce simp: list_all_iff)+
qed auto

end
