(* ===== verification/Hash.thy ===== *)
theory Hash
  imports JsonRoundtrip
begin

text \<open>
  The request hash (\<open>internal/notification/hash.go\<close>): the payload is decoded as one JSON value,
  encoded canonically and hashed behind the destination's identifier.
\<close>

text \<open>The canonical text of the single value of a payload: lines 13 to 29 of \<open>RequestHash\<close>.\<close>

definition canonical :: "string \<Rightarrow> error + string" where
  "canonical payload =
     (case Decode payload (Sentinel EOF) of
        Inl err \<Rightarrow> Inl (Errorf ''decode payload'' [err])
      | Inr (v, rest) \<Rightarrow>
          (case Decode rest (Sentinel EOF) of
             Inr _ \<Rightarrow> Inl (Errorf ''decode trailing payload'' [New ''multiple JSON values''])
           | Inl err \<Rightarrow>
               if \<not> errors_is err EOF then Inl (Errorf ''decode trailing payload'' [err])
               else (case Marshal (interface_value v) of
                       Inl err \<Rightarrow> Inl (Errorf ''encode canonical payload'' [err])
                     | Inr text \<Rightarrow> Inr text)))"

definition hash_input :: "string \<Rightarrow> string \<Rightarrow> string" where
  "hash_input destinationID canon = destinationID @ [char_of (0 :: nat)] @ canon"

definition RequestHash :: "string \<Rightarrow> string \<Rightarrow> error + string" where
  "RequestHash destinationID payload =
     (case canonical payload of
        Inl err \<Rightarrow> Inl err
      | Inr canon \<Rightarrow> Inr (Sum256 (hash_input destinationID canon)))"

lemma length_RequestHash: "RequestHash i p = Inr h \<Longrightarrow> length h = 32"
  by (auto simp: RequestHash_def split: sum.splits)

text \<open>The zero byte separates the two parts, since no identifier contains it.\<close>

lemma hash_input_inject:
  assumes "char_of (0 :: nat) \<notin> set i" "char_of (0 :: nat) \<notin> set i'" "hash_input i c = hash_input i' c'"
  shows "i = i' \<and> c = c'"
  using assms
proof (induction i arbitrary: i')
  case Nil
  then show ?case by (cases i') (auto simp: hash_input_def)
next
  case (Cons x i)
  then show ?case by (cases i') (auto simp: hash_input_def)
qed

section \<open>Which payloads are the same request\<close>

text \<open>The value of a payload, its objects in the order of their names; none where the payload is refused.\<close>

definition payload_value :: "string \<Rightarrow> json option" where
  "payload_value payload =
     (case parse payload of
        Done v rest \<Rightarrow> if list_all is_space rest then Some (sort_members (interface_value v)) else None
      | _ \<Rightarrow> None)"

lemma next_byte_spaces: "list_all is_space s \<Longrightarrow> next_byte s f = More"
  by (induction s) auto

lemma next_byte_More: "next_byte s f = More \<Longrightarrow> (\<And>c r. f c r \<noteq> More) \<Longrightarrow> list_all is_space s"
  by (induction s) (auto split: if_splits)

lemma Decode_end: "Decode rest (Sentinel EOF) = Inl err \<Longrightarrow> errors_is err EOF \<Longrightarrow> list_all is_space rest"
  by (auto simp: Decode_def split: parsed.splits if_splits)

lemma Decode_spaces: "list_all is_space rest \<Longrightarrow> Decode rest (Sentinel EOF) = Inl (Sentinel EOF)"
  by (simp add: Decode_def parse_def next_byte_spaces)

text \<open>The canonical text is the encoding of the value, and every payload of one value has one.\<close>

lemma canonical_iff: "canonical payload = Inr c \<longleftrightarrow> (\<exists>v. payload_value payload = Some v \<and> c = print_json v)"
proof -
  have ok: "Marshal (interface_value v) = Inr (print_json (interface_value v))" if "parse payload = Done v rest" for v rest
    using parse_text_ok [OF that] by (simp add: Marshal_def interface_value_ok any_ok_numbers)
  show ?thesis
  proof (cases "\<exists>v rest. parse payload = Done v rest \<and> list_all is_space rest")
    case True
    then obtain v rest where p: "parse payload = Done v rest" "list_all is_space rest" by blast
    with ok [OF p(1)] show ?thesis
      by (auto simp: canonical_def payload_value_def Decode_def [of payload] Decode_spaces print_sort_members)
  next
    case False
    then have "payload_value payload = None" by (auto simp: payload_value_def split: parsed.splits)
    moreover have "canonical payload \<noteq> Inr c"
    proof (cases "parse payload")
      case (Done v rest)
      then have "Decode rest (Sentinel EOF) = Inl err \<Longrightarrow> \<not> errors_is err EOF" for err using False Decode_end by blast
      then show ?thesis using Done by (cases "Decode rest (Sentinel EOF)") (simp_all add: canonical_def Decode_def [of payload])
    qed (simp_all add: canonical_def Decode_def [of payload])
    ultimately show ?thesis by simp
  qed
qed

lemma payload_value_ok:
  assumes "payload_value payload = Some v"
  shows "any_ok v \<and> fits maxNestingDepth v \<and> sort_members v = v \<and> payload_value (print_json v) = Some v"
proof -
  obtain w where w: "text_ok w" "fits maxNestingDepth w" and v: "v = sort_members (interface_value w)"
    using assms parse_text_ok by (auto simp: payload_value_def split: parsed.splits if_splits)
  then have ok: "any_ok v" "fits maxNestingDepth v" "sort_members v = v"
    by (simp_all add: interface_value_ok sort_members_ok interface_value_fits sort_members_fits sort_members_idem)
  with parse_print [of v] interface_value_id [of v] show ?thesis by (simp add: payload_value_def)
qed

text \<open>
  Canonicalisation is a round trip: the canonical text of a payload is itself a valid payload, is
  its own canonical text, and has the payload's hash for every destination. A caller that resends
  what it was hashed as sends the same request.
\<close>

theorem canonical_roundtrip:
  assumes "canonical payload = Inr c"
  shows "canonical c = Inr c \<and> RequestHash i c = RequestHash i payload"
proof -
  obtain v where v: "payload_value payload = Some v" "c = print_json v" using assms canonical_iff by blast
  have "canonical c = Inr c" using canonical_iff v payload_value_ok [OF v(1)] by blast
  with assms show ?thesis by (simp add: RequestHash_def)
qed

text \<open>
  C18. Two requests are hashed alike exactly when they are the same: the texts that are hashed agree
  if and only if the destinations agree and the payloads have the same JSON value, whatever their
  spaces, escapes, order of members or overwritten members, and whatever HTML characters,
  control characters or surrogates they contain.
\<close>

theorem same_request_iff:
  assumes "canonical p = Inr c" "canonical p' = Inr c'" "char_of (0 :: nat) \<notin> set i" "char_of (0 :: nat) \<notin> set i'"
  shows "(hash_input i c = hash_input i' c' \<longleftrightarrow> i = i' \<and> payload_value p = payload_value p') \<and>
    (payload_value p = payload_value p' \<longrightarrow> RequestHash i p = RequestHash i p')"
proof -
  obtain v v' where v: "payload_value p = Some v" "c = print_json v" and v': "payload_value p' = Some v'" "c' = print_json v'"
    using assms(1,2) canonical_iff by blast
  have inj: "v = v'" if "c = c'"
  proof -
    have "Some v = Some v'" using payload_value_ok [OF v(1)] payload_value_ok [OF v'(1)] that v(2) v'(2) by metis
    then show ?thesis by simp
  qed
  have "hash_input i c = hash_input i' c' \<longleftrightarrow> i = i' \<and> v = v'"
    using hash_input_inject [OF assms(3,4), of c c'] inj v(2) v'(2) by blast
  moreover have "RequestHash i p = RequestHash i p'" if "v = v'"
    using that v(2) v'(2) assms(1,2) by (simp only: RequestHash_def sum.case)
  ultimately show ?thesis unfolding v(1) v'(1) option.inject by blast
qed

text \<open>Evaluation of the parser on a concrete text: the continuations stay as they are until they are applied.\<close>

lemma next_byte_weak_cong: "s = s' \<Longrightarrow> next_byte s f = next_byte s' f" by simp
lemma and_then_weak_cong: "p = p' \<Longrightarrow> and_then p f = and_then p' f" by simp

lemmas parse_numeral = parse_value.simps(2) [of "pred_numeral k" for k, folded numeral_eq_Suc]
  parse_elements.simps(2) [of "pred_numeral k" for k, folded numeral_eq_Suc]
  parse_members.simps(2) [of "pred_numeral k" for k, folded numeral_eq_Suc]

lemmas evaluate_text = payload_value_def parse_def parse_numeral is_space_def maxNestingDepth_def is_digit_def
  to_map_def scan_number_def scan_integer_def scan_fraction_def scan_exponent_def scan_digits_def Let_def

lemma unquote_plain: "list_all htmlSafe s \<Longrightarrow> unquote s = s"
proof (induction s)
  case (Cons c s)
  then have c: "htmlSafe c" "unquote s = s" by simp_all
  then have "byte c < 128" by (simp add: htmlSafe_def)
  from unquote_byte [OF this, of s] c show ?case by simp
qed (subst unquote.simps, simp)

lemma sample_values:
  "payload_value ''{}'' = Some (JObj [])" "payload_value '' {} '' = Some (JObj [])"
  by (simp_all add: evaluate_text cong: next_byte_weak_cong and_then_weak_cong)

abbreviation quoted :: "char \<Rightarrow> string" where
  "quoted c \<equiv> [CHR 0x22, c, CHR 0x22]"

definition sample_payload :: string where
  "sample_payload = ''{'' @ quoted CHR ''b'' @ '':1,'' @ quoted CHR ''a'' @ '':2}''"

definition sample_presentation :: string where
  "sample_presentation = '' { '' @ quoted CHR ''a'' @ '' : 2 , '' @ quoted CHR ''b'' @ '':1 } ''"

lemma presentations:
  "payload_value sample_payload = Some (JObj [(''a'', JNum ''2''), (''b'', JNum ''1'')])"
  "payload_value sample_presentation = Some (JObj [(''a'', JNum ''2''), (''b'', JNum ''1'')])"
  by (simp_all add: sample_payload_def sample_presentation_def evaluate_text unquote_plain htmlSafe_def
      cong: next_byte_weak_cong and_then_weak_cong)

lemma canonical_roundtrip_witness: "\<exists>c. canonical sample_payload = Inr c \<and> canonical c = Inr c"
proof -
  obtain c where c: "canonical sample_payload = Inr c" using canonical_iff presentations(1) by blast
  from canonical_roundtrip [OF c] c show ?thesis by blast
qed

lemma same_request_iff_witness:
  "RequestHash ''crm'' sample_payload = RequestHash ''crm'' sample_presentation \<and> sample_payload \<noteq> sample_presentation"
proof -
  obtain c c' where c: "canonical sample_payload = Inr c" "canonical sample_presentation = Inr c'"
    using canonical_iff presentations by blast
  have i: "char_of (0 :: nat) \<notin> set ''crm''" by (simp add: char_of_def)
  have "sample_payload \<noteq> sample_presentation" by (simp add: sample_payload_def sample_presentation_def)
  with same_request_iff [OF c i i] presentations show ?thesis by simp
qed

definition request_hash :: string where
  "request_hash = Sum256 (hash_input ''crm'' ''{}'')"

lemma sample_hashed: "RequestHash ''crm'' ''{}'' = Inr request_hash"
  using canonical_iff [of "''{}''" "''{}''"] sample_values(1) by (simp add: RequestHash_def request_hash_def)

end
