(* ===== verification/Intake.thy ===== *)
theory Intake
  imports Registry StoreInv Hash
begin

text \<open>
  Acceptance of a request: \<open>Create\<close> (\<open>internal/intake/service.go\<close>). The Repository interface
  of the service is the locale \<open>intake_repository\<close>, interpreted on the PostgreSQL store's \<open>CreateOrGet\<close>. \<open>Create\<close>
  takes the repository as an argument, as the Go service holds it in a field.
\<close>

section \<open>Create\<close>

definition new_task ::
  "destination \<Rightarrow> string \<Rightarrow> string \<Rightarrow> string \<Rightarrow> string \<Rightarrow> string \<Rightarrow> string \<Rightarrow> time \<Rightarrow> task" where
  "new_task target nid caller key destinationID payload hash now =
     (zero_task StatusPending)\<lparr>
       task_ID := nid, task_CallerID := caller, task_IdempotencyKey := key, task_RequestHash := hash,
       task_Snapshot :=
         \<lparr>snap_DestinationID = destinationID, snap_Method = dest_Method target,
          snap_URL = (case dest_URL target of None \<Rightarrow> [] | Some u \<Rightarrow> url_String u),
          snap_StaticHeaders = dest_StaticHeaders target,
          snap_SecretHeaders = map (\<lambda>(k, v). (k, v)) (dest_SecretHeaders target),
          snap_Body = payload, snap_Timeout = dest_Timeout target, snap_Retry = dest_Retry target,
          snap_ConcurrencyLimit = dest_ConcurrencyLimit target, snap_IdempotencyKey = key\<rparr>,
       task_CreatedAt := now, task_UpdatedAt := now\<rparr>"

definition new_event :: "string \<Rightarrow> string \<Rightarrow> time \<Rightarrow> outbox_event" where
  "new_event eventID nid now =
     \<lparr>event_ID = eventID, event_AggregateID = nid, event_Generation = 0,
      event_EventType = ''notification.ready'',
      event_Payload = [(''event_id'', eventID), (''notification_id'', nid)], event_CreatedAt = now,
      event_PublishedAt = None, event_ClaimToken = [], event_ClaimUntil = None, event_PublishAttempts = 0\<rparr>"

text \<open>
  \<open>Create\<close> returns the Go results (a task and whether it existed, or an error), the
  outcome passed to the observer, and the database after the call. \<open>newID\<close> is called
  twice: \<open>nid\<close> and \<open>eventID\<close> are its values.
\<close>

definition Create ::
  "(task \<Rightarrow> outbox_event \<Rightarrow> 'db \<Rightarrow> (error + task option) \<times> 'db) \<Rightarrow> registry
    \<Rightarrow> time \<Rightarrow> string \<Rightarrow> string \<Rightarrow> string \<Rightarrow> string \<Rightarrow> string \<Rightarrow> string \<Rightarrow> 'db
    \<Rightarrow> (error + task \<times> bool) \<times> string \<times> 'db" where
  "Create repository registry now nid eventID caller idempotencyKey destinationID payload d =
     (case Get registry destinationID of
        None \<Rightarrow> (Inl (Sentinel ErrUnknownDestination), ''unknown_destination'', d)
      | Some target \<Rightarrow>
     (case RequestHash destinationID payload of
        Inl err \<Rightarrow> (Inl (Errorf ''hash request'' [err]), ''invalid_payload'', d)
      | Inr hash \<Rightarrow>
          let t = new_task target nid caller idempotencyKey destinationID payload hash now;
              e = new_event eventID nid now
          in (case repository t e d of
                (Inl err, d') \<Rightarrow> (Inl err, ''internal_error'', d')
              | (Inr None, d') \<Rightarrow> (Inr (t, False), ''accepted'', d')
              | (Inr (Some existing), d') \<Rightarrow>
                  if task_RequestHash existing \<noteq> hash
                  then (Inl (Sentinel ErrIdempotencyConflict), ''idempotency_conflict'', d')
                  else (Inr (existing, True), ''accepted'', d'))))"

lemma new_task_sel [simp]:
  "task_ID (new_task target nid caller key dst payload hash now) = nid"
  "task_CallerID (new_task target nid caller key dst payload hash now) = caller"
  "task_IdempotencyKey (new_task target nid caller key dst payload hash now) = key"
  "task_RequestHash (new_task target nid caller key dst payload hash now) = hash"
  "task_Status (new_task target nid caller key dst payload hash now) = StatusPending"
  "task_Generation (new_task target nid caller key dst payload hash now) = 0"
  "task_AttemptCount (new_task target nid caller key dst payload hash now) = 0"
  by (simp_all add: new_task_def zero_task_def)

lemma new_pair_initial: "initial_pair (new_task target nid caller key dst payload hash now) (new_event eventID nid now)"
  by (simp add: initial_pair_def new_event_def)

section \<open>The Repository interface\<close>

text \<open>
  \<open>stored d (caller, key)\<close> is what a repository in state \<open>d\<close> holds under a caller and a
  key: an identifier, a hash and a status. A creation stores the new task where nothing was
  stored; a returned task is the stored one.
\<close>

locale intake_repository =
  fixes create_or_get :: "task \<Rightarrow> outbox_event \<Rightarrow> 'db \<Rightarrow> (error + task option) \<times> 'db"
    and stored :: "'db \<Rightarrow> string \<times> string \<Rightarrow> (string \<times> string \<times> status) option"
  assumes created:
      "create_or_get t e d = (Inr None, d') \<Longrightarrow>
       stored d (task_CallerID t, task_IdempotencyKey t) = None \<and>
       stored d' (task_CallerID t, task_IdempotencyKey t) = Some (task_ID t, take 32 (task_RequestHash t), task_Status t)"
    and found:
      "create_or_get t e d = (Inr (Some x), d') \<Longrightarrow>
       stored d' (task_CallerID t, task_IdempotencyKey t) = Some (task_ID x, task_RequestHash x, task_Status x)"
begin

lemma accepted_is_stored:
  assumes "Create create_or_get registry now nid eventID caller key dst payload d = (Inr (t, existed), obs, d')"
  shows "obs = ''accepted'' \<and>
    (\<exists>hash. RequestHash dst payload = Inr hash \<and> stored d' (caller, key) = Some (task_ID t, hash, task_Status t))"
  using assms length_RequestHash [of dst payload]
  by (auto simp: Create_def Let_def split: option.splits sum.splits prod.splits if_splits
      dest!: created found)

lemma new_only_if_absent:
  assumes "Create create_or_get registry now nid eventID caller key dst payload d = (Inr (t, False), obs, d')"
  shows "stored d (caller, key) = None \<and> task_ID t = nid"
  using assms
  by (auto simp: Create_def Let_def split: option.splits sum.splits prod.splits if_splits dest!: created)

lemma repeated_key:
  assumes "Create create_or_get registry now nid eventID caller key dst payload d = (res, obs, d')"
    and "stored d (caller, key) = Some (i, h, s)" "stored d' (caller, key) = Some (i, h, s)"
    and "RequestHash dst payload = Inr hash"
  shows "case res of
      Inr (t, existed) \<Rightarrow> h = hash \<and> existed \<and> task_ID t = i \<and> task_Status t = s
    | Inl err \<Rightarrow> obs = ''idempotency_conflict'' \<longrightarrow> h \<noteq> hash \<and> err = Sentinel ErrIdempotencyConflict"
  using assms
  by (auto simp: Create_def Let_def split: option.splits sum.splits prod.splits if_splits
      dest!: created found)

end

section \<open>The store provides the interface\<close>

definition stored_task :: "db \<Rightarrow> string \<times> string \<Rightarrow> (string \<times> string \<times> status) option" where
  "stored_task d ck =
     map_option (\<lambda>r. (r_id r, take 32 (r_request_hash r @ replicate 32 (char_of (0 :: nat))), r_status r))
       (lookup_by row_key (notification_tasks d) ck)"

lemma CreateOrGet_new:
  assumes "CreateOrGet jsonb tf between getft t e d = (Inr None, d')"
  shows "create_tx jsonb t e tf d = Inr d'"
  using assms WithTx_None [of tf "create_tx jsonb t e" d]
  by (auto simp: CreateOrGet_def split: prod.splits option.splits sum.splits if_splits)

lemma task_row_ok_hash: "task_row_ok r \<Longrightarrow> length (r_request_hash r) = 32"
  by (simp add: task_row_ok_def)

lemma CreateOrGet_created:
  assumes "CreateOrGet jsonb tf between getft t e d = (Inr None, d')"
  shows "stored_task d (task_CallerID t, task_IdempotencyKey t) = None \<and>
    stored_task d' (task_CallerID t, task_IdempotencyKey t) = Some (task_ID t, take 32 (task_RequestHash t), task_Status t)"
proof -
  from CreateOrGet_new [OF assms] obtain body where
    new: "task_row_ok (row_of_task body t)"
      "(task_CallerID t, task_IdempotencyKey t) \<notin> row_key ` set (notification_tasks d)"
    and d': "notification_tasks d' = notification_tasks d @ [row_of_task body t]"
    by (rule create_tx_Inr) auto
  from new(2) have "lookup_by row_key (notification_tasks d) (task_CallerID t, task_IdempotencyKey t) = None"
    by (simp add: lookup_by_None_iff)
  with task_row_ok_hash [OF new(1)] d' show ?thesis by (simp add: stored_task_def lookup_by_append)
qed

lemma CreateOrGet_found:
  assumes "CreateOrGet jsonb tf between getft t e d = (Inr (Some x), d')"
  shows "stored_task d' (task_CallerID t, task_IdempotencyKey t) = Some (task_ID x, task_RequestHash x, task_Status x)"
  using assms
  by (auto simp: CreateOrGet_def GetByCallerAndKey_def stored_task_def zero_task_def
      split: prod.splits option.splits sum.splits if_splits)

interpretation pg_intake: intake_repository "CreateOrGet jsonb tf between getft" stored_task
  for jsonb tf between getft
  by unfold_locales (simp_all add: CreateOrGet_created CreateOrGet_found)

section \<open>Guarantees\<close>

text \<open>What one request would store.\<close>

definition request_row :: "string \<Rightarrow> destination \<Rightarrow> string \<Rightarrow> string \<Rightarrow> string \<Rightarrow> string \<Rightarrow> string \<Rightarrow> string \<Rightarrow> time \<Rightarrow> task_row" where
  "request_row body target nid caller key dst payload hash now =
     row_of_task body (new_task target nid caller key dst payload hash now)"

lemma request_row_sel [simp]:
  "r_id (request_row body target nid caller key dst payload hash now) = nid"
  "r_caller_id (request_row body target nid caller key dst payload hash now) = caller"
  "r_idempotency_key (request_row body target nid caller key dst payload hash now) = key"
  by (simp_all add: request_row_def)

lemma new_task_Body [simp]: "snap_Body (task_Snapshot (new_task target nid caller key dst payload hash now)) = payload"
  by (simp add: new_task_def)

text \<open>
  C17. A request under a key that is already used is decided by its hash: the same request gets
  the stored task's identifier and status back, a different one the conflict error, and in
  both cases nothing is stored, so the caller may retry as often as it likes.
\<close>

theorem create_repeated_key:
  assumes "stored_task d (caller, key) = Some (i, h, st)"
    and "Get registry dst = Some target" "RequestHash dst payload = Inr hash" "jsonb payload = Some body"
    and "task_row_ok (request_row body target nid caller key dst payload hash now)"
    and "nid \<notin> r_id ` set (notification_tasks d)"
  shows "\<exists>t. task_ID t = i \<and> task_Status t = st \<and>
    Create (CreateOrGet jsonb no_faults (\<lambda>x. x) Completed) registry now nid eventID caller key dst payload d =
      (if h = hash then (Inr (t, True), ''accepted'', d)
       else (Inl (Sentinel ErrIdempotencyConflict), ''idempotency_conflict'', d))"
proof -
  let ?t = "new_task target nid caller key dst payload hash now" and ?e = "new_event eventID nid now"
  from assms(1) obtain r where r: "lookup_by row_key (notification_tasks d) (caller, key) = Some r"
    and s: "r_id r = i" "take 32 (r_request_hash r @ replicate 32 (char_of (0 :: nat))) = h" "r_status r = st"
    by (auto simp: stored_task_def)
  then have used: "(caller, key) \<in> row_key ` set (notification_tasks d)" by (force dest: lookup_by_SomeD)
  then have "insert_task (row_of_task body ?t) d = Inl (PgError ''notification_tasks_caller_id_idempotency_key_key'')"
    using assms(5,6) by (simp add: insert_task_def request_row_def)
  then have "WithTx no_faults (create_tx jsonb ?t ?e) d = (Some (Sentinel PgErrIdempotencyConflict), d)"
    using assms(4) by (simp add: WithTx_def create_tx_def CreateNotification_def no_faults_def stmt_fault_def)
  then obtain x where "CreateOrGet jsonb no_faults (\<lambda>x. x) Completed ?t ?e d = (Inr (Some x), d)"
    "task_ID x = i" "task_Status x = st" "task_RequestHash x = h"
    using r s by (auto simp: CreateOrGet_def GetByCallerAndKey_def zero_task_def)
  then show ?thesis using assms(2,3) by (intro exI [of _ x]) (simp add: Create_def)
qed

text \<open>
  C16. A request under an unused key is accepted: without faults the task it describes and the
  first event are stored, pending with no attempt, under the identifier that is returned.
\<close>

theorem create_first_request:
  assumes "db_wf d" "stored_task d (caller, key) = None"
    and "Get registry dst = Some target" "RequestHash dst payload = Inr hash" "jsonb payload = Some body"
    and "task_row_ok (request_row body target nid caller key dst payload hash now)"
    and "nid \<notin> r_id ` set (notification_tasks d)" "text_between 1 64 eventID" "eventID \<notin> o_id ` set (outbox_events d)"
  shows "\<exists>t d'. Create (CreateOrGet jsonb no_faults (\<lambda>x. x) Completed) registry now nid eventID caller key dst payload d =
      (Inr (t, False), ''accepted'', d') \<and> task_ID t = nid \<and> db_wf d' \<and>
    task_of d' nid = Some (request_row body target nid caller key dst payload hash now) \<and>
    stored_task d' (caller, key) = Some (nid, hash, StatusPending) \<and>
    (\<exists>e. event_of d' eventID = Some e \<and> event_key e = (nid, 0) \<and> o_published_at e = None)"
proof -
  let ?t = "new_task target nid caller key dst payload hash now" and ?e = "new_event eventID nid now"
  let ?d' = "with_pair body ?t ?e d"
  have free: "(caller, key) \<notin> row_key ` set (notification_tasks d)"
    using assms(2) by (simp add: stored_task_def lookup_by_None_iff)
  have "text_between 1 128 ''notification.ready''" by (rule ascii_text_between) (simp_all add: ascii_def)
  then have eok: "outbox_row_ok (row_of_event ?e)"
    using assms(8) by (simp add: outbox_row_ok_def row_of_event_def new_event_def int4_def)
  have owners: "o_aggregate_id ` set (outbox_events d) \<subseteq> r_id ` set (notification_tasks d)"
    using assms(1) by (simp add: db_wf_def keys_wf_def)
  with assms(7) have gens: "event_key (row_of_event ?e) \<notin> event_key ` set (outbox_events d)"
    by (auto simp: new_event_def)
  have "insert_task (row_of_task body ?t) d = Inr (d\<lparr>notification_tasks := notification_tasks d @ [row_of_task body ?t]\<rparr>)"
    using assms(6,7) free by (simp add: insert_task_Inr request_row_def)
  moreover have "insert_outbox (row_of_event ?e) (d\<lparr>notification_tasks := notification_tasks d @ [row_of_task body ?t]\<rparr>) = Inr ?d'"
    using eok assms(9) gens by (simp add: insert_outbox_Inr with_pair_def new_event_def)
  ultimately have tx: "create_tx jsonb ?t ?e no_faults d = Inr ?d'"
    using assms(5) by (simp add: create_tx_def CreateNotification_def InsertOutbox_def no_faults_def stmt_fault_def)
  then have c: "CreateOrGet jsonb no_faults (\<lambda>x. x) Completed ?t ?e d = (Inr None, ?d')"
    by (simp add: CreateOrGet_def WithTx_def) (simp add: no_faults_def)
  have "Create (CreateOrGet jsonb no_faults (\<lambda>x. x) Completed) registry now nid eventID caller key dst payload d =
      (Inr (?t, False), ''accepted'', ?d')"
    using assms(3,4) c by (simp add: Create_def Let_def)
  moreover have "db_wf ?d'" by (rule create_tx_wf [OF assms(1) new_pair_initial tx])
  moreover have "lookup_by r_id (notification_tasks d) nid = None" using assms(7) by (simp add: lookup_by_None_iff)
  then have "task_of ?d' nid = Some (request_row body target nid caller key dst payload hash now)"
    by (simp add: with_pair_def lookup_by_append request_row_def)
  moreover have "lookup_by row_key (notification_tasks d) (caller, key) = None" using free by (simp add: lookup_by_None_iff)
  then have "stored_task ?d' (caller, key) = Some (nid, hash, StatusPending)"
    using length_RequestHash [OF assms(4)] by (simp add: stored_task_def with_pair_def lookup_by_append)
  moreover have "lookup_by o_id (outbox_events d) eventID = None" using assms(9) by (simp add: lookup_by_None_iff)
  then have "event_of ?d' eventID = Some (row_of_event ?e)" by (simp add: with_pair_def lookup_by_append new_event_def)
  then have "\<exists>e. event_of ?d' eventID = Some e \<and> event_key e = (nid, 0) \<and> o_published_at e = None"
    by (simp add: new_event_def)
  ultimately show ?thesis by (intro exI [of _ ?t] exI [of _ ?d']) simp
qed

text \<open>
  Whatever faults occur and whatever other sessions do meanwhile, a request that is answered
  with a task is stored: under its caller and key the database holds a task of that identifier
  and status whose hash is the hash of this very request. A task reported as new was stored by
  this call under the identifier drawn for it.
\<close>

theorem create_accepted_stored:
  assumes "Create (CreateOrGet jsonb tf between getft) registry now nid eventID caller key dst payload d
    = (Inr (t, existed), obs, d')"
  shows "obs = ''accepted'' \<and>
    (\<exists>hash. RequestHash dst payload = Inr hash \<and> stored_task d' (caller, key) = Some (task_ID t, hash, task_Status t)) \<and>
    (existed \<or> stored_task d (caller, key) = None \<and> task_ID t = nid)"
  using pg_intake.accepted_is_stored [OF assms] pg_intake.new_only_if_absent [of _ _ _ _ registry now nid eventID caller key dst payload d t obs d'] assms
  by (cases existed) auto

section \<open>Witnesses\<close>

definition sample_target :: destination where
  "sample_target =
     \<lparr>dest_ID = ''crm'', dest_Method = ''POST'',
      dest_URL = Some \<lparr>url_Scheme = ''https'', url_Hostname = ''crm.example'', url_Host = ''crm.example'', url_User = False,
        url_Fragment = [], url_String = ''https://crm.example/hook''\<rparr>,
      dest_StaticHeaders = [(''Content-Type'', [''application/json''])],
      dest_SecretHeaders = [(''Authorization'', ''CRM_TOKEN'')], dest_Timeout = 5 * Second,
      dest_Retry = sample_policy, dest_ConcurrencyLimit = 4\<rparr>"

definition sample_registry :: registry where
  "sample_registry = [(''crm'', sample_target)]"

lemma sample_registered: "Get sample_registry ''crm'' = Some sample_target"
  by (simp add: Get_def sample_registry_def)

lemma sample_request_row_ok:
  assumes "text_between (Suc 0) 64 nid"
  shows "task_row_ok (request_row ''{}'' sample_target nid ''billing'' ''order-7'' ''crm'' ''{}'' request_hash now)"
  using assms length_RequestHash [OF sample_hashed]
  by (simp add: task_row_ok_def request_row_def row_of_task_def new_task_def zero_task_def sample_target_def
      sample_policy_def sample_texts int64_def int4_def opt_text_def duration_units)

lemma sample_first:
  "\<exists>t d'. Create (CreateOrGet Some no_faults (\<lambda>x. x) Completed) sample_registry 0 ''n1'' ''e1'' ''billing'' ''order-7'' ''crm'' ''{}''
       empty_db = (Inr (t, False), ''accepted'', d') \<and> db_wf d' \<and>
     task_of d' ''n1'' = Some (request_row ''{}'' sample_target ''n1'' ''billing'' ''order-7'' ''crm'' ''{}'' request_hash 0)"
proof -
  let ?t = "new_task sample_target ''n1'' ''billing'' ''order-7'' ''crm'' ''{}'' request_hash 0" and ?e = "new_event ''e1'' ''n1'' 0"
  have "task_row_ok (row_of_task ''{}'' ?t)"
    using sample_request_row_ok [of "''n1''"] by (simp add: request_row_def sample_texts)
  moreover have "outbox_row_ok (row_of_event ?e)"
    by (simp add: outbox_row_ok_def row_of_event_def new_event_def sample_texts int4_def)
  ultimately have tx: "create_tx Some ?t ?e no_faults empty_db = Inr (with_pair ''{}'' ?t ?e empty_db)"
    by (simp add: create_tx_def CreateNotification_def InsertOutbox_def no_faults_def stmt_fault_def insert_task_def
        insert_outbox_def empty_db_def with_pair_def new_event_def)
  then have "CreateOrGet Some no_faults (\<lambda>x. x) Completed ?t ?e empty_db = (Inr None, with_pair ''{}'' ?t ?e empty_db)"
    by (simp add: CreateOrGet_def WithTx_def) (simp add: no_faults_def)
  moreover have "db_wf (with_pair ''{}'' ?t ?e empty_db)" by (rule create_tx_wf [OF empty_db_wf new_pair_initial tx])
  ultimately show ?thesis
    by (simp add: Create_def sample_registered sample_hashed Let_def)
      (simp add: with_pair_def empty_db_def request_row_def)
qed

lemma create_first_request_witness:
  "\<exists>t d'. Create (CreateOrGet Some no_faults (\<lambda>x. x) Completed) sample_registry 0 ''n1'' ''e1'' ''billing'' ''order-7'' ''crm'' ''{}''
       empty_db = (Inr (t, False), ''accepted'', d') \<and> stored_task d' (''billing'', ''order-7'') = Some (''n1'', request_hash, StatusPending)"
proof -
  have "stored_task empty_db (''billing'', ''order-7'') = None" "''n1'' \<notin> r_id ` set (notification_tasks empty_db)"
    "''e1'' \<notin> o_id ` set (outbox_events empty_db)"
    by (simp_all add: stored_task_def empty_db_def)
  with create_first_request [OF empty_db_wf this(1) sample_registered sample_hashed, where jsonb = Some and body = "''{}''" and
      nid = "''n1''" and now = 0 and eventID = "''e1''", OF _ sample_request_row_ok]
  show ?thesis by (auto simp: sample_texts)
qed

lemma create_repeated_key_witness:
  "\<exists>d t. stored_task d (''billing'', ''order-7'') = Some (''n1'', request_hash, StatusPending) \<and> task_ID t = ''n1'' \<and>
     Create (CreateOrGet Some no_faults (\<lambda>x. x) Completed) sample_registry 5 ''n2'' ''e2'' ''billing'' ''order-7'' ''crm'' ''{}'' d =
       (Inr (t, True), ''accepted'', d)"
proof -
  let ?r = "(sample_row StatusPending)\<lparr>r_request_hash := request_hash\<rparr>"
  let ?d = "\<lparr>notification_tasks = [?r], outbox_events = [sample_event None None]\<rparr>"
  have s: "stored_task ?d (''billing'', ''order-7'') = Some (''n1'', request_hash, StatusPending)"
    using length_RequestHash [OF sample_hashed] by (simp add: stored_task_def)
  have n: "text_between (Suc 0) 64 ''n2''" by (rule ascii_text_between) (simp_all add: ascii_def)
  have "''n2'' \<notin> r_id ` set (notification_tasks ?d)" by simp
  from create_repeated_key [OF s sample_registered sample_hashed, where jsonb = Some, OF refl sample_request_row_ok [OF n] this,
      of 5 "''e2''"] s
  show ?thesis by auto
qed

lemma create_accepted_stored_witness:
  "\<exists>t d' hash. Create (CreateOrGet Some no_faults (\<lambda>x. x) Completed) sample_registry 0 ''n1'' ''e1'' ''billing'' ''order-7'' ''crm'' ''{}''
       empty_db = (Inr (t, False), ''accepted'', d') \<and> stored_task d' (''billing'', ''order-7'') = Some (''n1'', hash, task_Status t)"
proof -
  from sample_first obtain t d' where c: "Create (CreateOrGet Some no_faults (\<lambda>x. x) Completed) sample_registry 0 ''n1'' ''e1'' ''billing''
      ''order-7'' ''crm'' ''{}'' empty_db = (Inr (t, False), ''accepted'', d')" by blast
  from create_accepted_stored [OF c] c show ?thesis by auto
qed

end
