(* ===== verification/Footprint.thy ===== *)
theory Footprint
  imports Evolve Intake
begin

text \<open>
  What one call of the store may do to the identifiers, the outbox events and their claims, and
  to the tasks. \<open>footprint X T M R d d'\<close> bounds a step from \<open>d\<close> to \<open>d'\<close>: new tasks have an
  identifier in \<open>X\<close>, new claim tokens of events are in \<open>T\<close>, only the events in \<open>M\<close> (an
  identifier and the token it was claimed under) become published, and only tasks in \<open>R\<close> leave
  the dead state. It is the interface between the store and the invariants of the system: each
  operation has one lemma here, and the invariants use nothing else of it.
\<close>

definition event_kept :: "string set \<Rightarrow> (string \<times> string) set \<Rightarrow> outbox_row \<Rightarrow> outbox_row \<Rightarrow> bool" where
  "event_kept T M e e' \<longleftrightarrow>
     o_id e' = o_id e \<and> event_key e' = event_key e \<and>
     (o_claim_token e' = o_claim_token e \<or> o_claim_token e' = None \<or> o_claim_token e' \<in> Some ` T) \<and>
     (o_published_at e' = o_published_at e \<or>
      o_published_at e' \<noteq> None \<and> (\<exists>tok. o_claim_token e = Some tok \<and> (o_id e, tok) \<in> M))"

definition event_new :: "db \<Rightarrow> outbox_row \<Rightarrow> bool" where
  "event_new d e' \<longleftrightarrow>
     o_published_at e' = None \<and> o_claim_token e' = None \<and> o_id e' \<notin> o_id ` set (outbox_events d)"

definition footprint ::
  "string set \<Rightarrow> string set \<Rightarrow> (string \<times> string) set \<Rightarrow> string set \<Rightarrow> db \<Rightarrow> db \<Rightarrow> bool" where
  "footprint X T M R d d' \<longleftrightarrow>
     db_wf d' \<and> evolves R d d' \<and>
     r_id ` set (notification_tasks d') \<subseteq> r_id ` set (notification_tasks d) \<union> X \<and>
     (\<forall>e' \<in> set (outbox_events d'). (\<exists>e \<in> set (outbox_events d). event_kept T M e e') \<or> event_new d e') \<and>
     (\<forall>e \<in> set (outbox_events d). o_aggregate_id e \<in> r_id ` set (notification_tasks d') \<longrightarrow>
        (\<exists>e' \<in> set (outbox_events d'). o_id e' = o_id e \<and> event_key e' = event_key e))"

lemma event_kept_refl [simp]: "event_kept T M e e"
  by (simp add: event_kept_def)

lemma footprint_refl: "db_wf d \<Longrightarrow> footprint X T M R d d"
  by (auto simp: footprint_def intro: event_kept_refl)

text \<open>A step that leaves the events alone, and one that leaves the tasks alone.\<close>

lemma footprint_tasks:
  assumes "db_wf d'" "evolves R d d'" "outbox_events d' = outbox_events d"
    "r_id ` set (notification_tasks d') = r_id ` set (notification_tasks d)"
  shows "footprint X T M R d d'"
  using assms by (auto simp: footprint_def intro: event_kept_refl)

lemma footprint_events:
  assumes wf: "db_wf (d\<lparr>outbox_events := update_where p f (outbox_events d)\<rparr>)"
    and kept: "\<And>e. e \<in> set (outbox_events d) \<Longrightarrow> p e \<Longrightarrow> event_kept T M e (f e)"
  shows "footprint X T M R d (d\<lparr>outbox_events := update_where p f (outbox_events d)\<rparr>)"
  unfolding footprint_def
proof (intro conjI ballI impI)
  fix e' assume "e' \<in> set (outbox_events (d\<lparr>outbox_events := update_where p f (outbox_events d)\<rparr>))"
  then obtain e where "e \<in> set (outbox_events d)" "e' = (if p e then f e else e)" by (auto simp: set_update_where)
  then show "(\<exists>e \<in> set (outbox_events d). event_kept T M e e') \<or> event_new d e'"
    using kept by (intro disjI1 bexI [of _ e]) auto
next
  fix e assume e: "e \<in> set (outbox_events d)"
  then have "(if p e then f e else e) \<in> set (update_where p f (outbox_events d))" by (auto simp: set_update_where)
  moreover have "o_id (if p e then f e else e) = o_id e \<and> event_key (if p e then f e else e) = event_key e"
    using kept [OF e] by (auto simp: event_kept_def)
  ultimately show "\<exists>e' \<in> set (outbox_events (d\<lparr>outbox_events := update_where p f (outbox_events d)\<rparr>)).
      o_id e' = o_id e \<and> event_key e' = event_key e" by auto
qed (use wf in \<open>auto simp: evolves_same_tasks\<close>)

text \<open>A step that updates tasks and appends new events.\<close>

lemma footprint_append:
  assumes "db_wf d'" "evolves R d d'" "r_id ` set (notification_tasks d') \<subseteq> r_id ` set (notification_tasks d) \<union> X"
    and "outbox_events d' = outbox_events d @ es" "\<forall>e \<in> set es. event_new d e"
  shows "footprint X T M R d d'"
  using assms by (auto simp: footprint_def intro: event_kept_refl)

section \<open>The operations\<close>

lemma CreateOrGet_footprint:
  assumes wf: "db_wf d" and init: "initial_pair t e"
  shows "footprint {task_ID t} T M R d (snd (CreateOrGet jsonb tf (\<lambda>x. x) getft t e d))"
proof -
  obtain body where "snd (CreateOrGet jsonb tf (\<lambda>x. x) getft t e d) = d \<or>
      create_tx jsonb t e tf d = Inr (snd (CreateOrGet jsonb tf (\<lambda>x. x) getft t e d))"
    using CreateOrGet_db [of jsonb tf "\<lambda>x. x" getft t e d] WithTx_cases [of tf "create_tx jsonb t e" d] by metis
  then show ?thesis
  proof
    assume tx: "create_tx jsonb t e tf d = Inr (snd (CreateOrGet jsonb tf (\<lambda>x. x) getft t e d))" (is "_ = Inr ?d'")
    obtain body where "event_ID e \<notin> o_id ` set (outbox_events d)"
      and d': "?d' = \<lparr>notification_tasks = notification_tasks d @ [row_of_task body t],
           outbox_events = outbox_events d @ [row_of_event e]\<rparr>"
      using create_tx_Inr [OF tx] by metis
    then have "\<forall>q \<in> set [row_of_event e]. event_new d q" by (simp add: event_new_def row_of_event_def)
    moreover have "r_id ` set (notification_tasks ?d') \<subseteq> r_id ` set (notification_tasks d) \<union> {task_ID t}"
      and "outbox_events ?d' = outbox_events d @ [row_of_event e]"
      unfolding d' by auto
    ultimately show ?thesis
      using create_tx_wf [OF wf init tx] create_tx_evolves [OF init tx] by (intro footprint_append)
  qed (use wf in \<open>simp add: footprint_refl\<close>)
qed

lemma Create_footprint:
  assumes "db_wf d"
  shows "footprint {nid} T M R d
    (snd (snd (Create (CreateOrGet jsonb tf (\<lambda>x. x) getft) registry now nid eventID caller key dst payload d)))"
proof (cases "Get registry dst")
  case None
  then show ?thesis using assms by (simp add: Create_def footprint_refl)
next
  case (Some target)
  show ?thesis
  proof (cases "RequestHash dst payload")
    case (Inl err)
    then show ?thesis using assms Some by (simp add: Create_def footprint_refl)
  next
    case (Inr hash)
    let ?t = "new_task target nid caller key dst payload hash now" and ?e = "new_event eventID nid now"
    have "snd (snd (Create (CreateOrGet jsonb tf (\<lambda>x. x) getft) registry now nid eventID caller key dst payload d)) =
        snd (CreateOrGet jsonb tf (\<lambda>x. x) getft ?t ?e d)"
      using Some Inr by (auto simp: Create_def Let_def split: prod.splits sum.splits option.splits)
    then show ?thesis using CreateOrGet_footprint [OF assms new_pair_initial] by simp
  qed
qed

lemma ClaimOutbox_footprint:
  assumes "db_wf d"
  shows "footprint X {token} M R d (snd (ClaimOutbox ft locked returning now limit token until d))"
  using sql_update_cases [of ft outbox_row_ok "\<lambda>e. o_id e \<in> set (map o_id (outbox_candidates locked now limit d))"
      "claim_event token until" "outbox_events d"]
proof
  assume "snd (sql_update ft outbox_row_ok (\<lambda>e. o_id e \<in> set (map o_id (outbox_candidates locked now limit d)))
      (claim_event token until) (outbox_events d)) = outbox_events d"
  then show ?thesis using assms unfolding ClaimOutbox_db by (simp add: footprint_refl)
next
  let ?p = "\<lambda>e. o_id e \<in> set (map o_id (outbox_candidates locked now limit d))"
  assume u: "snd (sql_update ft outbox_row_ok ?p (claim_event token until) (outbox_events d)) =
        update_where ?p (claim_event token until) (outbox_events d) \<and>
      (\<forall>r \<in> set (outbox_events d). ?p r \<longrightarrow> outbox_row_ok (claim_event token until r))"
  have "db_wf (snd (ClaimOutbox ft locked returning now limit token until d))" using assms by (rule ClaimOutbox_wf)
  then show ?thesis unfolding ClaimOutbox_db u [THEN conjunct1]
    by (rule footprint_events) (simp add: event_kept_def claim_event_def)
qed

lemma MarkPublished_footprint:
  assumes "db_wf d"
  shows "footprint X T {(i, token)} R d (snd (MarkPublished ft i token at d))"
proof -
  let ?p = "\<lambda>e. o_id e = i \<and> o_claim_token e = Some token \<and> o_published_at e = None"
  let ?f = "\<lambda>e. e\<lparr>o_published_at := Some at, o_claim_token := None, o_claim_until := None\<rparr>"
  have wf: "db_wf (snd (MarkPublished ft i token at d))" using assms by (rule MarkPublished_wf)
  from sql_update_cases [of ft outbox_row_ok ?p ?f "outbox_events d"]
  show ?thesis
  proof
    assume "snd (sql_update ft outbox_row_ok ?p ?f (outbox_events d)) = outbox_events d"
    then show ?thesis using assms unfolding MarkPublished_db by (simp add: footprint_refl)
  next
    assume u: "snd (sql_update ft outbox_row_ok ?p ?f (outbox_events d)) = update_where ?p ?f (outbox_events d) \<and>
      (\<forall>r \<in> set (outbox_events d). ?p r \<longrightarrow> outbox_row_ok (?f r))"
    from wf show ?thesis unfolding MarkPublished_db u [THEN conjunct1]
      by (rule footprint_events) (simp add: event_kept_def)
  qed
qed

lemma sql_update_ids:
  "(\<And>r. r_id (f r) = r_id r) \<Longrightarrow>
   r_id ` set (snd (sql_update ft ok p f rs)) = r_id ` set rs"
  using sql_update_cases [of ft ok p f rs] image_update_where [of r_id f p rs] by metis

lemma ClaimDelivery_footprint: "db_wf d \<Longrightarrow> footprint X T M R d (snd (ClaimDelivery ft dbnow i l u d))"
  using ClaimDelivery_wf [of d ft dbnow i l u] ClaimDelivery_evolves [of R d ft dbnow i l u]
  by (intro footprint_tasks) (simp_all add: ClaimDelivery_db sql_update_ids)

lemma ApplyDeliveryResult_footprint:
  "db_wf d \<Longrightarrow> result_ok a \<Longrightarrow> footprint X T M R d (snd (ApplyDeliveryResult ft i l a d))"
  using ApplyDeliveryResult_wf [of d a ft i l] ApplyDeliveryResult_evolves [of R d ft i l a]
  by (intro footprint_tasks) (simp_all add: ApplyDeliveryResult_db sql_update_ids)

lemma appended_new:
  assumes "db_wf d'" "outbox_events d' = outbox_events d @ es" "\<forall>e \<in> set es. o_published_at e = None \<and> o_claim_token e = None"
  shows "\<forall>e \<in> set es. event_new d e"
  using db_wf_event_ids [OF assms(1)] assms(2,3) by (fastforce simp: event_new_def)

lemma ScheduleDue_footprint:
  assumes "db_wf d"
  shows "footprint X T M R d (snd (ScheduleDue tf locked now limit d))"
proof -
  obtain res err d' where c: "ScheduleDue tf locked now limit d = ((res, err), d')" by (metis prod.exhaust)
  note wf = ScheduleDue_effect(1) [OF assms c]
  from ScheduleDue_effect(2) [OF assms c] show ?thesis
  proof
    assume d': "d' = schedule_batch locked now limit d"
    let ?c = "due_candidates locked now limit d"
    have ev: "outbox_events d' = outbox_events d @ scheduled_events now ?c"
      and "r_id ` set (notification_tasks d') \<subseteq> r_id ` set (notification_tasks d) \<union> X"
      using image_update_where [of r_id "scheduled_row now"]
      by (auto simp: d' schedule_batch_def Let_def)
    moreover have "\<forall>e \<in> set (scheduled_events now ?c). o_published_at e = None \<and> o_claim_token e = None"
      by (auto simp: scheduled_events_def scheduled_event_def retry_event_def)
    ultimately show ?thesis
      using wf ScheduleDue_evolves [OF assms, of R tf locked now limit] appended_new [OF wf ev]
      by (simp add: c footprint_append)
  qed (use assms c in \<open>simp add: footprint_refl\<close>)
qed

lemma ReplayDeadAtomic_footprint:
  assumes "db_wf d"
  shows "footprint X T M (if snd (ReplayDeadAtomic tf nid now eventID d) = d then {} else {nid}) d
           (snd (ReplayDeadAtomic tf nid now eventID d))"
proof (cases "snd (ReplayDeadAtomic tf nid now eventID d) = d")
  case True
  then show ?thesis using assms by (simp add: footprint_refl)
next
  case False
  obtain res d' where c: "ReplayDeadAtomic tf nid now eventID d = (res, d')" by fastforce
  note wf = ReplayDeadAtomic_effect(1) [OF assms c]
  from False c ReplayDeadAtomic_effect(2) [OF assms c] obtain r where d': "d' = replay_db nid now eventID r d" by auto
  have ev: "outbox_events d' = outbox_events d @ [replay_event eventID nid (r_generation r + 1) now]"
    by (simp add: d' replay_db_def)
  have ids: "r_id ` set (notification_tasks d') \<subseteq> r_id ` set (notification_tasks d) \<union> X"
    using image_update_where [of r_id "replay_row now"] by (auto simp: d' replay_db_def)
  have "\<forall>e \<in> set [replay_event eventID nid (r_generation r + 1) now]. event_new d e"
    by (rule appended_new [OF wf ev]) (simp add: replay_event_def)
  with False wf ids ev ReplayDeadAtomic_evolves [OF assms, of nid tf now eventID] show ?thesis
    by (simp add: c footprint_append)
qed

lemma DeleteTerminalBefore_footprint:
  assumes "db_wf d"
  shows "footprint X T M R d (snd (DeleteTerminalBefore ft locked cutoff limit d))"
proof -
  have del: "footprint X T M R d (delete_tasks ids d)" for ids
    using delete_tasks_wf [OF assms, of ids] evolves_subset [of "delete_tasks ids d" d R]
    by (force simp: footprint_def delete_tasks_def intro: event_kept_refl)
  show ?thesis using del footprint_refl [OF assms] by (simp add: DeleteTerminalBefore_def Let_def)
qed

end
