(* ===== verification/System.thy ===== *)
theory System
  imports Footprint
begin

text \<open>
  The running system: API, publishers, delivery workers, scheduler, administrator and retention
  job over one database and one queue, as a step relation. A step is one call of the store or
  one interaction with the broker, so any interleaving of any number of processes is a
  sequence of steps; every fault of a call, a crash of a publisher or worker at any point, and
  a duplicated message are steps too. The components' calls are the definitions of the other
  theories, in the order \<open>outbox.RunOnce\<close>, \<open>delivery.Handle\<close>, \<open>retry.RunOnce\<close> and
  \<open>retention.RunOnce\<close> make them.
\<close>

section \<open>States\<close>

text \<open>
  A publisher inside \<open>RunOnce\<close>: with events left to publish under its token, or with a
  confirmed event it has not yet marked. A worker inside \<open>Handle\<close>: with a granted claim.
\<close>

datatype publisher =
    PIdle
  | PRun string "outbox_event list"
  | PConfirmed string outbox_event "outbox_event list"

datatype worker =
    WIdle
  | WBusy message string task

text \<open>
  Besides the database, the messages the broker holds and the processes, the state records
  which identifiers and tokens have been drawn, and the deliveries granted and tasks replayed
  so far; the steps never read these.
\<close>

record sys =
  s_db :: db
  s_queue :: "message multiset"
  s_pub :: "nat \<Rightarrow> publisher"
  s_worker :: "nat \<Rightarrow> worker"
  s_ids :: "string set"
  s_tokens :: "string set"
  s_granted :: "string list"
  s_replays :: "string list"

definition init_sys :: sys where
  "init_sys = \<lparr>s_db = empty_db, s_queue = {#}, s_pub = (\<lambda>_. PIdle), s_worker = (\<lambda>_. WIdle),
               s_ids = {}, s_tokens = {}, s_granted = [], s_replays = []\<rparr>"

definition event_message :: "outbox_event \<Rightarrow> message" where
  "event_message e = \<lparr>msg_EventID = event_ID e, msg_NotificationID = event_AggregateID e\<rparr>"

section \<open>Steps\<close>

text \<open>
  \<open>newID\<close> draws 128 random bits: identifiers and tokens are taken not to repeat. A message
  stays with the broker until it is acknowledged, so a worker's message is still in the queue
  while it is being handled.
\<close>

inductive sys_step :: "sys \<Rightarrow> sys \<Rightarrow> bool" where
  accept:
    "nid \<notin> s_ids s \<Longrightarrow>
     Create (CreateOrGet jsonb tf (\<lambda>x. x) getft) registry now nid eventID caller key dst payload (s_db s)
       = (res, obs, d') \<Longrightarrow>
     sys_step s (s\<lparr>s_db := d', s_ids := insert nid (s_ids s)\<rparr>)"
| pub_claim:
    "s_pub s p = PIdle \<Longrightarrow> token \<notin> s_tokens s \<Longrightarrow> (\<And>xs. mset (returning xs) = mset xs) \<Longrightarrow>
     ClaimOutbox ft locked returning now limit token until (s_db s) = (res, d') \<Longrightarrow>
     sys_step s (s\<lparr>s_db := d', s_tokens := insert token (s_tokens s),
                   s_pub := (s_pub s)(p := case res of Inl err \<Rightarrow> PIdle | Inr es \<Rightarrow> PRun token es)\<rparr>)"
| pub_publish:
    "s_pub s p = PRun token (e # es) \<Longrightarrow>
     sys_step s (s\<lparr>s_queue := add_mset (event_message e) (s_queue s), s_pub := (s_pub s)(p := PConfirmed token e es)\<rparr>)"
| pub_unconfirmed:
    "s_pub s p = PRun token (e # es) \<Longrightarrow>
     sys_step s (s\<lparr>s_queue := (if stored then add_mset (event_message e) (s_queue s) else s_queue s),
                   s_pub := (s_pub s)(p := PIdle)\<rparr>)"
| pub_mark:
    "s_pub s p = PConfirmed token e es \<Longrightarrow> MarkPublished ft (event_ID e) token at (s_db s) = (res, d') \<Longrightarrow>
     sys_step s (s\<lparr>s_db := d', s_pub := (s_pub s)(p := case res of Inl err \<Rightarrow> PIdle | Inr _ \<Rightarrow> PRun token es)\<rparr>)"
| pub_stop:
    "sys_step s (s\<lparr>s_pub := (s_pub s)(p := PIdle)\<rparr>)"
| work_claim:
    "s_worker s w = WIdle \<Longrightarrow> m \<in># s_queue s \<Longrightarrow> lease \<notin> s_tokens s \<Longrightarrow>
     ClaimDelivery ft dbnow (msg_NotificationID m) lease leaseUntil (s_db s) = (res, d') \<Longrightarrow>
     sys_step s (s\<lparr>s_db := d', s_tokens := insert lease (s_tokens s),
                   s_queue := (case res of Inr None \<Rightarrow> s_queue s - {#m#} | _ \<Rightarrow> s_queue s),
                   s_worker := (s_worker s)(w := case res of Inr (Some t) \<Rightarrow> WBusy m lease t | _ \<Rightarrow> WIdle),
                   s_granted := (case res of Inr (Some t) \<Rightarrow> msg_NotificationID m # s_granted s | _ \<Rightarrow> s_granted s)\<rparr>)"
| work_finish:
    "s_worker s w = WBusy m lease t \<Longrightarrow>
     ApplyDeliveryResult ft (msg_NotificationID m) lease (attempt_of t result completed jitter) (s_db s) = (res, d') \<Longrightarrow>
     sys_step s (s\<lparr>s_db := d',
                   s_queue := (case res of Inl err \<Rightarrow> s_queue s | Inr _ \<Rightarrow> s_queue s - {#m#}),
                   s_worker := (s_worker s)(w := WIdle)\<rparr>)"
| work_stop:
    "sys_step s (s\<lparr>s_worker := (s_worker s)(w := WIdle)\<rparr>)"
| broker_duplicate:
    "m \<in># s_queue s \<Longrightarrow> sys_step s (s\<lparr>s_queue := add_mset m (s_queue s)\<rparr>)"
| schedule:
    "ScheduleDue tf locked now limit (s_db s) = (res, d') \<Longrightarrow> sys_step s (s\<lparr>s_db := d'\<rparr>)"
| replay:
    "ReplayDeadAtomic tf nid now eventID (s_db s) = (res, d') \<Longrightarrow>
     sys_step s (s\<lparr>s_db := d', s_replays := (if d' = s_db s then s_replays s else nid # s_replays s)\<rparr>)"
| retain:
    "DeleteTerminalBefore ft locked cutoff limit (s_db s) = (res, d') \<Longrightarrow> sys_step s (s\<lparr>s_db := d'\<rparr>)"

definition reachable :: "sys \<Rightarrow> bool" where
  "reachable s \<longleftrightarrow> sys_step\<^sup>*\<^sup>* init_sys s"

end
