(* ===== verification/SystemInv.thy ===== *)
theory SystemInv
  imports System
begin

text \<open>
  The invariant of the running system. Its parts speak of the database and of one message, one
  publisher or one worker; each part is shown stable under any step with a \<open>footprint\<close>, so
  the preservation by a step of the system only looks at what that step adds.
\<close>

section \<open>The parts\<close>

definition row_message :: "outbox_row \<Rightarrow> message" where
  "row_message q = \<lparr>msg_EventID = o_id q, msg_NotificationID = o_aggregate_id q\<rparr>"

definition alive :: "db \<Rightarrow> string set" where
  "alive d = r_id ` set (notification_tasks d)"

text \<open>A known message belongs to an event, unless its task was deleted.\<close>

definition known :: "db \<Rightarrow> string set \<Rightarrow> message \<Rightarrow> bool" where
  "known d ids m \<longleftrightarrow> msg_NotificationID m \<in> ids \<and>
     (msg_NotificationID m \<in> alive d \<longrightarrow> (\<exists>q \<in> set (outbox_events d). row_message q = m))"

definition settled :: "db \<Rightarrow> message \<Rightarrow> bool" where
  "settled d m \<longleftrightarrow> (\<forall>q \<in> set (outbox_events d). row_message q = m \<longrightarrow> spent d q)"

definition safe :: "db \<Rightarrow> message multiset \<Rightarrow> outbox_row \<Rightarrow> bool" where
  "safe d queue q \<longleftrightarrow> spent d q \<or> row_message q \<in># queue"

definition published_safe :: "db \<Rightarrow> message multiset \<Rightarrow> bool" where
  "published_safe d queue \<longleftrightarrow> (\<forall>q \<in> set (outbox_events d). o_published_at q \<noteq> None \<longrightarrow> safe d queue q)"

definition held_by :: "string \<Rightarrow> outbox_event \<Rightarrow> outbox_row \<Rightarrow> bool" where
  "held_by token e q \<longleftrightarrow> o_id q = event_ID e \<and> o_claim_token q = Some token"

definition claim_ok :: "db \<Rightarrow> string set \<Rightarrow> string \<Rightarrow> outbox_event \<Rightarrow> bool" where
  "claim_ok d ids token e \<longleftrightarrow> known d ids (event_message e) \<and>
     (\<forall>q \<in> set (outbox_events d). held_by token e q \<longrightarrow> o_aggregate_id q = event_AggregateID e)"

definition confirmed_ok :: "db \<Rightarrow> message multiset \<Rightarrow> string \<Rightarrow> outbox_event \<Rightarrow> bool" where
  "confirmed_ok d queue token e \<longleftrightarrow> (\<forall>q \<in> set (outbox_events d). held_by token e q \<longrightarrow> safe d queue q)"

fun pub_ok :: "db \<Rightarrow> message multiset \<Rightarrow> string set \<Rightarrow> string set \<Rightarrow> publisher \<Rightarrow> bool" where
  "pub_ok d queue ids tokens PIdle = True"
| "pub_ok d queue ids tokens (PRun token es) = (token \<in> tokens \<and> (\<forall>e \<in> set es. claim_ok d ids token e))"
| "pub_ok d queue ids tokens (PConfirmed token e es) =
     (token \<in> tokens \<and> confirmed_ok d queue token e \<and> (\<forall>e \<in> set es. claim_ok d ids token e))"

fun worker_ok :: "db \<Rightarrow> string set \<Rightarrow> worker \<Rightarrow> bool" where
  "worker_ok d ids WIdle = True"
| "worker_ok d ids (WBusy m lease t) = (known d ids m \<and> settled d m)"

definition attempts_ok :: "db \<Rightarrow> string list \<Rightarrow> string list \<Rightarrow> bool" where
  "attempts_ok d granted replays \<longleftrightarrow>
     (\<forall>r \<in> set (notification_tasks d).
        int (count_list granted (r_id r)) \<le> r_attempt_count r \<and>
        r_attempt_count r + (if r_status r = StatusPending then 1 else 0)
          \<le> r_max_attempts r + int (count_list replays (r_id r)))"

definition sys_inv :: "sys \<Rightarrow> bool" where
  "sys_inv s \<longleftrightarrow>
     db_wf (s_db s) \<and> alive (s_db s) \<subseteq> s_ids s \<and> set (s_granted s) \<subseteq> s_ids s \<and>
     (\<forall>m \<in># s_queue s. known (s_db s) (s_ids s) m) \<and>
     published_safe (s_db s) (s_queue s) \<and>
     (\<forall>p. pub_ok (s_db s) (s_queue s) (s_ids s) (s_tokens s) (s_pub s p)) \<and>
     (\<forall>w. worker_ok (s_db s) (s_ids s) (s_worker s w)) \<and>
     attempts_ok (s_db s) (s_granted s) (s_replays s)"

section \<open>Stability under a footprint\<close>

lemma footprint_alive: "footprint X T M R d d' \<Longrightarrow> alive d' \<subseteq> alive d \<union> X"
  by (auto simp: footprint_def alive_def)

lemma footprint_event:
  assumes "footprint X T M R d d'" "q' \<in> set (outbox_events d')"
  obtains (kept) q where "q \<in> set (outbox_events d)" "event_kept T M q q'" | (fresh) "event_new d q'"
  using assms by (auto simp: footprint_def)

lemma event_kept_message: "event_kept T M q q' \<Longrightarrow> row_message q' = row_message q"
  by (simp add: event_kept_def row_message_def)

lemma event_alive: "db_wf d \<Longrightarrow> q \<in> set (outbox_events d) \<Longrightarrow> o_aggregate_id q \<in> alive d"
  by (auto simp: db_wf_def keys_wf_def alive_def)

lemma event_unique:
  "db_wf d \<Longrightarrow> q \<in> set (outbox_events d) \<Longrightarrow> q' \<in> set (outbox_events d) \<Longrightarrow> o_id q = o_id q' \<Longrightarrow> q = q'"
  using db_wf_event_ids [of d] by (meson eq_key_imp_eq_value distinct_map inj_onD)

lemma spent_kept:
  assumes "db_wf d" "footprint X T M R d d'" "q \<in> set (outbox_events d)" "event_kept T M q q'" "spent d q"
  shows "spent d' q'"
proof -
  have "evolves R d d'" using assms(2) by (simp add: footprint_def)
  from spent_evolves [OF assms(5) this] event_alive [OF assms(1,3)] have "spent d' q" by (simp add: alive_def)
  then show ?thesis using assms(4) by (simp add: event_kept_def spent_def)
qed

lemma safe_kept:
  assumes "db_wf d" "footprint X T M R d d'" "q \<in> set (outbox_events d)" "event_kept T M q q'" "safe d queue q"
  shows "safe d' queue q'"
  using assms(5) spent_kept [OF assms(1-4)] event_kept_message [OF assms(4)] by (auto simp: safe_def)

lemma known_stable:
  assumes fp: "footprint X T M R d d'" and X: "X \<inter> ids = {}" and k: "known d ids m"
  shows "known d' (ids \<union> X) m"
  unfolding known_def
proof (intro conjI impI)
  show "msg_NotificationID m \<in> ids \<union> X" using k by (simp add: known_def)
  assume a: "msg_NotificationID m \<in> alive d'"
  with k X footprint_alive [OF fp] have "msg_NotificationID m \<in> alive d" by (auto simp: known_def)
  with k obtain q where q: "q \<in> set (outbox_events d)" "row_message q = m" by (auto simp: known_def)
  then have "o_aggregate_id q \<in> alive d'" using a by (auto simp: row_message_def)
  with fp q obtain q' where "q' \<in> set (outbox_events d')" "o_id q' = o_id q" "event_key q' = event_key q"
    unfolding footprint_def alive_def by blast
  then have "q' \<in> set (outbox_events d') \<and> row_message q' = m" using q(2) by (simp add: row_message_def)
  then show "\<exists>q \<in> set (outbox_events d'). row_message q = m" by blast
qed

lemma known_not_fresh:
  assumes "footprint X T M R d d'" "X \<inter> ids = {}" "known d ids m" "q' \<in> set (outbox_events d')" "row_message q' = m"
  shows "\<not> event_new d q'"
proof
  assume n: "event_new d q'"
  have "db_wf d'" using assms(1) by (simp add: footprint_def)
  from event_alive [OF this assms(4)] assms(5) have "msg_NotificationID m \<in> alive d'" by (auto simp: row_message_def)
  with assms(2,3) footprint_alive [OF assms(1)] have "msg_NotificationID m \<in> alive d" by (auto simp: known_def)
  with assms(3) obtain q where "q \<in> set (outbox_events d)" "row_message q = m" by (auto simp: known_def)
  with assms(5) have "o_id q' = o_id q" by (simp add: row_message_def) (metis message.ext_inject)
  with \<open>q \<in> set (outbox_events d)\<close> have "o_id q' \<in> o_id ` set (outbox_events d)" by blast
  with n show False by (simp add: event_new_def)
qed

lemma settled_stable:
  assumes wf: "db_wf d" and fp: "footprint X T M R d d'" and X: "X \<inter> ids = {}" and k: "known d ids m" and s: "settled d m"
  shows "settled d' m"
  unfolding settled_def
proof (intro ballI impI)
  fix q' assume q': "q' \<in> set (outbox_events d')" "row_message q' = m"
  show "spent d' q'" using fp q'(1)
  proof (cases rule: footprint_event)
    case (kept q)
    then have "spent d q" using s q'(2) event_kept_message by (auto simp: settled_def)
    then show ?thesis using spent_kept [OF wf fp] kept by blast
  next
    case fresh
    then show ?thesis using known_not_fresh [OF fp X k q'] by simp
  qed
qed

lemma held_stable:
  assumes "event_kept T M q q'" "held_by token e q'" "token \<notin> T"
  shows "held_by token e q"
  using assms by (auto simp: event_kept_def held_by_def)

lemma event_new_not_held: "event_new d q \<Longrightarrow> \<not> held_by token e q"
  by (simp add: event_new_def held_by_def)

lemma claim_ok_stable:
  assumes fp: "footprint X T M R d d'" and X: "X \<inter> ids = {}" and T: "token \<notin> T" and c: "claim_ok d ids token e"
  shows "claim_ok d' (ids \<union> X) token e"
  unfolding claim_ok_def
proof (intro conjI ballI impI)
  show "known d' (ids \<union> X) (event_message e)" using known_stable [OF fp X] c by (simp add: claim_ok_def)
  fix q' assume q': "q' \<in> set (outbox_events d')" "held_by token e q'"
  show "o_aggregate_id q' = event_AggregateID e" using fp q'(1)
  proof (cases rule: footprint_event)
    case (kept q)
    then show ?thesis using c held_stable [OF kept(2) q'(2) T] by (auto simp: claim_ok_def event_kept_def)
  next
    case fresh
    then show ?thesis using q'(2) event_new_not_held by blast
  qed
qed

lemma confirmed_ok_stable:
  assumes wf: "db_wf d" and fp: "footprint X T M R d d'" and T: "token \<notin> T" and c: "confirmed_ok d queue token e"
  shows "confirmed_ok d' queue token e"
  unfolding confirmed_ok_def
proof (intro ballI impI)
  fix q' assume q': "q' \<in> set (outbox_events d')" "held_by token e q'"
  show "safe d' queue q'" using fp q'(1)
  proof (cases rule: footprint_event)
    case (kept q)
    then show ?thesis using c held_stable [OF kept(2) q'(2) T] safe_kept [OF wf fp kept] by (auto simp: confirmed_ok_def)
  next
    case fresh
    then show ?thesis using q'(2) event_new_not_held by blast
  qed
qed

lemma pub_ok_stable:
  assumes "db_wf d" "footprint X T M R d d'" "X \<inter> ids = {}" "T \<inter> tokens = {}" "pub_ok d queue ids tokens x"
  shows "pub_ok d' queue (ids \<union> X) (tokens \<union> U) x"
proof -
  have "token \<in> tokens \<Longrightarrow> token \<notin> T" for token using assms(4) by blast
  with assms(5) claim_ok_stable [OF assms(2,3)] confirmed_ok_stable [OF assms(1,2)] show ?thesis
    by (cases x) simp_all
qed

lemma worker_ok_stable:
  assumes "db_wf d" "footprint X T M R d d'" "X \<inter> ids = {}" "worker_ok d ids x"
  shows "worker_ok d' (ids \<union> X) x"
  using assms(4) known_stable [OF assms(2,3)] settled_stable [OF assms(1-3)] by (cases x) auto

lemma published_safe_stable:
  assumes wf: "db_wf d" and fp: "footprint X T M R d d'" and p: "published_safe d queue"
    and M: "\<And>i token q. (i, token) \<in> M \<Longrightarrow> q \<in> set (outbox_events d) \<Longrightarrow> o_id q = i \<Longrightarrow>
      o_claim_token q = Some token \<Longrightarrow> safe d queue q"
  shows "published_safe d' queue"
  unfolding published_safe_def
proof (intro ballI impI)
  fix q' assume q': "q' \<in> set (outbox_events d')" "o_published_at q' \<noteq> None"
  show "safe d' queue q'" using fp q'(1)
  proof (cases rule: footprint_event)
    case (kept q)
    then have "safe d queue q" using p M q'(2) by (auto simp: event_kept_def published_safe_def)
    then show ?thesis using safe_kept [OF wf fp kept] by simp
  next
    case fresh
    then show ?thesis using q'(2) by (simp add: event_new_def)
  qed
qed

text \<open>
  An attempt is counted when the task is claimed; a task becomes pending again only with
  attempts left, or because it was replayed.
\<close>

lemma attempts_ok_stable:
  assumes fp: "footprint X T M R d d'" and X: "X \<inter> ids = {}" and g: "set granted \<subseteq> ids" and a: "attempts_ok d granted replays"
    and R: "\<And>i. count_list replays i + (if i \<in> R then 1 else 0) \<le> count_list replays' i"
  shows "attempts_ok d' granted replays'"
  unfolding attempts_ok_def
proof
  fix r' assume r': "r' \<in> set (notification_tasks d')"
  have wf: "task_row_ok r'" using fp r' by (auto simp: footprint_def db_wf_def rows_wf_def)
  have more: "count_list replays (r_id r') + (if r_id r' \<in> R then 1 else 0) \<le> count_list replays' (r_id r')" by (rule R)
  have "evolves R d d'" using fp by (simp add: footprint_def)
  with r' consider (new) "r_id r' \<notin> r_id ` set (notification_tasks d)" "r_status r' = StatusPending" "r_attempt_count r' = 0"
    | (old) r where "r \<in> set (notification_tasks d)" "row_step R r r'"
    by (auto simp: evolves_def)
  then show "int (count_list granted (r_id r')) \<le> r_attempt_count r' \<and>
        r_attempt_count r' + (if r_status r' = StatusPending then 1 else 0)
          \<le> r_max_attempts r' + int (count_list replays' (r_id r'))"
  proof cases
    case new
    then have "r_id r' \<in> X" using footprint_alive [OF fp] r' by (auto simp: alive_def)
    with X g have "r_id r' \<notin> set granted" by auto
    then have "count_list granted (r_id r') = 0" by simp
    with new wf show ?thesis by (simp add: task_row_ok_def)
  next
    case old
    note s = old(2) [unfolded row_step_def same_snapshot_def]
    from a old(1) have b: "int (count_list granted (r_id r)) \<le> r_attempt_count r"
      "r_attempt_count r + (if r_status r = StatusPending then 1 else 0) \<le> r_max_attempts r + int (count_list replays (r_id r))"
      by (auto simp: attempts_ok_def)
    from s have e: "r_id r' = r_id r" "r_max_attempts r' = r_max_attempts r" by auto
    from s have n: "r_attempt_count r' = r_attempt_count r + (if r_status r = StatusPending \<and> r_status r' = StatusDelivering then 1 else 0)"
      by blast
    show ?thesis
    proof (cases "r_status r' = StatusPending \<and> r_status r \<noteq> StatusPending")
      case True
      have "in_flight r \<or> r_status r = StatusDead"
        using s True by (cases "r_status r") (auto simp: in_flight_def store_transition_def)
      then have "r_attempt_count r < r_max_attempts r \<or> r_id r \<in> R" using s True by auto
      with True b more n e show ?thesis by auto
    next
      case False
      with b more n e show ?thesis by (auto split: if_splits)
    qed
  qed
qed

section \<open>Preservation\<close>

lemma safe_more: "safe d queue q \<Longrightarrow> queue \<subseteq># queue' \<Longrightarrow> safe d queue' q"
  by (auto simp: safe_def dest: mset_subset_eqD)

lemma safe_less: "safe d queue q \<Longrightarrow> settled d m \<Longrightarrow> q \<in> set (outbox_events d) \<Longrightarrow> safe d (queue - {#m#}) q"
  by (cases "row_message q = m") (auto simp: safe_def settled_def in_diff_count not_in_iff)

text \<open>One call of the store, with everything else as it was.\<close>

lemma store_call:
  assumes inv: "sys_inv s" and fp: "footprint X T M R (s_db s) d'"
    and X: "X \<inter> s_ids s = {}" and T: "T \<inter> s_tokens s = {}"
    and M: "\<And>i token q. (i, token) \<in> M \<Longrightarrow> q \<in> set (outbox_events (s_db s)) \<Longrightarrow> o_id q = i \<Longrightarrow>
      o_claim_token q = Some token \<Longrightarrow> safe (s_db s) (s_queue s) q"
    and R: "\<And>i. count_list (s_replays s) i + (if i \<in> R then 1 else 0) \<le> count_list replays' i"
  shows "sys_inv (s\<lparr>s_db := d', s_ids := s_ids s \<union> X, s_tokens := s_tokens s \<union> U, s_replays := replays'\<rparr>)"
proof -
  from inv have i: "db_wf (s_db s)" "alive (s_db s) \<subseteq> s_ids s" "set (s_granted s) \<subseteq> s_ids s"
    "\<forall>m \<in># s_queue s. known (s_db s) (s_ids s) m" "published_safe (s_db s) (s_queue s)"
    "\<forall>p. pub_ok (s_db s) (s_queue s) (s_ids s) (s_tokens s) (s_pub s p)"
    "\<forall>w. worker_ok (s_db s) (s_ids s) (s_worker s w)" "attempts_ok (s_db s) (s_granted s) (s_replays s)"
    by (simp_all add: sys_inv_def)
  have "db_wf d'" using fp by (simp add: footprint_def)
  moreover have "alive d' \<subseteq> s_ids s \<union> X" using footprint_alive [OF fp] i(2) by blast
  moreover have "set (s_granted s) \<subseteq> s_ids s \<union> X" using i(3) by blast
  moreover have "\<forall>m \<in># s_queue s. known d' (s_ids s \<union> X) m" using i(4) known_stable [OF fp X] by blast
  moreover have "published_safe d' (s_queue s)" using published_safe_stable [OF i(1) fp i(5) M] .
  moreover have "\<forall>p. pub_ok d' (s_queue s) (s_ids s \<union> X) (s_tokens s \<union> U) (s_pub s p)"
    using i(6) pub_ok_stable [OF i(1) fp X T] by blast
  moreover have "\<forall>w. worker_ok d' (s_ids s \<union> X) (s_worker s w)" using i(7) worker_ok_stable [OF i(1) fp X] by blast
  moreover have "attempts_ok d' (s_granted s) replays'" by (rule attempts_ok_stable [OF fp X i(3,8) R])
  ultimately show ?thesis by (simp add: sys_inv_def)
qed

lemma set_pub:
  "sys_inv s \<Longrightarrow> pub_ok (s_db s) (s_queue s) (s_ids s) (s_tokens s) x \<Longrightarrow> sys_inv (s\<lparr>s_pub := (s_pub s)(p := x)\<rparr>)"
  by (simp add: sys_inv_def)

lemma set_worker:
  "sys_inv s \<Longrightarrow> worker_ok (s_db s) (s_ids s) x \<Longrightarrow> sys_inv (s\<lparr>s_worker := (s_worker s)(w := x)\<rparr>)"
  by (simp add: sys_inv_def)

lemma pub_ok_queue:
  "pub_ok d queue ids tokens x \<Longrightarrow>
   (\<And>q. q \<in> set (outbox_events d) \<Longrightarrow> safe d queue q \<Longrightarrow> safe d queue' q) \<Longrightarrow> pub_ok d queue' ids tokens x"
  by (cases x) (auto simp: confirmed_ok_def)

lemma set_queue:
  assumes inv: "sys_inv s" and k: "\<forall>m \<in># queue'. known (s_db s) (s_ids s) m"
    and q: "\<And>q. q \<in> set (outbox_events (s_db s)) \<Longrightarrow> safe (s_db s) (s_queue s) q \<Longrightarrow> safe (s_db s) queue' q"
  shows "sys_inv (s\<lparr>s_queue := queue'\<rparr>)"
proof -
  have "published_safe (s_db s) queue'" using inv q by (auto simp: sys_inv_def published_safe_def)
  moreover have "\<forall>p. pub_ok (s_db s) queue' (s_ids s) (s_tokens s) (s_pub s p)"
  proof
    fix p
    have "pub_ok (s_db s) (s_queue s) (s_ids s) (s_tokens s) (s_pub s p)" using inv by (simp add: sys_inv_def)
    then show "pub_ok (s_db s) queue' (s_ids s) (s_tokens s) (s_pub s p)" by (rule pub_ok_queue) (rule q)
  qed
  ultimately show ?thesis using inv k by (simp add: sys_inv_def)
qed

lemma add_message:
  assumes "sys_inv s" "known (s_db s) (s_ids s) m"
  shows "sys_inv (s\<lparr>s_queue := add_mset m (s_queue s)\<rparr>)"
proof (rule set_queue [OF assms(1)])
  show "\<forall>m \<in># add_mset m (s_queue s). known (s_db s) (s_ids s) m" using assms by (auto simp: sys_inv_def)
qed (auto intro: safe_more)

lemma drop_message:
  assumes "sys_inv s" "settled (s_db s) m"
  shows "sys_inv (s\<lparr>s_queue := s_queue s - {#m#}\<rparr>)"
proof (rule set_queue [OF assms(1)])
  show "\<forall>m \<in># s_queue s - {#m#}. known (s_db s) (s_ids s) m"
    using assms(1) by (auto simp: sys_inv_def dest: in_diffD)
qed (rule safe_less [OF _ assms(2)])

section \<open>What the claims give\<close>

lemma claimed_events_ok:
  assumes wf: "db_wf d" and ret: "\<And>xs. mset (returning xs) = mset xs" and ids: "alive d \<subseteq> ids"
    and c: "ClaimOutbox ft locked returning now limit token until d = (Inr es, d')" and x: "x \<in> set es"
  shows "claim_ok d' ids token x"
proof -
  let ?c = "outbox_candidates locked now limit d"
  have d': "d' = d\<lparr>outbox_events := update_where (\<lambda>e. o_id e \<in> o_id ` set ?c) (claim_event token until) (outbox_events d)\<rparr>"
    and m: "mset es = mset (map (scan_event \<circ> claim_event token until) ?c)"
    using ClaimOutbox_Inr [OF wf ret c] by auto
  have wf': "db_wf d'" using ClaimOutbox_wf [OF wf, of ft locked returning now limit token until] c by simp
  from mset_eq_setD [OF m] x obtain e where e: "e \<in> set ?c" and xe: "x = scan_event (claim_event token until e)"
    by auto
  then have mem: "e \<in> set (outbox_events d)" using candidates_subset by fastforce
  define q where "q = claim_event token until e"
  have q: "q \<in> set (outbox_events d')" unfolding d' q_def using e mem by (auto simp: set_update_where)
  have msg: "event_message x = row_message q"
    by (simp add: xe q_def event_message_def row_message_def scan_event_def)
  have "msg_NotificationID (event_message x) \<in> ids"
    using event_alive [OF wf mem] ids by (auto simp: msg q_def row_message_def)
  moreover have "o_aggregate_id q' = event_AggregateID x" if "q' \<in> set (outbox_events d')" "held_by token x q'" for q'
  proof -
    have "o_id q' = o_id q" using that(2) by (simp add: held_by_def xe q_def scan_event_def)
    then have "q' = q" by (rule event_unique [OF wf' that(1) q])
    then show ?thesis by (simp add: xe q_def scan_event_def)
  qed
  moreover have "\<exists>q' \<in> set (outbox_events d'). row_message q' = event_message x" using q msg by (intro bexI [of _ q]) simp_all
  ultimately show ?thesis unfolding claim_ok_def known_def by blast
qed

lemma not_pending_settled:
  assumes wf: "db_wf d" and n: "\<And>r. task_of d (msg_NotificationID m) = Some r \<Longrightarrow> r_status r \<noteq> StatusPending"
  shows "settled d m"
  unfolding settled_def spent_def
proof (intro ballI impI)
  fix q r assume q: "q \<in> set (outbox_events d)" "row_message q = m" and r: "r \<in> set (notification_tasks d)" "r_id r = o_aggregate_id q"
  from q(2) r have "task_of d (msg_NotificationID m) = Some r"
    by (auto simp: row_message_def intro: lookup_by_eqI [OF db_wf_ids [OF wf]])
  then have "r_status r \<noteq> StatusPending" by (rule n)
  moreover have "o_generation q \<le> r_generation r" using wf q(1) r by (auto simp: db_wf_def covered_def)
  ultimately show "o_generation q < r_generation r \<or> o_generation q = r_generation r \<and> r_status r \<noteq> StatusPending" by auto
qed

lemma granted_counted:
  assumes wf: "db_wf d" and c: "ClaimDelivery ft dbnow i l u d = (Inr (Some t), d')" and a: "attempts_ok d granted replays"
  shows "attempts_ok d' (i # granted) replays"
  unfolding attempts_ok_def
proof
  obtain r0 where r0: "task_of d i = Some r0" "r_status r0 = StatusPending"
    and d': "d' = d\<lparr>notification_tasks := update_where (\<lambda>r. r_id r = i \<and> r_status r = StatusPending) (claim_row l u dbnow) (notification_tasks d)\<rparr>"
    by (rule ClaimDelivery_granted [OF wf c])
  fix r' assume "r' \<in> set (notification_tasks d')"
  then obtain r where r: "r \<in> set (notification_tasks d)"
    and r': "r' = (if r_id r = i \<and> r_status r = StatusPending then claim_row l u dbnow r else r)"
    by (auto simp: d' set_update_where)
  have "r_status r = StatusPending" if "r_id r = i"
    using lookup_by_eqI [OF db_wf_ids [OF wf] r that] r0 by simp
  moreover from a r have "int (count_list granted (r_id r)) \<le> r_attempt_count r"
      "r_attempt_count r + (if r_status r = StatusPending then 1 else 0) \<le> r_max_attempts r + int (count_list replays (r_id r))"
    by (auto simp: attempts_ok_def)
  ultimately show "int (count_list (i # granted) (r_id r')) \<le> r_attempt_count r' \<and>
      r_attempt_count r' + (if r_status r' = StatusPending then 1 else 0) \<le> r_max_attempts r' + int (count_list replays (r_id r'))"
    by (cases "r_id r = i") (simp_all add: r' claim_row_def)
qed

section \<open>The steps\<close>

lemma init_sys_inv: "sys_inv init_sys"
  by (simp add: sys_inv_def init_sys_def empty_db_wf alive_def published_safe_def attempts_ok_def) (simp add: empty_db_def)

lemma accept_inv:
  assumes inv: "sys_inv s" and n: "nid \<notin> s_ids s"
    and c: "Create (CreateOrGet jsonb tf (\<lambda>x. x) getft) registry now nid eventID caller key dst payload (s_db s) = (res, obs, d')"
  shows "sys_inv (s\<lparr>s_db := d', s_ids := insert nid (s_ids s)\<rparr>)"
proof -
  have "db_wf (s_db s)" using inv by (simp add: sys_inv_def)
  from Create_footprint [OF this, of nid "{}" "{}" "{}" jsonb tf getft registry now eventID caller key dst payload] c
  have "footprint {nid} {} {} {} (s_db s) d'" by simp
  from store_call [OF inv this, of "s_replays s" "{}"] n show ?thesis by (cases s) simp
qed

text \<open>A call that draws no identifier and replays nothing.\<close>

lemma plain_call:
  assumes "sys_inv s" "footprint {} T M {} (s_db s) d'" "T \<inter> s_tokens s = {}"
    and "\<And>i token q. (i, token) \<in> M \<Longrightarrow> q \<in> set (outbox_events (s_db s)) \<Longrightarrow> o_id q = i \<Longrightarrow>
      o_claim_token q = Some token \<Longrightarrow> safe (s_db s) (s_queue s) q"
  shows "sys_inv (s\<lparr>s_db := d', s_tokens := s_tokens s \<union> U\<rparr>)"
proof -
  have "sys_inv (s\<lparr>s_db := d', s_ids := s_ids s \<union> {}, s_tokens := s_tokens s \<union> U, s_replays := s_replays s\<rparr>)"
    by (rule store_call [OF assms(1,2) _ assms(3,4)]) auto
  then show ?thesis by (cases s) simp
qed

lemma pub_claim_inv:
  assumes inv: "sys_inv s" and tk: "token \<notin> s_tokens s" and ret: "\<And>xs. mset (returning xs) = mset xs"
    and c: "ClaimOutbox ft locked returning now limit token until (s_db s) = (res, d')"
  shows "sys_inv (s\<lparr>s_db := d', s_tokens := insert token (s_tokens s),
      s_pub := (s_pub s)(p := case res of Inl err \<Rightarrow> PIdle | Inr es \<Rightarrow> PRun token es)\<rparr>)"
proof -
  have wf: "db_wf (s_db s)" and ids: "alive (s_db s) \<subseteq> s_ids s" using inv by (simp_all add: sys_inv_def)
  let ?s1 = "s\<lparr>s_db := d', s_tokens := s_tokens s \<union> {token}\<rparr>"
  have "footprint {} {token} {} {} (s_db s) d'"
    using ClaimOutbox_footprint [OF wf, of "{}" token "{}" "{}" ft locked returning now limit until] c by simp
  from plain_call [OF inv this, of "{token}"] tk have i1: "sys_inv ?s1" by simp
  have "pub_ok (s_db ?s1) (s_queue ?s1) (s_ids ?s1) (s_tokens ?s1) (case res of Inl err \<Rightarrow> PIdle | Inr es \<Rightarrow> PRun token es)"
    using claimed_events_ok [OF wf ret ids, of ft locked now limit token until _ d'] c by (cases res) simp_all
  from set_pub [OF i1 this, of p] show ?thesis by (cases s) simp
qed

lemma pub_publish_inv:
  assumes inv: "sys_inv s" and p: "s_pub s p = PRun token (e # es)"
  shows "sys_inv (s\<lparr>s_queue := add_mset (event_message e) (s_queue s), s_pub := (s_pub s)(p := PConfirmed token e es)\<rparr>)"
    and "sys_inv (s\<lparr>s_queue := (if stored then add_mset (event_message e) (s_queue s) else s_queue s), s_pub := (s_pub s)(p := PIdle)\<rparr>)"
proof -
  have "pub_ok (s_db s) (s_queue s) (s_ids s) (s_tokens s) (PRun token (e # es))"
    using inv p [symmetric] by (simp only: sys_inv_def)
  then have ok: "token \<in> s_tokens s" "claim_ok (s_db s) (s_ids s) token e" "\<forall>x \<in> set es. claim_ok (s_db s) (s_ids s) token x" by auto
  let ?s1 = "s\<lparr>s_queue := add_mset (event_message e) (s_queue s)\<rparr>"
  have i1: "sys_inv ?s1" using add_message [OF inv] ok(2) by (simp add: claim_ok_def)
  have "confirmed_ok (s_db s) (add_mset (event_message e) (s_queue s)) token e"
    using ok(2) by (auto simp: confirmed_ok_def claim_ok_def safe_def held_by_def row_message_def event_message_def)
  with ok have "pub_ok (s_db ?s1) (s_queue ?s1) (s_ids ?s1) (s_tokens ?s1) (PConfirmed token e es)" by simp
  from set_pub [OF i1 this, of p]
  show "sys_inv (s\<lparr>s_queue := add_mset (event_message e) (s_queue s), s_pub := (s_pub s)(p := PConfirmed token e es)\<rparr>)"
    by (cases s) simp
  show "sys_inv (s\<lparr>s_queue := (if stored then add_mset (event_message e) (s_queue s) else s_queue s), s_pub := (s_pub s)(p := PIdle)\<rparr>)"
    using set_pub [OF i1, of PIdle p] set_pub [OF inv, of PIdle p] by (cases s) simp
qed

lemma pub_mark_inv:
  assumes inv: "sys_inv s" and p: "s_pub s p = PConfirmed token e es"
    and c: "MarkPublished ft (event_ID e) token at (s_db s) = (res, d')"
  shows "sys_inv (s\<lparr>s_db := d', s_pub := (s_pub s)(p := case res of Inl err \<Rightarrow> PIdle | Inr _ \<Rightarrow> PRun token es)\<rparr>)"
proof -
  have wf: "db_wf (s_db s)" using inv by (simp add: sys_inv_def)
  have "pub_ok (s_db s) (s_queue s) (s_ids s) (s_tokens s) (PConfirmed token e es)"
    using inv p [symmetric] by (simp only: sys_inv_def)
  then have ok: "confirmed_ok (s_db s) (s_queue s) token e" by simp
  let ?s1 = "s\<lparr>s_db := d', s_tokens := s_tokens s \<union> {}\<rparr>"
  have fp: "footprint {} {} {(event_ID e, token)} {} (s_db s) d'"
    using MarkPublished_footprint [OF wf, of "{}" "{}" "event_ID e" token "{}" ft at] c by simp
  have i1: "sys_inv ?s1"
    by (rule plain_call [OF inv fp]) (use ok in \<open>auto simp: confirmed_ok_def held_by_def\<close>)
  have "pub_ok (s_db ?s1) (s_queue ?s1) (s_ids ?s1) (s_tokens ?s1) (s_pub ?s1 p)"
    using i1 unfolding sys_inv_def by blast
  then have "pub_ok (s_db ?s1) (s_queue ?s1) (s_ids ?s1) (s_tokens ?s1) (case res of Inl err \<Rightarrow> PIdle | Inr _ \<Rightarrow> PRun token es)"
    using p by (cases res) simp_all
  from set_pub [OF i1 this, of p] show ?thesis by (cases s) simp
qed

lemma add_grant:
  "sys_inv s \<Longrightarrow> i \<in> s_ids s \<Longrightarrow> attempts_ok (s_db s) (i # s_granted s) (s_replays s) \<Longrightarrow>
   sys_inv (s\<lparr>s_granted := i # s_granted s\<rparr>)"
  by (simp add: sys_inv_def)

lemma work_claim_inv:
  assumes inv: "sys_inv s" and m: "m \<in># s_queue s" and tk: "lease \<notin> s_tokens s"
    and c: "ClaimDelivery ft dbnow (msg_NotificationID m) lease leaseUntil (s_db s) = (res, d')"
  shows "sys_inv (s\<lparr>s_db := d', s_tokens := insert lease (s_tokens s),
      s_queue := (case res of Inr None \<Rightarrow> s_queue s - {#m#} | _ \<Rightarrow> s_queue s),
      s_worker := (s_worker s)(w := case res of Inr (Some t) \<Rightarrow> WBusy m lease t | _ \<Rightarrow> WIdle),
      s_granted := (case res of Inr (Some t) \<Rightarrow> msg_NotificationID m # s_granted s | _ \<Rightarrow> s_granted s)\<rparr>)"
proof -
  let ?i = "msg_NotificationID m"
  have wf: "db_wf (s_db s)" and a: "attempts_ok (s_db s) (s_granted s) (s_replays s)"
    and k: "known (s_db s) (s_ids s) m" using inv m by (simp_all add: sys_inv_def)
  let ?s1 = "s\<lparr>s_db := d', s_tokens := s_tokens s \<union> {lease}\<rparr>"
  have fp: "footprint {} {} {} {} (s_db s) d'"
    using ClaimDelivery_footprint [OF wf, of "{}" "{}" "{}" "{}" ft dbnow ?i lease leaseUntil] c by simp
  from plain_call [OF inv fp, of "{lease}"] have i1: "sys_inv ?s1" by simp
  then have wf1: "db_wf d'" by (simp add: sys_inv_def)
  from set_worker [OF i1, of WIdle w] have idle: "sys_inv (?s1\<lparr>s_worker := (s_worker s)(w := WIdle)\<rparr>)" by simp
  show ?thesis
  proof (cases res)
    case (Inl err)
    with idle show ?thesis by (cases s) simp
  next
    case (Inr claim)
    show ?thesis
    proof (cases claim)
      case None
      from ClaimDelivery_refused [OF wf c [unfolded Inr None]] have "settled d' m"
        by (intro not_pending_settled [OF wf1]) auto
      then show ?thesis using drop_message [OF idle, of m] Inr None by (cases s) simp
    next
      case (Some t)
      note granted = c [unfolded Inr Some]
      have "task_of d' ?i \<noteq> None \<and> (\<forall>r. task_of d' ?i = Some r \<longrightarrow> r_status r \<noteq> StatusPending)"
        by (rule ClaimDelivery_granted [OF wf granted]) simp
      then have "settled d' m" by (intro not_pending_settled [OF wf1]) auto
      moreover have "known d' (s_ids s) m" using known_stable [OF fp _ k] by simp
      ultimately have "sys_inv (?s1\<lparr>s_worker := (s_worker s)(w := WBusy m lease t)\<rparr>)"
        using set_worker [OF i1, of "WBusy m lease t" w] by simp
      from add_grant [OF this, of ?i] granted_counted [OF wf granted a] k
      show ?thesis using Inr Some by (cases s) (simp add: known_def)
    qed
  qed
qed

lemma work_finish_inv:
  assumes inv: "sys_inv s" and w: "s_worker s w = WBusy m lease t"
    and c: "ApplyDeliveryResult ft (msg_NotificationID m) lease (attempt_of t result completed jitter) (s_db s) = (res, d')"
  shows "sys_inv (s\<lparr>s_db := d', s_queue := (case res of Inl err \<Rightarrow> s_queue s | Inr _ \<Rightarrow> s_queue s - {#m#}),
      s_worker := (s_worker s)(w := WIdle)\<rparr>)"
proof -
  have wf: "db_wf (s_db s)" using inv by (simp add: sys_inv_def)
  let ?s1 = "s\<lparr>s_db := d', s_tokens := s_tokens s \<union> {}\<rparr>"
  have fp: "footprint {} {} {} {} (s_db s) d'"
    using ApplyDeliveryResult_footprint [OF wf attempt_of_ok, of "{}" "{}" "{}" "{}" ft "msg_NotificationID m" lease] c
    by (metis snd_conv)
  from plain_call [OF inv fp, of "{}"] have i1: "sys_inv ?s1" by simp
  then have "worker_ok d' (s_ids s) (s_worker s w)" by (simp add: sys_inv_def)
  with w have "settled d' m" by simp
  with set_worker [OF i1, of WIdle w] drop_message [OF set_worker [OF i1, of WIdle w], of m]
  show ?thesis by (cases res; cases s) simp_all
qed

lemma sys_step_inv:
  assumes "sys_inv s" "sys_step s s'" shows "sys_inv s'"
  using assms(2)
proof cases
  case (schedule tf locked now limit res d')
  have "db_wf (s_db s)" using assms(1) by (simp add: sys_inv_def)
  from plain_call [OF assms(1) ScheduleDue_footprint [OF this, of "{}" "{}" "{}" "{}" tf locked now limit], of "{}"] schedule
  show ?thesis by (cases s) simp
next
  case (retain ft locked cutoff limit res d')
  have "db_wf (s_db s)" using assms(1) by (simp add: sys_inv_def)
  from plain_call [OF assms(1) DeleteTerminalBefore_footprint [OF this, of "{}" "{}" "{}" "{}" ft locked cutoff limit], of "{}"] retain
  show ?thesis by (cases s) simp
next
  case (replay tf nid now eventID res d')
  have "db_wf (s_db s)" using assms(1) by (simp add: sys_inv_def)
  from store_call [OF assms(1) ReplayDeadAtomic_footprint [OF this, of "{}" "{}" "{}" tf nid now eventID],
      of "s_replays s'" "{}"] replay
  show ?thesis by (cases s) (auto split: if_splits)
next
  case (pub_claim p token returning ft locked now limit until res d')
  show ?thesis unfolding pub_claim(1) by (rule pub_claim_inv [OF assms(1) pub_claim(3,4,5)])
next
  case (broker_duplicate m)
  then show ?thesis using add_message [OF assms(1), of m] assms(1) by (simp add: sys_inv_def)
qed (use assms(1) in \<open>simp_all add: accept_inv pub_claim_inv pub_publish_inv pub_mark_inv set_pub work_claim_inv
    work_finish_inv set_worker\<close>)

interpretation notifier: inductive_invariant init_sys sys_step sys_inv
  by unfold_locales (fact init_sys_inv, fact sys_step_inv)

lemma reachable_sys_inv: "reachable s \<Longrightarrow> sys_inv s"
  unfolding reachable_def by (rule notifier.reachable_inv)

section \<open>The life of a task\<close>

definition replayed :: "sys \<Rightarrow> sys \<Rightarrow> string set" where
  "replayed s s' = {i. count_list (s_replays s) i < count_list (s_replays s') i}"

lemma evolves_mono: "evolves R d d' \<Longrightarrow> R \<subseteq> R' \<Longrightarrow> evolves R' d d'"
  unfolding evolves_def row_step_def by blast

lemma footprint_evolves: "footprint X T M R d d' \<Longrightarrow> evolves R d d'"
  by (simp add: footprint_def)

lemma sys_step_footprint:
  assumes "sys_inv s" "sys_step s s'"
  shows "\<exists>X T M. footprint X T M (replayed s s') (s_db s) (s_db s') \<and> X \<inter> s_ids s = {} \<and> s_ids s \<subseteq> s_ids s'"
proof -
  have wf: "db_wf (s_db s)" using assms(1) by (simp add: sys_inv_def)
  show ?thesis using assms(2)
  proof cases
    case (accept nid jsonb tf getft registry now eventID caller key dst payload res obs d')
    then show ?thesis
      using Create_footprint [OF wf, of nid "{}" "{}" "replayed s s'" jsonb tf getft registry now eventID caller key dst payload]
      by (intro exI [of _ "{nid}"] exI [of _ "{}"]) auto
  next
    case (pub_claim p token returning ft locked now limit until res d')
    then show ?thesis
      using ClaimOutbox_footprint [OF wf, of "{}" token "{}" "replayed s s'" ft locked returning now limit until]
      by (intro exI [of _ "{}"] exI [of _ "{token}"] exI [of _ "{}"]) simp
  next
    case (pub_mark p token e es ft at res d')
    then show ?thesis
      using MarkPublished_footprint [OF wf, of "{}" "{}" "event_ID e" token "replayed s s'" ft at]
      by (intro exI [of _ "{}"] exI [of _ "{(event_ID e, token)}"]) simp
  next
    case (work_claim w m lease ft dbnow leaseUntil res d')
    then show ?thesis
      using ClaimDelivery_footprint [OF wf, of "{}" "{}" "{}" "replayed s s'" ft dbnow "msg_NotificationID m" lease leaseUntil]
      by (intro exI [of _ "{}"]) simp
  next
    case (work_finish w m lease t ft result completed jitter res d')
    from ApplyDeliveryResult_footprint [OF wf attempt_of_ok, of "{}" "{}" "{}" "replayed s s'" ft "msg_NotificationID m" lease t result completed jitter]
    show ?thesis using work_finish by (intro exI [of _ "{}"]) simp
  next
    case (schedule tf locked now limit res d')
    then show ?thesis
      using ScheduleDue_footprint [OF wf, of "{}" "{}" "{}" "replayed s s'" tf locked now limit]
      by (intro exI [of _ "{}"]) simp
  next
    case (retain ft locked cutoff limit res d')
    then show ?thesis
      using DeleteTerminalBefore_footprint [OF wf, of "{}" "{}" "{}" "replayed s s'" ft locked cutoff limit]
      by (intro exI [of _ "{}"]) simp
  next
    case (replay tf nid now eventID res d')
    then have "replayed s s' = (if d' = s_db s then {} else {nid})" by (auto simp: replayed_def)
    with replay show ?thesis
      using ReplayDeadAtomic_footprint [OF wf, of "{}" "{}" "{}" tf nid now eventID]
      by (intro exI [of _ "{}"]) simp
  qed (use wf in \<open>auto intro!: exI [of _ "{}"] footprint_refl\<close>)
qed

text \<open>A row after a step has a row of the same task before it, if the task was known then.\<close>

lemma sys_step_row:
  assumes "sys_inv s" "sys_step s s'" "r' \<in> set (notification_tasks (s_db s'))" "r_id r' \<in> s_ids s"
  shows "\<exists>r \<in> set (notification_tasks (s_db s)). row_step (replayed s s') r r'"
proof -
  from sys_step_footprint [OF assms(1,2)] obtain X T M
    where fp: "footprint X T M (replayed s s') (s_db s) (s_db s')" and X: "X \<inter> s_ids s = {}" by blast
  have "r_id r' \<in> alive (s_db s) \<union> X" using footprint_alive [OF fp] assms(3) by (auto simp: alive_def)
  with X assms(4) have "r_id r' \<in> r_id ` set (notification_tasks (s_db s))" by (auto simp: alive_def)
  with footprint_evolves [OF fp] assms(3) show ?thesis unfolding evolves_def by blast
qed

lemma same_snapshot_trans: "same_snapshot r q \<Longrightarrow> same_snapshot q p \<Longrightarrow> same_snapshot r p"
  by (simp add: same_snapshot_def)

lemma row_step_grows:
  "row_step R r r' \<Longrightarrow> r_generation r \<le> r_generation r' \<and> r_attempt_count r \<le> r_attempt_count r'"
  by (auto simp: row_step_def split: if_splits)

lemma alive_row: "r \<in> set (notification_tasks d) \<Longrightarrow> r_id r \<in> alive d"
  by (simp add: alive_def)

lemma sys_steps_row:
  assumes "sys_step\<^sup>*\<^sup>* s s'" "sys_inv s" "r \<in> set (notification_tasks (s_db s))"
  shows "sys_inv s' \<and> s_ids s \<subseteq> s_ids s' \<and>
    (\<forall>r' \<in> set (notification_tasks (s_db s')). r_id r' = r_id r \<longrightarrow>
       same_snapshot r r' \<and> r_generation r \<le> r_generation r' \<and> r_attempt_count r \<le> r_attempt_count r')"
  using assms(1)
proof (induction rule: rtranclp_induct)
  case base
  have "r' = r" if "r' \<in> set (notification_tasks (s_db s))" "r_id r' = r_id r" for r'
    using row_by_id [of "s_db s" r r'] assms(2,3) that by (simp add: sys_inv_def)
  then show ?case using assms(2) by (auto simp: same_snapshot_def)
next
  case (step s1 s2)
  then have inv: "sys_inv s1" and ids: "s_ids s \<subseteq> s_ids s1" by auto
  have "r_id r \<in> s_ids s1" using alive_row [OF assms(3)] assms(2) ids by (auto simp: sys_inv_def)
  note earlier = sys_step_row [OF inv step.hyps(2)]
  show ?case
  proof (intro conjI ballI impI)
    show "sys_inv s2" by (rule sys_step_inv [OF inv step.hyps(2)])
    show "s_ids s \<subseteq> s_ids s2" using sys_step_footprint [OF inv step.hyps(2)] ids by blast
    fix r' assume r': "r' \<in> set (notification_tasks (s_db s2))" "r_id r' = r_id r"
    with earlier \<open>r_id r \<in> s_ids s1\<close> obtain r1 where r1: "r1 \<in> set (notification_tasks (s_db s1))" "row_step (replayed s1 s2) r1 r'"
      by force
    then have id1: "r_id r1 = r_id r" using r'(2) by (simp add: row_step_def same_snapshot_def)
    with step.IH r1(1) have h: "same_snapshot r r1" "r_generation r \<le> r_generation r1" "r_attempt_count r \<le> r_attempt_count r1"
      by auto
    show "same_snapshot r r'" using same_snapshot_trans [OF h(1)] r1(2) by (simp add: row_step_def)
    show "r_generation r \<le> r_generation r'" "r_attempt_count r \<le> r_attempt_count r'"
      using row_step_grows [OF r1(2)] h by linarith+
  qed
qed

end
