(* ===== verification/SampleRun.thy ===== *)
theory SampleRun
  imports SystemInv
begin

text \<open>
  A run of the system on the sample request, for the witnesses: it is accepted, its event is
  claimed, published and marked, its message is claimed by a worker, and the supplier's
  answer 200 is stored.
\<close>

definition row0 :: task_row where
  "row0 = request_row ''{}'' sample_target ''n1'' ''billing'' ''order-7'' ''crm'' ''{}'' request_hash 0"

definition ev0 :: outbox_row where
  "ev0 = row_of_event (new_event ''e1'' ''n1'' 0)"

definition ev1 :: outbox_row where "ev1 = claim_event ''t1'' Minute ev0"

definition ev2 :: outbox_row where
  "ev2 = ev1\<lparr>o_published_at := Some Second, o_claim_token := None, o_claim_until := None\<rparr>"

definition row1 :: task_row where "row1 = claim_row ''lease1'' Minute Second row0"

definition row2 :: task_row where "row2 = result_row sample_result row1"

definition run_sys ::
  "task_row \<Rightarrow> outbox_row \<Rightarrow> message multiset \<Rightarrow> publisher \<Rightarrow> worker \<Rightarrow> string set \<Rightarrow> string list \<Rightarrow> sys" where
  "run_sys r e queue x y tokens granted =
     \<lparr>s_db = \<lparr>notification_tasks = [r], outbox_events = [e]\<rparr>, s_queue = queue, s_pub = (\<lambda>_. PIdle)(0 := x),
      s_worker = (\<lambda>_. WIdle)(0 := y), s_ids = {''n1''}, s_tokens = tokens, s_granted = granted, s_replays = []\<rparr>"

abbreviation accepted_sys :: sys where "accepted_sys \<equiv> run_sys row0 ev0 {#} PIdle WIdle {} []"

definition published_sys :: sys where
  "published_sys = run_sys row0 ev2 {#sample_message#} (PRun ''t1'' []) WIdle {''t1''} []"

definition delivering_sys :: "task \<Rightarrow> sys" where
  "delivering_sys t = run_sys row1 ev2 {#sample_message#} (PRun ''t1'' []) (WBusy sample_message ''lease1'' t) {''lease1'', ''t1''} [''n1'']"

definition delivered_sys :: sys where
  "delivered_sys = run_sys row2 ev2 {#} (PRun ''t1'' []) WIdle {''lease1'', ''t1''} [''n1'']"

lemma row_sel [simp]:
  "r_id row0 = ''n1''" "r_status row0 = StatusPending" "r_attempt_count row0 = 0" "r_id row1 = ''n1''"
  "r_status row1 = StatusDelivering" "r_lease_token row1 = Some ''lease1''" "r_id row2 = ''n1''" "r_status row2 = StatusDelivered"
  by (simp_all add: row0_def row1_def row2_def request_row_def row_of_task_def new_task_def zero_task_def claim_row_def
      result_row_def sample_result_def)

lemma ev_sel [simp]:
  "o_id ev0 = ''e1''" "o_aggregate_id ev0 = ''n1''" "o_published_at ev0 = None" "o_claim_until ev0 = None" "o_claim_token ev0 = None"
  "o_id ev1 = ''e1''" "o_aggregate_id ev1 = ''n1''" "o_published_at ev1 = None" "o_claim_token ev1 = Some ''t1''"
  by (simp_all add: ev0_def ev1_def new_event_def row_of_event_def claim_event_def)

lemma run_rows_ok: "task_row_ok row0" "task_row_ok row1" "task_row_ok row2" "outbox_row_ok ev0" "outbox_row_ok ev1" "outbox_row_ok ev2"
proof -
  have l: "pg_text ''lease1''" "pg_text ''t1''" by (rule ascii_pg_text; simp add: ascii_def)+
  show 0: "task_row_ok row0" unfolding row0_def by (rule sample_request_row_ok) (simp add: sample_texts)
  then show 1: "task_row_ok row1" using l by (simp add: row1_def task_row_ok_def claim_row_def int4_def)
  then show "task_row_ok row2"
    by (simp add: row2_def task_row_ok_def result_row_def sample_result_def NULLIF_def int4_def opt_text_def)
  show "outbox_row_ok ev0" "outbox_row_ok ev1" "outbox_row_ok ev2"
    using l by (simp_all add: outbox_row_ok_def ev0_def ev1_def ev2_def row_of_event_def new_event_def claim_event_def sample_texts int4_def)
qed

lemma run_accept: "sys_step init_sys accepted_sys"
proof -
  from sample_first obtain t d' where c: "Create (CreateOrGet Some no_faults (\<lambda>x. x) Completed) sample_registry 0 ''n1'' ''e1'' ''billing''
      ''order-7'' ''crm'' ''{}'' empty_db = (Inr (t, False), ''accepted'', d')" by blast
  have d': "d' = \<lparr>notification_tasks = [row0], outbox_events = [ev0]\<rparr>"
    using c run_rows_ok(1,4)
    by (auto simp: Create_def sample_registered sample_hashed Let_def CreateOrGet_def WithTx_def create_tx_def CreateNotification_def
        InsertOutbox_def no_faults_def stmt_fault_def insert_task_def insert_outbox_def empty_db_def row0_def request_row_def ev0_def
        new_event_def split: if_splits)
  have "''n1'' \<notin> s_ids init_sys" by (simp add: init_sys_def)
  from sys_step.accept [OF this, of Some no_faults Completed sample_registry 0 "''e1''" "''billing''" "''order-7''" "''crm''" "''{}''"]
  show ?thesis using c by (simp add: init_sys_def run_sys_def d' fun_upd_idem)
qed

lemma run_publish: "sys_step\<^sup>*\<^sup>* accepted_sys published_sys"
proof -
  let ?e = "scan_event ev1"
  have m: "event_message ?e = sample_message" by (simp add: event_message_def scan_event_def sample_message_def)
  have "ClaimOutbox Completed (\<lambda>_. False) (\<lambda>xs. xs) 0 1 ''t1'' Minute (s_db accepted_sys) =
      (Inr [?e], \<lparr>notification_tasks = [row0], outbox_events = [ev1]\<rparr>)"
    using run_rows_ok(5)
    by (simp add: ClaimOutbox_def outbox_candidates_def claimable_def run_sys_def sql_update_def update_where_def ev1_def)
  from sys_step.pub_claim [of accepted_sys 0, OF _ _ _ this]
  have 1: "sys_step accepted_sys (run_sys row0 ev1 {#} (PRun ''t1'' [?e]) WIdle {''t1''} [])"
    by (simp add: run_sys_def)
  from sys_step.pub_publish [of "run_sys row0 ev1 {#} (PRun ''t1'' [?e]) WIdle {''t1''} []" 0]
  have 2: "sys_step (run_sys row0 ev1 {#} (PRun ''t1'' [?e]) WIdle {''t1''} [])
      (run_sys row0 ev1 {#sample_message#} (PConfirmed ''t1'' ?e []) WIdle {''t1''} [])"
    by (simp add: run_sys_def m)
  have "MarkPublished Completed (event_ID ?e) ''t1'' Second \<lparr>notification_tasks = [row0], outbox_events = [ev1]\<rparr> =
      (Inr True, \<lparr>notification_tasks = [row0], outbox_events = [ev2]\<rparr>)"
    using run_rows_ok(6) by (simp add: MarkPublished_def sql_update_def update_where_def scan_event_def ev2_def)
  with sys_step.pub_mark [of "run_sys row0 ev1 {#sample_message#} (PConfirmed ''t1'' ?e []) WIdle {''t1''} []" 0 "''t1''" ?e "[]" Completed Second]
  have 3: "sys_step (run_sys row0 ev1 {#sample_message#} (PConfirmed ''t1'' ?e []) WIdle {''t1''} []) published_sys"
    by (simp add: run_sys_def published_sys_def)
  from 1 2 3 show ?thesis by (meson converse_rtranclp_into_rtranclp rtranclp.rtrancl_refl)
qed

lemma sample_columns:
  "unmarshal_header (r_static_headers row0) = Some [(''Content-Type'', [''application/json''])]"
  "unmarshal_strmap (r_secret_headers row0) = Some [(''Authorization'', ''CRM_TOKEN'')]"
  "unmarshal_delays (r_retry_delays_ns row0) = Some [5 * Second, 30 * Second]"
proof -
  have "unmarshal_header (marshal_header [(''Content-Type'', [''application/json''])]) = Some [(''Content-Type'', [''application/json''])]"
    "unmarshal_strmap (marshal_strmap [(''Authorization'', ''CRM_TOKEN'')]) = Some [(''Authorization'', ''CRM_TOKEN'')]"
    "unmarshal_delays (marshal_delays [5 * Second, 30 * Second]) = Some [5 * Second, 30 * Second]"
    by (rule header_roundtrip strmap_roundtrip delays_roundtrip; simp add: int64_def duration_units)+
  then show "unmarshal_header (r_static_headers row0) = Some [(''Content-Type'', [''application/json''])]"
    "unmarshal_strmap (r_secret_headers row0) = Some [(''Authorization'', ''CRM_TOKEN'')]"
    "unmarshal_delays (r_retry_delays_ns row0) = Some [5 * Second, 30 * Second]"
    by (simp_all add: row0_def request_row_def row_of_task_def new_task_def sample_target_def sample_policy_def)
qed

lemma sample_claimed:
  "\<exists>t. ClaimDelivery Completed Second ''n1'' ''lease1'' Minute (s_db published_sys) =
    (Inr (Some t), \<lparr>notification_tasks = [row1], outbox_events = [ev2]\<rparr>)"
proof -
  have "\<exists>t. scan_claim ''lease1'' Minute row1 = Inr t"
    by (simp add: scan_claim_def row1_def claim_row_def sample_columns)
  then obtain t where t: "scan_claim ''lease1'' Minute row1 = Inr t" by blast
  have "ClaimDelivery Completed Second ''n1'' ''lease1'' Minute (s_db published_sys) =
      (Inr (Some t), \<lparr>notification_tasks = [row1], outbox_events = [ev2]\<rparr>)"
    using run_rows_ok(2) t
    by (simp add: ClaimDelivery_def published_sys_def run_sys_def sql_update_def update_where_def row1_def)
  then show ?thesis by blast
qed

lemma run_claim: "\<exists>t. sys_step published_sys (delivering_sys t)"
proof -
  obtain t where "ClaimDelivery Completed Second (msg_NotificationID sample_message) ''lease1'' Minute (s_db published_sys) =
      (Inr (Some t), \<lparr>notification_tasks = [row1], outbox_events = [ev2]\<rparr>)"
    using sample_claimed by (auto simp: sample_message_def)
  from sys_step.work_claim [of published_sys 0, OF _ _ _ this]
  have "sys_step published_sys (delivering_sys t)"
    by (simp add: published_sys_def delivering_sys_def run_sys_def sample_message_def)
  then show ?thesis by blast
qed

lemma run_finish: "sys_step (delivering_sys t) delivered_sys"
proof -
  have "attempt_of t (answer_ok s) (2 * Second) None = sample_result" for s
    by (simp add: attempt_of_def answer_ok_def sample_result_def Let_def)
  then have "ApplyDeliveryResult Completed (msg_NotificationID sample_message) ''lease1'' (attempt_of t (answer_ok s) (2 * Second) None)
      (s_db (delivering_sys t)) = (Inr True, \<lparr>notification_tasks = [row2], outbox_events = [ev2]\<rparr>)" for s
    using run_rows_ok(3)
    by (simp add: ApplyDeliveryResult_def sample_message_def delivering_sys_def run_sys_def sql_update_def update_where_def row2_def)
  from sys_step.work_finish [of "delivering_sys t" 0 sample_message "''lease1''" t, OF _ this]
  show ?thesis by (simp add: delivering_sys_def delivered_sys_def run_sys_def)
qed

lemma run_reachable: "reachable accepted_sys" "reachable published_sys" "reachable delivered_sys" "sys_step\<^sup>*\<^sup>* accepted_sys delivered_sys"
  "\<exists>t. reachable (delivering_sys t)"
proof -
  obtain t where c: "sys_step published_sys (delivering_sys t)" using run_claim by blast
  show 1: "reachable accepted_sys" unfolding reachable_def using run_accept by blast
  then show 2: "reachable published_sys" unfolding reachable_def using run_publish by (rule rtranclp_trans)
  then have 3: "reachable (delivering_sys t)" unfolding reachable_def using c by (rule rtranclp.rtrancl_into_rtrancl)
  then show "\<exists>t. reachable (delivering_sys t)" ..
  show "reachable delivered_sys" using 3 run_finish unfolding reachable_def by (rule rtranclp.rtrancl_into_rtrancl)
  show "sys_step\<^sup>*\<^sup>* accepted_sys delivered_sys"
    using run_publish c run_finish by (meson rtranclp.rtrancl_into_rtrancl)
qed

end
