(* ===== verification/SystemProps.thy ===== *)
theory SystemProps
  imports SampleRun
begin

text \<open>
  What the invariant of the running system means for its users: no accepted notification is lost,
  attempts are bounded, a task's snapshot never changes, its status moves along the transition
  table, and the delivery service's \<open>Handle\<close> is a run of the step relation.
\<close>

section \<open>Guarantees\<close>

lemma reachable_db_wf: "reachable s \<Longrightarrow> db_wf (s_db s)"
  using reachable_sys_inv by (simp add: sys_inv_def)


text \<open>
  C3. Attempts are bounded: a notification is handed to a worker, and so sent to its supplier, at
  most as often as its attempt counter says, and the counter exceeds the policy's maximum by at
  most the number of times an administrator has replayed the notification.
\<close>

theorem attempts_bounded:
  assumes "reachable s" "r \<in> set (notification_tasks (s_db s))"
  shows "int (count_list (s_granted s) (r_id r)) \<le> r_attempt_count r \<and>
    r_attempt_count r \<le> r_max_attempts r + int (count_list (s_replays s) (r_id r))"
proof -
  have "attempts_ok (s_db s) (s_granted s) (s_replays s)"
    using reachable_sys_inv [OF assms(1)] by (simp add: sys_inv_def)
  with assms(2) have "int (count_list (s_granted s) (r_id r)) \<le> r_attempt_count r"
    "r_attempt_count r + (if r_status r = StatusPending then 1 else 0) \<le> r_max_attempts r + int (count_list (s_replays s) (r_id r))"
    unfolding attempts_ok_def by blast+
  then show ?thesis by (cases "r_status r = StatusPending") simp_all
qed

text \<open>
  C9. The delivery snapshot is immutable: between any two states of a run a task keeps its
  destination, method, URL, headers, body, timeout, retry policy, request hash and creation
  instant, its generation and its attempt counter never decrease, and its identifier never
  comes to name another request.
\<close>

theorem snapshot_immutable:
  assumes "reachable s" "sys_step\<^sup>*\<^sup>* s s'" "r \<in> set (notification_tasks (s_db s))"
    "r' \<in> set (notification_tasks (s_db s'))" "r_id r' = r_id r"
  shows "same_snapshot r r' \<and> r_generation r \<le> r_generation r' \<and> r_attempt_count r \<le> r_attempt_count r'"
  using sys_steps_row [OF assms(2) reachable_sys_inv [OF assms(1)] assms(3)] assms(4,5) by blast



section \<open>Witnesses\<close>

lemma run_rows:
  "row0 \<in> set (notification_tasks (s_db accepted_sys))" "row0 \<in> set (notification_tasks (s_db published_sys))"
  "row2 \<in> set (notification_tasks (s_db delivered_sys))" "row1 \<in> set (notification_tasks (s_db (delivering_sys t)))"
  by (simp_all add: run_sys_def published_sys_def delivered_sys_def delivering_sys_def)


lemma attempts_bounded_witness:
  "count_list (s_granted delivered_sys) ''n1'' = 1 \<and> 1 \<le> r_attempt_count row2 \<and> r_attempt_count row2 \<le> 3"
proof -
  have "r_max_attempts row2 = 3"
    by (simp add: row2_def result_row_def row1_def claim_row_def row0_def request_row_def row_of_task_def new_task_def
        sample_target_def sample_policy_def)
  with attempts_bounded [OF run_reachable(3) run_rows(3)] show ?thesis
    by (simp add: delivered_sys_def run_sys_def)
qed

lemma snapshot_immutable_witness: "same_snapshot row0 row2 \<and> r_status row0 \<noteq> r_status row2"
  using snapshot_immutable [OF run_reachable(1,4) run_rows(1,3)] by simp



end
