(* ===== verification/Broker.thy ===== *)
theory Broker
  imports Delivery
begin

text \<open>
  The RabbitMQ client (\<open>internal/messaging/rabbitmq/publisher.go\<close>) on its publishing side: the
  two notification channels of the AMQP library, what the broker does with the messages it has
  been sent, and \<open>Publish\<close>. The library's documented behaviour is the meaning of
  \<open>broker_act\<close>: confirmations come in the order of publishing, a mandatory message that cannot be
  routed is returned before it is confirmed, and a closed connection closes both channels.
\<close>

section \<open>Channels\<close>

text \<open>
  \<open>cl_unanswered\<close> are the messages sent and not yet answered, \<open>cl_returns\<close> and
  \<open>cl_confirms\<close> the reply texts and acknowledgements waiting to be received (those in the
  buffers and those the library's reader holds), \<open>cl_stored\<close> the messages the broker has
  taken into the queue.
\<close>

record client =
  cl_unanswered :: "message list"
  cl_returns :: "string list"
  cl_confirms :: "bool list"
  cl_closed :: bool
  cl_stored :: "message list"

datatype broker_action = Stored | Unroutable string | Refused | Closed

fun broker_act :: "broker_action \<Rightarrow> client \<Rightarrow> client" where
  "broker_act Closed c = c\<lparr>cl_closed := True\<rparr>"
| "broker_act a c =
     (if cl_closed c then c
      else case cl_unanswered c of
        [] \<Rightarrow> c
      | m # ms \<Rightarrow>
          (case a of
             Stored \<Rightarrow> c\<lparr>cl_unanswered := ms, cl_confirms := cl_confirms c @ [True], cl_stored := cl_stored c @ [m]\<rparr>
           | Unroutable reply \<Rightarrow>
               c\<lparr>cl_unanswered := ms, cl_returns := cl_returns c @ [reply], cl_confirms := cl_confirms c @ [True]\<rparr>
           | _ \<Rightarrow> c\<lparr>cl_unanswered := ms, cl_confirms := cl_confirms c @ [False]\<rparr>))"

text \<open>
  \<open><-client.returns\<close> and \<open><-client.confirms\<close>: a buffered value, or the zero value of a
  closed channel; \<open>None\<close> when the receive blocks. A confirmation counts as \<open>ok && Ack\<close>.
\<close>

definition receive_return :: "client \<Rightarrow> (string \<times> client) option" where
  "receive_return c =
     (case cl_returns c of
        t # ts \<Rightarrow> Some (t, c\<lparr>cl_returns := ts\<rparr>)
      | [] \<Rightarrow> if cl_closed c then Some ([], c) else None)"

definition receive_confirm :: "client \<Rightarrow> (bool \<times> client) option" where
  "receive_confirm c =
     (case cl_confirms c of
        b # bs \<Rightarrow> Some (b, c\<lparr>cl_confirms := bs\<rparr>)
      | [] \<Rightarrow> if cl_closed c then Some (False, c) else None)"

section \<open>Topology and Open\<close>

record topology =
  Exchange :: string
  Queue :: string
  RoutingKey :: string

datatype topology_call =
    ExchangeDeclare string string
  | QueueDeclare string "(string \<times> string) list"
  | QueueBind string string string

text \<open>
  \<open>declare\<close> makes its three declarations, all durable, in order until one fails; \<open>declares\<close> is the
  channel's answer to each. The second component lists the declarations made.
\<close>

definition declare_topology :: "(topology_call \<Rightarrow> error option) \<Rightarrow> topology \<Rightarrow> error option \<times> topology_call list" where
  "declare_topology declares t =
     (let e = ExchangeDeclare (Exchange t) ''direct'';
          q = QueueDeclare (Queue t) [(''x-queue-type'', ''quorum'')];
          b = QueueBind (Queue t) (RoutingKey t) (Exchange t)
      in case declares e of
           Some err \<Rightarrow> (Some (Errorf ''declare exchange'' [err]), [e])
         | None \<Rightarrow>
             (case declares q of
                Some err \<Rightarrow> (Some (Errorf ''declare queue'' [err]), [e, q])
              | None \<Rightarrow> (case declares b of
                           Some err \<Rightarrow> (Some (Errorf ''bind queue'' [err]), [e, q, b])
                         | None \<Rightarrow> (None, [e, q, b]))))"

definition fresh_client :: client where
  "fresh_client = \<lparr>cl_unanswered = [], cl_returns = [], cl_confirms = [], cl_closed = False, cl_stored = []\<rparr>"

text \<open>\<open>Open\<close>: the answers of the library to each call, and what is closed on the way out.\<close>

datatype resource = Connection | Channel

definition Open ::
  "error option \<Rightarrow> error option \<Rightarrow> (topology_call \<Rightarrow> error option) \<Rightarrow> error option \<Rightarrow> topology
    \<Rightarrow> (error + client) \<times> resource list" where
  "Open dialErr channelErr declares confirmErr t =
     (case dialErr of
        Some err \<Rightarrow> (Inl (Errorf ''dial rabbitmq'' [err]), [])
      | None \<Rightarrow>
     (case channelErr of
        Some err \<Rightarrow> (Inl (Errorf ''open rabbitmq channel'' [err]), [Connection])
      | None \<Rightarrow>
     (case fst (declare_topology declares t) of
        Some err \<Rightarrow> (Inl err, [Channel, Connection])
      | None \<Rightarrow>
     (case confirmErr of
        Some err \<Rightarrow> (Inl (Errorf ''enable confirms'' [err]), [Channel, Connection])
      | None \<Rightarrow> (Inr fresh_client, [])))))"

definition Healthy :: "client \<Rightarrow> error option" where
  "Healthy c = (if cl_closed c then Some (New ''rabbitmq connection is closed'') else None)"

section \<open>Publish\<close>

text \<open>
  The ready case the \<open>select\<close> takes. A case that never becomes ready leaves the
  \<open>select\<close> waiting until the context is done.
\<close>

datatype ready = ReadyReturn | ReadyConfirm | ReadyDone

definition returned_error :: "string \<Rightarrow> error" where
  "returned_error reply = New (''message returned by broker: '' @ reply)"

definition await_confirm :: "ready \<Rightarrow> error \<Rightarrow> client \<Rightarrow> error option \<times> client" where
  "await_confirm pick ctxErr c =
     (let done = (Some (Errorf [] [Sentinel ErrConfirmLost, ctxErr]), c) in
      case pick of
        ReadyReturn \<Rightarrow>
          (case receive_return c of
             Some (reply, c1) \<Rightarrow> (Some (returned_error reply), c1)
           | None \<Rightarrow> done)
      | ReadyConfirm \<Rightarrow>
          (case receive_confirm c of
             Some (ack, c1) \<Rightarrow>
               if \<not> ack then (Some (Sentinel ErrConfirmLost), c1)
               else (case receive_return c1 of
                       Some (reply, c2) \<Rightarrow> (Some (returned_error reply), c2)
                     | None \<Rightarrow> (None, c1))
           | None \<Rightarrow> done)
      | ReadyDone \<Rightarrow> done)"

text \<open>
  \<open>Publish\<close>, under the client's mutex: \<open>sendErr\<close> is the outcome of
  \<open>PublishWithContext\<close>, \<open>actions\<close> what the broker does between the sending and the
  \<open>select\<close>. Marshalling a struct of two strings does not fail.
\<close>

definition Publish ::
  "error option \<Rightarrow> broker_action list \<Rightarrow> ready \<Rightarrow> error \<Rightarrow> message \<Rightarrow> client \<Rightarrow> error option \<times> client" where
  "Publish sendErr actions pick ctxErr m c =
     (case sendErr of
        Some err \<Rightarrow> (Some (Errorf ''publish message'' [err]), c)
      | None \<Rightarrow> await_confirm pick ctxErr (fold broker_act actions (c\<lparr>cl_unanswered := cl_unanswered c @ [m]\<rparr>)))"

text \<open>
  A client is quiet when nothing it has sent is unanswered and nothing waits in its channels, as
  after \<open>Open\<close>. \<open>answered\<close> describes the client after the broker has dealt, or not yet
  dealt, with one message sent by a quiet client.
\<close>

definition quiet :: "client \<Rightarrow> bool" where
  "quiet c \<longleftrightarrow> cl_unanswered c = [] \<and> cl_returns c = [] \<and> cl_confirms c = []"

definition answered :: "message list \<Rightarrow> message \<Rightarrow> client \<Rightarrow> bool" where
  "answered stored m c \<longleftrightarrow>
     (case (cl_unanswered c, cl_returns c, cl_confirms c) of
        ([x], [], []) \<Rightarrow> x = m \<and> cl_stored c = stored
      | ([], [], [True]) \<Rightarrow> cl_stored c = stored @ [m]
      | ([], [_], [True]) \<Rightarrow> cl_stored c = stored
      | ([], [], [False]) \<Rightarrow> cl_stored c = stored
      | _ \<Rightarrow> False)"

lemma answered_cases:
  assumes "answered stored m c"
  obtains (waiting) "cl_unanswered c = [m]" "cl_returns c = []" "cl_confirms c = []" "cl_stored c = stored"
    | (stored) "cl_unanswered c = []" "cl_returns c = []" "cl_confirms c = [True]" "cl_stored c = stored @ [m]"
    | (returned) t where "cl_unanswered c = []" "cl_returns c = [t]" "cl_confirms c = [True]" "cl_stored c = stored"
    | (refused) "cl_unanswered c = []" "cl_returns c = []" "cl_confirms c = [False]" "cl_stored c = stored"
  using assms unfolding answered_def by (auto split: list.splits bool.splits)

lemma broker_act_answered: "answered stored m c \<Longrightarrow> answered stored m (broker_act a c)"
  by (erule answered_cases; cases a) (auto simp: answered_def)

lemma broker_acts_answered: "answered stored m c \<Longrightarrow> answered stored m (fold broker_act as c)"
  by (induction as arbitrary: c) (auto intro: broker_act_answered)

lemma Open_quiet: "fst (Open dialErr channelErr declares confirmErr t) = Inr c \<Longrightarrow> quiet c"
  by (auto simp: Open_def fresh_client_def quiet_def split: option.splits)

lemma sent_answered: "quiet c \<Longrightarrow> answered (cl_stored c) m (c\<lparr>cl_unanswered := cl_unanswered c @ [m]\<rparr>)"
  by (simp add: quiet_def answered_def)

lemma await_confirm_stored:
  assumes "answered stored m c" "await_confirm pick ctxErr c = (None, c')"
  shows "quiet c' \<and> \<not> cl_closed c' \<and> cl_stored c' = stored @ [m]"
  using assms(1)
  by (cases rule: answered_cases)
    (use assms(2) in \<open>auto simp: await_confirm_def receive_return_def receive_confirm_def quiet_def Let_def
       split: ready.splits if_splits\<close>)

lemma await_confirm_grows:
  assumes "answered stored m c" "await_confirm pick ctxErr c = (res, c')"
  shows "cl_stored c' = stored \<or> cl_stored c' = stored @ [m]"
  using assms(1)
  by (cases rule: answered_cases)
    (use assms(2) in \<open>auto simp: await_confirm_def receive_return_def receive_confirm_def Let_def
       split: ready.splits if_splits\<close>)

lemma Publish_stored:
  assumes "quiet c" "Publish sendErr actions pick ctxErr m c = (None, c')"
  shows "quiet c' \<and> \<not> cl_closed c' \<and> cl_stored c' = cl_stored c @ [m]"
proof (cases sendErr)
  case None
  with assms(2) show ?thesis
    by (auto simp: Publish_def intro!: await_confirm_stored [OF broker_acts_answered [OF sent_answered [OF assms(1)]]])
next
  case (Some err)
  with assms(2) show ?thesis by (simp add: Publish_def)
qed

lemma Publish_grows:
  assumes "quiet c" "Publish sendErr actions pick ctxErr m c = (res, c')"
  shows "set (cl_stored c) \<subseteq> set (cl_stored c')"
proof (cases sendErr)
  case None
  with assms(2) have "await_confirm pick ctxErr (fold broker_act actions (c\<lparr>cl_unanswered := cl_unanswered c @ [m]\<rparr>)) = (res, c')"
    by (simp add: Publish_def)
  from await_confirm_grows [OF broker_acts_answered [OF sent_answered [OF assms(1)]] this] show ?thesis by auto
qed (use assms(2) in \<open>simp add: Publish_def\<close>)

section \<open>Properties\<close>

text \<open>
  C40. \<open>Publish\<close> on a client whose channels are empty reports success only for a message the
  broker has stored exactly once and has not returned, and leaves the channels empty, whatever
  the broker answers and whichever ready case the \<open>select\<close> takes; conversely a message that is
  sent, stored and confirmed is reported as such.
\<close>

theorem publish_confirms_stored:
  assumes "quiet c"
  shows "(\<forall>c'. Publish sendErr actions pick ctxErr m c = (None, c') \<longrightarrow>
            quiet c' \<and> cl_stored c' = cl_stored c @ [m]) \<and>
    (\<not> cl_closed c \<longrightarrow> fst (Publish None [Stored] ReadyConfirm ctxErr m c) = None) \<and>
    fst (Publish None [Unroutable reply] ReadyConfirm ctxErr m c) \<noteq> None \<and>
    fst (Publish None [Refused] ReadyConfirm ctxErr m c) \<noteq> None \<and>
    fst (Publish None [Closed] ReadyConfirm ctxErr m c) \<noteq> None"
  using Publish_stored [OF assms] assms
  by (auto simp: quiet_def Publish_def await_confirm_def receive_confirm_def receive_return_def Let_def)

lemma publish_confirms_stored_witness:
  "fst (Publish None [Stored] ReadyConfirm (Sentinel Canceled) sample_message fresh_client) = None"
proof -
  have "quiet fresh_client" "\<not> cl_closed fresh_client" by (simp_all add: quiet_def fresh_client_def)
  with publish_confirms_stored [of fresh_client] show ?thesis by blast
qed

text \<open>
  Confirmations are not matched with the messages they confirm: when a publication ends
  because its context is done before the broker answers, the late confirmation is taken for that
  of the next message, which \<open>Publish\<close> then reports as confirmed although the broker has refused
  it. Each \<open>Publish\<close> is right only on a quiet client.
\<close>

theorem publish_takes_stale_confirmation:
  assumes "m \<noteq> m'"
  shows "let (r1, c1) = Publish None [] ReadyDone (Sentinel Canceled) m fresh_client;
             (r2, c2) = Publish None [Stored, Refused] ReadyConfirm (Sentinel Canceled) m' c1
         in r1 \<noteq> None \<and> r2 = None \<and> m' \<notin> set (cl_stored c2)"
  using assms
  by (simp add: Publish_def await_confirm_def receive_confirm_def receive_return_def fresh_client_def Let_def)

lemma publish_takes_stale_confirmation_witness:
  "let (r1, c1) = Publish None [] ReadyDone (Sentinel Canceled) sample_message fresh_client;
       (r2, c2) = Publish None [Stored, Refused] ReadyConfirm (Sentinel Canceled) (sample_message\<lparr>msg_EventID := ''e9''\<rparr>) c1
   in r1 \<noteq> None \<and> r2 = None \<and> sample_message\<lparr>msg_EventID := ''e9''\<rparr> \<notin> set (cl_stored c2)"
  by (rule publish_takes_stale_confirmation) (simp add: sample_message_def)

end
