(* ===== verification/Outbox.thy ===== *)
theory Outbox
  imports SystemInv Broker
begin

text \<open>
  The outbox publisher (\<open>internal/outbox/service.go\<close>). The pair of interfaces it declares is the
  locale \<open>outbox_interfaces\<close>, in which one pass is proved safe once; the locale is interpreted on
  the PostgreSQL store and the RabbitMQ client.
\<close>

section \<open>RunOnce and Run\<close>

text \<open>The message of an event is \<open>event_message\<close> of the running system.\<close>

text \<open>
  The loop of \<open>RunOnce\<close> over the claimed events: \<open>n\<close> counts the published ones, \<open>obs\<close> are the
  outcomes passed to the observer, \<open>clock k\<close> is the reading of \<open>now\<close> before the \<open>k\<close>-th mark.
\<close>

fun publish_loop ::
  "(message \<Rightarrow> 'w \<Rightarrow> error option \<times> 'w) \<Rightarrow> (string \<Rightarrow> string \<Rightarrow> time \<Rightarrow> 'w \<Rightarrow> (error + bool) \<times> 'w) \<Rightarrow>
   (nat \<Rightarrow> time) \<Rightarrow> string \<Rightarrow> nat \<Rightarrow> outbox_event list \<Rightarrow> int \<Rightarrow> string list \<Rightarrow> 'w
    \<Rightarrow> (int \<times> error option) \<times> string list \<times> 'w" where
  "publish_loop publish mark clock token k [] n obs w = ((n, None), obs, w)"
| "publish_loop publish mark clock token k (event # events) n obs w =
     (case publish (event_message event) w of
        (Some err, w1) \<Rightarrow> ((n, Some err), obs @ [''failed''], w1)
      | (None, w1) \<Rightarrow>
          (case mark (event_ID event) token (clock k) w1 of
             (Inl err, w2) \<Rightarrow> ((n, Some (Errorf ''mark published'' [err])), obs @ [''failed''], w2)
           | (Inr True, w2) \<Rightarrow> publish_loop publish mark clock token (k + 1) events (n + 1) (obs @ [''confirmed'']) w2
           | (Inr False, w2) \<Rightarrow> publish_loop publish mark clock token (k + 1) events n obs w2))"

definition outbox_RunOnce ::
  "(time \<Rightarrow> nat \<Rightarrow> string \<Rightarrow> time \<Rightarrow> 'w \<Rightarrow> (error + outbox_event list) \<times> 'w) \<Rightarrow>
   (message \<Rightarrow> 'w \<Rightarrow> error option \<times> 'w) \<Rightarrow> (string \<Rightarrow> string \<Rightarrow> time \<Rightarrow> 'w \<Rightarrow> (error + bool) \<times> 'w) \<Rightarrow>
   nat \<Rightarrow> duration \<Rightarrow> time \<Rightarrow> (nat \<Rightarrow> time) \<Rightarrow> string \<Rightarrow> 'w \<Rightarrow> (int \<times> error option) \<times> string list \<times> 'w" where
  "outbox_RunOnce claim publish mark batchSize claimTTL now clock token w =
     (case claim now batchSize token (Add now claimTTL) w of
        (Inl err, w1) \<Rightarrow> ((0, Some (Errorf ''claim outbox'' [err])), [], w1)
      | (Inr events, w1) \<Rightarrow> publish_loop publish mark clock token 0 events 0 [] w1)"

text \<open>
  \<open>Run\<close>: a pass, then whichever of the ticker and the cancelled context the \<open>select\<close> takes.
  An error that is not a cancellation ends the loop; \<open>None\<close> means the loop is still running after
  the given events.
\<close>

datatype loop_event = Tick | CtxDone error

definition poll_interval :: "duration \<Rightarrow> duration" where
  "poll_interval interval = (if interval \<le> 0 then Second else interval)"

fun outbox_Run :: "('w \<Rightarrow> error option \<times> 'w) \<Rightarrow> loop_event list \<Rightarrow> 'w \<Rightarrow> error option \<times> 'w" where
  "outbox_Run runOnce events w =
     (case runOnce w of (err, w1) \<Rightarrow>
        if err \<noteq> None \<and> \<not> errors_is (the err) Canceled then (err, w1)
        else (case events of
                [] \<Rightarrow> (None, w1)
              | CtxDone e # _ \<Rightarrow> (Some e, w1)
              | Tick # rest \<Rightarrow> outbox_Run runOnce rest w1))"

declare outbox_Run.simps [simp del]

section \<open>The interfaces\<close>

text \<open>
  The interfaces \<open>Repository\<close> and \<open>Publisher\<close>: \<open>confirmed w\<close> are the messages the broker has
  confirmed, \<open>published w\<close> the identifiers of the published events with their aggregate. Only
  a confirmation adds to the first, only a successful mark under the claim's token adds to the
  second, and an event keeps its aggregate.
\<close>

locale outbox_interfaces =
  fixes claim :: "time \<Rightarrow> nat \<Rightarrow> string \<Rightarrow> time \<Rightarrow> 'w \<Rightarrow> (error + outbox_event list) \<times> 'w"
    and publish :: "message \<Rightarrow> 'w \<Rightarrow> error option \<times> 'w"
    and mark :: "string \<Rightarrow> string \<Rightarrow> time \<Rightarrow> 'w \<Rightarrow> (error + bool) \<times> 'w"
    and confirmed :: "'w \<Rightarrow> message set" and published :: "'w \<Rightarrow> message set" and belongs :: "'w \<Rightarrow> outbox_event \<Rightarrow> bool"
    and inv :: "'w \<Rightarrow> bool"
  assumes claim_keeps: "inv w \<Longrightarrow> claim now n token until w = (claimed, w') \<Longrightarrow>
        inv w' \<and> confirmed w' = confirmed w \<and> published w' = published w \<and>
        (\<forall>es. claimed = Inr es \<longrightarrow> (\<forall>e \<in> set es. belongs w' e))"
    and publish_confirms: "inv w \<Longrightarrow> publish m w = (err, w') \<Longrightarrow>
        confirmed w \<subseteq> confirmed w' \<and> published w' = published w \<and>
        (err = None \<longrightarrow> inv w' \<and> m \<in> confirmed w' \<and> (\<forall>e. belongs w e \<longrightarrow> belongs w' e))"
    and mark_publishes: "inv w \<Longrightarrow> belongs w e \<Longrightarrow> mark (event_ID e) token at w = (res, w') \<Longrightarrow>
        inv w' \<and> confirmed w' = confirmed w \<and> published w' \<subseteq> insert (event_message e) (published w) \<and>
        (\<forall>x. belongs w x \<longrightarrow> belongs w' x) \<and>
        (res = Inr True \<longrightarrow> event_message e \<in> published w') \<and> (res = Inr False \<longrightarrow> published w' = published w)"
begin

lemma publish_loop_safe:
  assumes "inv w" "published w \<subseteq> P \<union> confirmed w" "\<forall>e \<in> set events. belongs w e"
    and "publish_loop publish mark clock token k events n obs w = ((n', err), obs', w')"
  shows "published w' \<subseteq> P \<union> confirmed w' \<and> confirmed w \<subseteq> confirmed w' \<and> (err = None \<longrightarrow> inv w') \<and>
    (\<exists>oks. obs' = obs @ replicate oks ''confirmed'' @ (if err = None then [] else [''failed'']) \<and> n' = n + int oks \<and> oks \<le> length events)"
  using assms
proof (induction events arbitrary: w k n obs)
  case Nil
  then show ?case by (auto intro: exI [of _ 0])
next
  case (Cons e events)
  obtain perr w1 where p: "publish (event_message e) w = (perr, w1)" by fastforce
  note c = publish_confirms [OF Cons.prems(1) p]
  show ?case
  proof (cases perr)
    case (Some er)
    with p Cons.prems(4) have "n' = n" "err = Some er" "obs' = obs @ [''failed'']" "w' = w1" by auto
    with c Cons.prems(2) show ?thesis by (auto intro: exI [of _ 0])
  next
    case None
    obtain res w2 where m: "mark (event_ID e) token (clock k) w1 = (res, w2)" by fastforce
    from c None Cons.prems(3) have "belongs w1 e" by simp
    with c None have q: "inv w2 \<and> confirmed w2 = confirmed w1 \<and> published w2 \<subseteq> insert (event_message e) (published w1) \<and>
        (\<forall>x. belongs w1 x \<longrightarrow> belongs w2 x)"
      using mark_publishes [OF _ _ m] by blast
    have safe: "published w2 \<subseteq> P \<union> confirmed w2" "confirmed w \<subseteq> confirmed w2" "inv w2" "\<forall>x \<in> set events. belongs w2 x"
      using q c None Cons.prems(2,3) by auto
    show ?thesis
    proof (cases res)
      case (Inl er)
      with p m None Cons.prems(4) have "n' = n" "err = Some (Errorf ''mark published'' [er])" "obs' = obs @ [''failed'']" "w' = w2"
        by auto
      with safe show ?thesis by (auto intro: exI [of _ 0])
    next
      case (Inr applied)
      define n2 obs2 where "n2 = (if applied then n + 1 else n)" and "obs2 = (if applied then obs @ [''confirmed''] else obs)"
      have "publish_loop publish mark clock token (k + 1) events n2 obs2 w2 = ((n', err), obs', w')"
        using p m None Inr Cons.prems(4) by (cases applied) (simp_all add: n2_def obs2_def)
      from Cons.IH [OF safe(3,1,4) this] obtain oks where r:
        "published w' \<subseteq> P \<union> confirmed w' \<and> confirmed w2 \<subseteq> confirmed w' \<and> (err = None \<longrightarrow> inv w')"
        "obs' = obs2 @ replicate oks ''confirmed'' @ (if err = None then [] else [''failed''])" "n' = n2 + int oks" "oks \<le> length events"
        by blast
      then show ?thesis using safe(2)
        by (intro conjI exI [of _ "if applied then Suc oks else oks"]) (auto simp: n2_def obs2_def)
    qed
  qed
qed

lemma RunOnce_safe:
  assumes "inv w" "published w \<subseteq> P \<union> confirmed w"
    and "outbox_RunOnce claim publish mark batchSize claimTTL now clock token w = ((n, err), obs, w')"
  shows "published w' \<subseteq> P \<union> confirmed w' \<and> confirmed w \<subseteq> confirmed w' \<and> (err = None \<longrightarrow> inv w') \<and> int (count_list obs ''confirmed'') = n \<and> 0 \<le> n"
proof -
  obtain res w1 where c: "claim now batchSize token (Add now claimTTL) w = (res, w1)" by fastforce
  note k = claim_keeps [OF assms(1) c]
  show ?thesis
  proof (cases res)
    case (Inl er)
    with c k assms show ?thesis by (auto simp: outbox_RunOnce_def)
  next
    case (Inr es)
    with c assms(3) have "publish_loop publish mark clock token 0 es 0 [] w1 = ((n, err), obs, w')"
      by (simp add: outbox_RunOnce_def)
    from publish_loop_safe [OF _ _ _ this, of P] k Inr assms(2) obtain oks where
      "published w' \<subseteq> P \<union> confirmed w' \<and> confirmed w1 \<subseteq> confirmed w' \<and> (err = None \<longrightarrow> inv w')"
      "obs = replicate oks ''confirmed'' @ (if err = None then [] else [''failed''])" "n = int oks"
      by auto
    with k show ?thesis by (auto simp: count_list_eq_length_filter)
  qed
qed

end

section \<open>The outbox over PostgreSQL and RabbitMQ\<close>

text \<open>
  The world of one publisher process: the database, its client, and the outcomes of its calls
  still to come, numbered by \<open>ow_calls\<close>: the fault of a statement, the rows locked by others,
  the order of the rows it returns, and what the broker does with a publication.
\<close>

record outbox_world =
  ow_db :: db
  ow_client :: client
  ow_calls :: nat
  ow_faults :: "nat \<Rightarrow> fault"
  ow_locked :: "nat \<Rightarrow> string \<Rightarrow> bool"
  ow_returning :: "outbox_row list \<Rightarrow> outbox_row list"
  ow_answers :: "nat \<Rightarrow> error option \<times> broker_action list \<times> ready \<times> error"

definition world_claim ::
  "time \<Rightarrow> nat \<Rightarrow> string \<Rightarrow> time \<Rightarrow> outbox_world \<Rightarrow> (error + outbox_event list) \<times> outbox_world" where
  "world_claim now limit token until w =
     (let (res, d) = ClaimOutbox (ow_faults w (ow_calls w)) (ow_locked w (ow_calls w)) (ow_returning w)
                       now limit token until (ow_db w)
      in (res, w\<lparr>ow_db := d, ow_calls := ow_calls w + 1\<rparr>))"

definition world_publish :: "message \<Rightarrow> outbox_world \<Rightarrow> error option \<times> outbox_world" where
  "world_publish m w =
     (let (sendErr, actions, pick, ctxErr) = ow_answers w (ow_calls w);
          (res, c) = Publish sendErr actions pick ctxErr m (ow_client w)
      in (res, w\<lparr>ow_client := c, ow_calls := ow_calls w + 1\<rparr>))"

definition world_mark :: "string \<Rightarrow> string \<Rightarrow> time \<Rightarrow> outbox_world \<Rightarrow> (error + bool) \<times> outbox_world" where
  "world_mark i token at w =
     (let (res, d) = MarkPublished (ow_faults w (ow_calls w)) i token at (ow_db w)
      in (res, w\<lparr>ow_db := d, ow_calls := ow_calls w + 1\<rparr>))"

definition published_messages :: "db \<Rightarrow> message set" where
  "published_messages d = row_message ` {q \<in> set (outbox_events d). o_published_at q \<noteq> None}"

definition has_event :: "db \<Rightarrow> outbox_event \<Rightarrow> bool" where
  "has_event d e \<longleftrightarrow> event_message e \<in> row_message ` set (outbox_events d)"

lemma updated_messages:
  assumes "\<And>q. row_message (f q) = row_message q"
  shows "published_messages (d\<lparr>outbox_events := update_where p f (outbox_events d)\<rparr>) =
      row_message ` {q \<in> set (outbox_events d). o_published_at (if p q then f q else q) \<noteq> None}"
    and "has_event (d\<lparr>outbox_events := update_where p f (outbox_events d)\<rparr>) = has_event d"
proof -
  let ?g = "\<lambda>q. if p q then f q else q"
  have s: "{q \<in> set (update_where p f (outbox_events d)). o_published_at q \<noteq> None} =
      ?g ` {q \<in> set (outbox_events d). o_published_at (?g q) \<noteq> None}"
    unfolding set_update_where by blast
  have new: "outbox_events (d\<lparr>outbox_events := update_where p f (outbox_events d)\<rparr>) = update_where p f (outbox_events d)" by simp
  have g: "row_message (?g q) = row_message q" for q using assms by simp
  show "published_messages (d\<lparr>outbox_events := update_where p f (outbox_events d)\<rparr>) =
      row_message ` {q \<in> set (outbox_events d). o_published_at (?g q) \<noteq> None}"
    unfolding published_messages_def by (simp only: new s image_image g)
  show "has_event (d\<lparr>outbox_events := update_where p f (outbox_events d)\<rparr>) = has_event d"
    using image_update_where [of row_message f p, OF assms] by (simp add: has_event_def fun_eq_iff)
qed

lemma ClaimOutbox_messages:
  assumes wf: "db_wf d" and ret: "\<And>xs. mset (returning xs) = mset xs"
    and c: "ClaimOutbox ft locked returning now limit token until d = (res, d')"
  shows "db_wf d' \<and> published_messages d' = published_messages d \<and>
    (\<forall>es. res = Inr es \<longrightarrow> (\<forall>e \<in> set es. has_event d' e))"
proof (intro conjI allI impI ballI)
  let ?p = "\<lambda>e. o_id e \<in> set (map o_id (outbox_candidates locked now limit d))"
  let ?f = "claim_event token until"
  show "db_wf d'" using ClaimOutbox_wf [OF wf, of ft locked returning now limit token until] c by simp
  have d': "d' = d\<lparr>outbox_events := snd (sql_update ft outbox_row_ok ?p ?f (outbox_events d))\<rparr>"
    using ClaimOutbox_db [of ft locked returning now limit token until d] c by simp
  have f: "row_message (?f q) = row_message q" "o_published_at (if ?p q then ?f q else q) = o_published_at q" for q
    by (simp_all add: row_message_def claim_event_def)
  from sql_update_cases [of ft outbox_row_ok ?p ?f "outbox_events d"]
  show "published_messages d' = published_messages d"
  proof
    assume "snd (sql_update ft outbox_row_ok ?p ?f (outbox_events d)) = update_where ?p ?f (outbox_events d) \<and>
        (\<forall>r \<in> set (outbox_events d). ?p r \<longrightarrow> outbox_row_ok (?f r))"
    then show ?thesis unfolding d' using updated_messages(1) [where f = ?f and d = d and p = ?p, OF f(1)] f(2)
      by (simp only: published_messages_def)
  qed (simp add: d')
  fix es e assume "res = Inr es" "e \<in> set es"
  with claimed_events_ok [OF wf ret order_refl, of ft locked now limit token until es d' e] c
  have "claim_ok d' (alive d) token e" by simp
  moreover have "alive d' = alive d" by (simp add: d' alive_def)
  ultimately have "msg_NotificationID (event_message e) \<in> alive d'" "known d' (alive d') (event_message e)"
    by (simp_all add: claim_ok_def known_def)
  then show "has_event d' e" unfolding known_def has_event_def by (metis image_eqI)
qed

lemma MarkPublished_messages:
  assumes wf: "db_wf d" and e: "has_event d e" and c: "MarkPublished ft (event_ID e) token at d = (res, d')"
  shows "db_wf d' \<and> has_event d' = has_event d \<and>
    published_messages d \<subseteq> published_messages d' \<and>
    published_messages d' \<subseteq> insert (event_message e) (published_messages d) \<and>
    (res = Inr True \<longrightarrow> event_message e \<in> published_messages d') \<and> (res = Inr False \<longrightarrow> d' = d)"
proof -
  let ?p = "\<lambda>q. o_id q = event_ID e \<and> o_claim_token q = Some token \<and> o_published_at q = None"
  let ?f = "\<lambda>q. q\<lparr>o_published_at := Some at, o_claim_token := None, o_claim_until := None\<rparr>"
  let ?d = "d\<lparr>outbox_events := update_where ?p ?f (outbox_events d)\<rparr>"
  from e obtain q where q: "q \<in> set (outbox_events d)" "row_message q = event_message e" by (auto simp: has_event_def)
  then have id: "o_id q = event_ID e" by (simp add: row_message_def event_message_def)
  have look: "event_of d (event_ID e) = Some q" using lookup_by_eqI [OF db_wf_event_ids [OF wf] q(1)] id by simp
  have only: "?p x \<Longrightarrow> x \<in> set (outbox_events d) \<Longrightarrow> x = q" for x
    using event_unique [OF wf _ q(1), of x] id by simp
  have rows: "filter ?p (outbox_events d) = (if ?p q then [q] else [])"
    unfolding pending_filter [OF wf] look using id by simp
  have none: "\<not> ?p q \<Longrightarrow> ?d = d" using only update_where_none [of "outbox_events d" ?p ?f] by fastforce
  have call: "(res, d') = (let (r, rows) = sql_update ft outbox_row_ok ?p ?f (outbox_events d)
      in (case r of Inl err \<Rightarrow> Inl (Errorf ''mark outbox published'' [err]) | Inr es \<Rightarrow> Inr (length es = 1), d\<lparr>outbox_events := rows\<rparr>))"
    using c by (simp add: MarkPublished_def)
  have "d' = d \<and> res \<noteq> Inr True \<or> d' = ?d \<and> ?p q \<and> res \<noteq> Inr False"
  proof (cases "?p q")
    case True
    with call rows show ?thesis by (cases ft) (auto simp: sql_update_def split: if_splits)
  next
    case False
    with call rows none show ?thesis by (cases ft) (auto simp: sql_update_def split: if_splits)
  qed
  then consider "d' = d" "res \<noteq> Inr True" | "d' = ?d" "?p q" "res \<noteq> Inr False" by blast
  then show ?thesis
  proof cases
    case 2
    have f: "row_message (?f x) = row_message x" for x by (simp add: row_message_def)
    have pub: "published_messages ?d = row_message ` {x \<in> set (outbox_events d). ?p x \<or> o_published_at x \<noteq> None}"
      unfolding updated_messages(1) [where f = ?f and d = d and p = ?p, OF f] by (auto simp: image_iff)
    also have "{x \<in> set (outbox_events d). ?p x \<or> o_published_at x \<noteq> None} =
        insert q {x \<in> set (outbox_events d). o_published_at x \<noteq> None}"
      using only 2(2) q(1) by blast
    finally have "published_messages ?d = insert (event_message e) (published_messages d)"
      by (simp add: published_messages_def q(2))
    with 2 wf c MarkPublished_wf [OF wf, of ft "event_ID e" token at] updated_messages(2) [where f = ?f and d = d and p = ?p, OF f]
    show ?thesis by auto
  qed (use wf in auto)
qed

definition world_inv :: "outbox_world \<Rightarrow> bool" where
  "world_inv w \<longleftrightarrow> db_wf (ow_db w) \<and> quiet (ow_client w) \<and> (\<forall>xs. mset (ow_returning w xs) = mset xs)"

interpretation broker_outbox: outbox_interfaces world_claim world_publish world_mark
  "\<lambda>w. set (cl_stored (ow_client w))" "\<lambda>w. published_messages (ow_db w)" "\<lambda>w. has_event (ow_db w)" world_inv
proof
  fix w now n token "until" claimed w'
  assume inv: "world_inv w" and c: "world_claim now n token until w = (claimed, w')"
  obtain res d where o: "ClaimOutbox (ow_faults w (ow_calls w)) (ow_locked w (ow_calls w)) (ow_returning w) now n token until (ow_db w) = (res, d)"
    by fastforce
  with c have w': "claimed = res" "w' = w\<lparr>ow_db := d, ow_calls := ow_calls w + 1\<rparr>" by (simp_all add: world_claim_def)
  from ClaimOutbox_messages [OF _ _ o] inv
  have "db_wf d \<and> published_messages d = published_messages (ow_db w) \<and> (\<forall>es. res = Inr es \<longrightarrow> (\<forall>e \<in> set es. has_event d e))"
    by (simp add: world_inv_def)
  with inv show "world_inv w' \<and> set (cl_stored (ow_client w')) = set (cl_stored (ow_client w)) \<and>
      published_messages (ow_db w') = published_messages (ow_db w) \<and>
      (\<forall>es. claimed = Inr es \<longrightarrow> (\<forall>e \<in> set es. has_event (ow_db w') e))"
    by (simp add: world_inv_def w')
next
  fix w m err w'
  assume inv: "world_inv w" and c: "world_publish m w = (err, w')"
  obtain sendErr actions pick ctxErr where a: "ow_answers w (ow_calls w) = (sendErr, actions, pick, ctxErr)"
    by (cases "ow_answers w (ow_calls w)")
  obtain res cl where p: "Publish sendErr actions pick ctxErr m (ow_client w) = (res, cl)" by fastforce
  with c a have w': "err = res" "w' = w\<lparr>ow_client := cl, ow_calls := ow_calls w + 1\<rparr>" by (simp_all add: world_publish_def)
  have q: "quiet (ow_client w)" using inv by (simp add: world_inv_def)
  with inv show "set (cl_stored (ow_client w)) \<subseteq> set (cl_stored (ow_client w')) \<and>
      published_messages (ow_db w') = published_messages (ow_db w) \<and>
      (err = None \<longrightarrow> world_inv w' \<and> m \<in> set (cl_stored (ow_client w')) \<and>
        (\<forall>e. has_event (ow_db w) e \<longrightarrow> has_event (ow_db w') e))"
    using Publish_stored [OF q, of sendErr actions pick ctxErr m cl] Publish_grows [OF q p] p
    by (auto simp: world_inv_def w')
next
  fix w e token at res w'
  assume inv: "world_inv w" and e: "has_event (ow_db w) e" and c: "world_mark (event_ID e) token at w = (res, w')"
  obtain r d where o: "MarkPublished (ow_faults w (ow_calls w)) (event_ID e) token at (ow_db w) = (r, d)" by fastforce
  with c have w': "res = r" "w' = w\<lparr>ow_db := d, ow_calls := ow_calls w + 1\<rparr>" by (simp_all add: world_mark_def)
  from inv MarkPublished_messages [OF _ e o] show "world_inv w' \<and> set (cl_stored (ow_client w')) = set (cl_stored (ow_client w)) \<and>
      published_messages (ow_db w') \<subseteq> insert (event_message e) (published_messages (ow_db w)) \<and>
      (\<forall>x. has_event (ow_db w) x \<longrightarrow> has_event (ow_db w') x) \<and>
      (res = Inr True \<longrightarrow> event_message e \<in> published_messages (ow_db w')) \<and>
      (res = Inr False \<longrightarrow> published_messages (ow_db w') = published_messages (ow_db w))"
    by (simp add: world_inv_def w')
qed

text \<open>
  C12. Publishing never runs ahead of the broker: after one pass of the outbox service, however
  its calls fail, every event marked published that was not so before has its message stored by
  the broker, the broker forgets nothing, and the count returned is the number of confirmations
  reported to the observer. While no error is returned the next pass starts from a client with
  empty channels, so the guarantee composes.
\<close>

theorem outbox_publishes_confirmed:
  assumes "world_inv w"
    and "outbox_RunOnce world_claim world_publish world_mark batchSize claimTTL now clock token w = ((n, err), obs, w')"
  shows "published_messages (ow_db w') \<subseteq> published_messages (ow_db w) \<union> set (cl_stored (ow_client w')) \<and>
    set (cl_stored (ow_client w)) \<subseteq> set (cl_stored (ow_client w')) \<and> (err = None \<longrightarrow> world_inv w') \<and>
    int (count_list obs ''confirmed'') = n"
  using broker_outbox.RunOnce_safe [OF assms(1) _ assms(2), of "published_messages (ow_db w)"] by blast

definition sample_world :: outbox_world where
  "sample_world = \<lparr>ow_db = fresh_db None, ow_client = fresh_client, ow_calls = 0, ow_faults = (\<lambda>_. Completed),
     ow_locked = (\<lambda>_ _. False), ow_returning = (\<lambda>xs. xs), ow_answers = (\<lambda>_. (None, [Stored], ReadyConfirm, Sentinel Canceled))\<rparr>"

lemma sample_pass:
  "\<exists>w'. outbox_RunOnce world_claim world_publish world_mark 10 Minute Second (\<lambda>_. Second) ''t1'' sample_world =
     ((1, None), [''confirmed''], w') \<and> published_messages (ow_db w') = {sample_message}"
proof -
  let ?q = "claim_event ''t1'' (Second + Minute) (sample_event None None)"
  let ?p = "?q\<lparr>o_published_at := Some Second, o_claim_token := None, o_claim_until := None\<rparr>"
  have "pg_text ''t1''" by (rule ascii_pg_text) (simp_all add: ascii_def)
  then have ok: "outbox_row_ok ?q" "outbox_row_ok ?p"
    by (simp_all add: outbox_row_ok_def claim_event_def sample_event_def sample_texts int4_def)
  have claim: "ClaimOutbox Completed (\<lambda>_. False) (\<lambda>xs. xs) Second 10 ''t1'' (Second + Minute) (fresh_db None) =
      (Inr [scan_event ?q], \<lparr>notification_tasks = [sample_row StatusPending], outbox_events = [?q]\<rparr>)"
    using ok(1) by (simp add: ClaimOutbox_def outbox_candidates_def claimable_def fresh_db_def sample_event_def sql_update_def update_where_def)
  have mark: "MarkPublished Completed ''e1'' ''t1'' Second \<lparr>notification_tasks = [sample_row StatusPending], outbox_events = [?q]\<rparr> =
      (Inr True, \<lparr>notification_tasks = [sample_row StatusPending], outbox_events = [?p]\<rparr>)"
    using ok(2) by (simp add: MarkPublished_def sql_update_def update_where_def claim_event_def sample_event_def)
  have m: "event_message (scan_event ?q) = sample_message" "event_ID (scan_event ?q) = ''e1''" "row_message ?p = sample_message"
    by (simp_all add: event_message_def scan_event_def row_message_def claim_event_def sample_event_def sample_message_def)
  obtain c where pub: "Publish None [Stored] ReadyConfirm (Sentinel Canceled) sample_message fresh_client = (None, c)"
    by (simp add: Publish_def await_confirm_def receive_confirm_def receive_return_def fresh_client_def Let_def)
  show ?thesis
    using claim mark pub
    by (simp add: outbox_RunOnce_def world_claim_def sample_world_def Add_def world_publish_def world_mark_def m
        published_messages_def) (auto simp: image_iff)
qed

lemma outbox_publishes_confirmed_witness:
  "\<exists>w' :: outbox_world. sample_message \<in> published_messages (ow_db w') \<and> sample_message \<in> set (cl_stored (ow_client w'))"
proof -
  obtain w' where w': "outbox_RunOnce world_claim world_publish world_mark 10 Minute Second (\<lambda>_. Second) ''t1'' sample_world =
     ((1, None), [''confirmed''], w')" "published_messages (ow_db w') = {sample_message}"
    using sample_pass by blast
  have "world_inv sample_world" by (simp add: world_inv_def sample_world_def fresh_db_wf quiet_def fresh_client_def)
  from outbox_publishes_confirmed [OF this w'(1)] w'(2)
  have "{sample_message} \<subseteq> published_messages (fresh_db None) \<union> set (cl_stored (ow_client w'))"
    by (simp add: sample_world_def)
  moreover have "published_messages (fresh_db None) = {}"
    by (simp add: published_messages_def fresh_db_def sample_event_def)
  ultimately have "sample_message \<in> published_messages (ow_db w') \<and> sample_message \<in> set (cl_stored (ow_client w'))"
    using w'(2) by simp
  then show ?thesis ..
qed

end
