(* ===== verification/Services.thy ===== *)
theory Services
  imports Outbox
begin

text \<open>
  The remaining services over the store: the retry scheduler (\<open>internal/retry/service.go\<close>), the
  retention cleaner (\<open>internal/retention/service.go\<close>) and the query and replay services
  (\<open>internal/notification/query.go\<close>), each over the repository interface it declares, with what
  they guarantee over the PostgreSQL store.
\<close>

section \<open>Retry\<close>

text \<open>The third component is what the observer is told.\<close>

definition retry_RunOnce ::
  "(time \<Rightarrow> nat \<Rightarrow> 'db \<Rightarrow> (schedule_result \<times> error option) \<times> 'db) \<Rightarrow> time \<Rightarrow> nat \<Rightarrow> 'db
    \<Rightarrow> (schedule_result \<times> error option) \<times> schedule_result list \<times> 'db" where
  "retry_RunOnce scheduleDue now batchSize d =
     (case scheduleDue now batchSize d of
        ((result, Some err), d') \<Rightarrow> ((no_schedule, Some (Errorf ''schedule due notifications'' [err])), [], d')
      | ((result, None), d') \<Rightarrow> ((result, None), [result], d'))"

text \<open>
  \<open>Run\<close> looks at the context before every pass, so the events are given in pairs: the state of
  the context before the pass, then what the \<open>select\<close> after it takes.
\<close>

fun retry_Run :: "('w \<Rightarrow> error option \<times> 'w) \<Rightarrow> (error option \<times> loop_event) list \<Rightarrow> 'w \<Rightarrow> error option \<times> 'w" where
  "retry_Run runOnce [] w = (None, w)"
| "retry_Run runOnce ((Some err, _) # _) w = (Some err, w)"
| "retry_Run runOnce ((None, chosen) # rest) w =
     (case runOnce w of
        (Some err, w1) \<Rightarrow> (Some err, w1)
      | (None, w1) \<Rightarrow> (case chosen of CtxDone e \<Rightarrow> (Some e, w1) | Tick \<Rightarrow> retry_Run runOnce rest w1))"

section \<open>Retention\<close>

definition retention_RunOnce ::
  "(time \<Rightarrow> nat \<Rightarrow> 'db \<Rightarrow> (error + int) \<times> 'db) \<Rightarrow> duration \<Rightarrow> time \<Rightarrow> nat \<Rightarrow> 'db \<Rightarrow> (int \<times> error option) \<times> 'db" where
  "retention_RunOnce deleteTerminalBefore period now batchSize d =
     (case deleteTerminalBefore (Add now (wrap64 (- period))) batchSize d of
        (Inl err, d') \<Rightarrow> ((0, Some (Errorf ''delete retained notifications'' [err])), d')
      | (Inr n, d') \<Rightarrow> ((n, None), d'))"

section \<open>Query and replay\<close>

record view =
  view_ID :: string
  view_DestinationID :: string
  view_Status :: status
  view_AttemptCount :: int
  view_NextAttemptAt :: "time option"
  view_LastHTTPStatus :: int
  view_LastErrorCode :: string
  view_LastError :: string
  view_CreatedAt :: time
  view_UpdatedAt :: time
  view_DeliveredAt :: "time option"
  view_DeadAt :: "time option"

definition QueryService_Get ::
  "(string \<Rightarrow> string \<Rightarrow> 'db \<Rightarrow> error + task) \<Rightarrow> string \<Rightarrow> string \<Rightarrow> 'db \<Rightarrow> error + view" where
  "QueryService_Get getForCaller callerID notificationID d =
     (case getForCaller callerID notificationID d of
        Inl err \<Rightarrow> Inl err
      | Inr t \<Rightarrow> Inr
          \<lparr>view_ID = task_ID t, view_DestinationID = snap_DestinationID (task_Snapshot t), view_Status = task_Status t,
           view_AttemptCount = task_AttemptCount t, view_NextAttemptAt = task_NextAttemptAt t,
           view_LastHTTPStatus = task_LastHTTPStatus t, view_LastErrorCode = task_LastErrorCode t,
           view_LastError = task_LastError t, view_CreatedAt = task_CreatedAt t, view_UpdatedAt = task_UpdatedAt t,
           view_DeliveredAt = task_DeliveredAt t, view_DeadAt = task_DeadAt t\<rparr>)"

definition Replay ::
  "(string \<Rightarrow> time \<Rightarrow> string \<Rightarrow> 'db \<Rightarrow> (error + bool) \<times> 'db) \<Rightarrow> time \<Rightarrow> string \<Rightarrow> string \<Rightarrow> string \<Rightarrow> 'db
    \<Rightarrow> error option \<times> 'db" where
  "Replay replayDeadAtomic now eventID adminID notificationID d =
     (case replayDeadAtomic notificationID now eventID d of
        (Inl err, d') \<Rightarrow> (Some (Errorf ''replay notification'' [err]), d')
      | (Inr applied, d') \<Rightarrow> (if applied then None else Some (Sentinel ErrNotDead), d'))"

section \<open>Properties\<close>

text \<open>
  A query shows a notification to the caller that created it and to no one else: without a
  fault the answer is the stored notification of that identifier when its caller asks, and
  \<open>ErrTaskNotFound\<close> for every other caller and for an unknown identifier alike, so that the two
  cannot be told apart. It shows the status, the attempts and the last outcome as stored.
\<close>

theorem query_owner_only:
  assumes "db_wf d"
  shows "case QueryService_Get (GetForCaller Completed) caller nid d of
      Inr v \<Rightarrow> (\<exists>r. task_of d nid = Some r \<and> r_caller_id r = caller \<and> view_ID v = nid \<and>
          view_DestinationID v = r_destination_id r \<and> view_Status v = r_status r \<and>
          view_AttemptCount v = r_attempt_count r \<and> view_NextAttemptAt v = r_next_attempt_at r \<and>
          view_LastHTTPStatus v = COALESCE (r_last_http_status r) 0 \<and>
          view_DeliveredAt v = r_delivered_at r \<and> view_DeadAt v = r_dead_at r)
    | Inl err \<Rightarrow> err = Sentinel ErrTaskNotFound \<and>
        (\<forall>r. task_of d nid = Some r \<longrightarrow> r_caller_id r \<noteq> caller)"
proof (cases "find (\<lambda>r. r_id r = nid \<and> r_caller_id r = caller) (notification_tasks d)")
  case None
  then have "r \<in> set (notification_tasks d) \<Longrightarrow> r_id r = nid \<Longrightarrow> r_caller_id r \<noteq> caller" for r
    by (auto simp: find_None_iff)
  then have "\<forall>r. task_of d nid = Some r \<longrightarrow> r_caller_id r \<noteq> caller" using lookup_by_SomeD by fast
  with None show ?thesis by (simp add: QueryService_Get_def GetForCaller_def)
next
  case (Some r)
  then have r: "r \<in> set (notification_tasks d)" "r_id r = nid" "r_caller_id r = caller"
    by (auto simp: find_Some_iff)
  have "distinct (map r_id (notification_tasks d))" using assms by (simp add: db_wf_def keys_wf_def)
  from lookup_by_eqI [OF this r(1)] have "task_of d nid = Some r" using r(2) by simp
  with Some r show ?thesis by (simp add: QueryService_Get_def GetForCaller_def zero_task_def)
qed

lemma query_owner_only_witness:
  "QueryService_Get (GetForCaller Completed) ''intruder'' ''n1'' (sample_db StatusDead) = Inl (Sentinel ErrTaskNotFound) \<and>
   (\<exists>v. QueryService_Get (GetForCaller Completed) ''billing'' ''n1'' (sample_db StatusDead) = Inr v \<and> view_Status v = StatusDead)"
  using query_owner_only [OF sample_db_wf, where caller = "''intruder''" and nid = "''n1''", of StatusDead]
    query_owner_only [OF sample_db_wf, where caller = "''billing''" and nid = "''n1''", of StatusDead]
  by (auto simp: sample_db_def split: sum.splits)

lemma ReplayDeadAtomic_error:
  "ReplayDeadAtomic tf nid now eventID d = (Inl err, d') \<Longrightarrow> \<not> errors_is err ErrNotDead"
  by (auto simp: ReplayDeadAtomic_def sql_update_def insert_outbox_def conn_error_def
      split: if_splits prod.splits sum.splits list.splits fault.splits)

text \<open>
  \<open>Replay\<close> reports \<open>ErrNotDead\<close> exactly when the store is reached and the notification is
  not dead, and then changes nothing; it reports success exactly when the store replayed the
  task; and whatever else fails is wrapped and is not mistaken for \<open>ErrNotDead\<close>.
\<close>

theorem replay_reports:
  assumes "db_wf d"
  shows "case Replay (ReplayDeadAtomic tf) now eventID admin nid d of (err, d') \<Rightarrow>
    (err = None \<longleftrightarrow> fst (ReplayDeadAtomic tf nid now eventID d) = Inr True) \<and>
    (err = None \<longrightarrow> (\<exists>r. task_of d nid = Some r \<and> r_status r = StatusDead \<and> d' = replay_db nid now eventID r d)) \<and>
    (\<forall>e. err = Some e \<longrightarrow> errors_is e ErrNotDead \<longrightarrow>
       d' = d \<and> \<not> (\<exists>r. task_of d nid = Some r \<and> r_status r = StatusDead))"
proof -
  obtain res d' where c: "ReplayDeadAtomic tf nid now eventID d = (res, d')" by fastforce
  note e = ReplayDeadAtomic_effect [OF assms c]
  have plain: "\<not> errors_is err ErrNotDead" if "res = Inl err" for err
    using ReplayDeadAtomic_error [OF c [unfolded that]] .
  show ?thesis
  proof (cases res)
    case (Inl err)
    with c plain show ?thesis by (simp add: Replay_def)
  next
    case (Inr applied)
    with c e(3,4) show ?thesis by (cases applied) (simp_all add: Replay_def)
  qed
qed

lemma replay_reports_witness:
  "fst (Replay (ReplayDeadAtomic no_faults) Second ''e2'' ''admin'' ''n1'' (sample_db StatusDelivered)) = Some (Sentinel ErrNotDead)"
proof -
  have "fst (ReplayDeadAtomic no_faults ''n1'' Second ''e2'' (sample_db StatusDelivered)) = Inr False"
    by (simp add: ReplayDeadAtomic_def no_faults_def stmt_fault_def sql_update_def sample_db_def)
  with replay_reports [OF sample_db_wf, where tf = no_faults and now = Second and eventID = "''e2''" and admin = "''admin''"
      and nid = "''n1''", of StatusDelivered]
  show ?thesis by (auto simp: Replay_def split: prod.splits sum.splits)
qed

end
