(* ===== verification/Refinement.thy ===== *)
theory Refinement
  imports SystemProps Services
begin

text \<open>
  The services refine the step relation of the running system: \<open>Handle\<close> and \<open>outbox.RunOnce\<close>, run
  against the real store calls, with other processes doing anything in between, are runs of
  \<open>sys_step\<close>. So the guarantees proved of the step relation are guarantees about the code of the
  services. Each interface call is one step of the process followed by steps of the others.
\<close>

section \<open>A pass of the outbox service\<close>

text \<open>
  The interfaces of the outbox service as process \<open>p\<close> of the running system sees them.
  \<open>others\<close> is what the rest of the system does before the next call of this process,
  \<open>answer\<close> the broker's answer: none for a confirmation, otherwise the error \<open>Publish\<close> returns and
  whether the message was stored all the same.
\<close>

definition sys_claim ::
  "nat \<Rightarrow> (sys \<Rightarrow> sys) \<Rightarrow> fault \<Rightarrow> (string \<Rightarrow> bool) \<Rightarrow> (outbox_row list \<Rightarrow> outbox_row list) \<Rightarrow> time \<Rightarrow> nat \<Rightarrow> string \<Rightarrow> time
    \<Rightarrow> sys \<Rightarrow> (error + outbox_event list) \<times> sys" where
  "sys_claim p others ft locked returning now limit token until s =
     (let (res, d) = ClaimOutbox ft locked returning now limit token until (s_db s)
      in (res, others (s\<lparr>s_db := d, s_tokens := insert token (s_tokens s),
            s_pub := (s_pub s)(p := case res of Inl err \<Rightarrow> PIdle | Inr es \<Rightarrow> PRun token es)\<rparr>)))"

definition sys_publish ::
  "nat \<Rightarrow> (sys \<Rightarrow> sys) \<Rightarrow> (message \<Rightarrow> sys \<Rightarrow> (error \<times> bool) option) \<Rightarrow> message \<Rightarrow> sys \<Rightarrow> error option \<times> sys" where
  "sys_publish p others answer m s =
     (case s_pub s p of
        PRun token (e # es) \<Rightarrow>
          (case answer m s of
             None \<Rightarrow> (None, others (s\<lparr>s_queue := add_mset m (s_queue s), s_pub := (s_pub s)(p := PConfirmed token e es)\<rparr>))
           | Some (err, stored) \<Rightarrow>
               (Some err, others (s\<lparr>s_queue := (if stored then add_mset m (s_queue s) else s_queue s),
                                    s_pub := (s_pub s)(p := PIdle)\<rparr>)))
      | _ \<Rightarrow> (None, s))"

definition sys_mark ::
  "nat \<Rightarrow> (sys \<Rightarrow> sys) \<Rightarrow> (sys \<Rightarrow> fault) \<Rightarrow> string \<Rightarrow> string \<Rightarrow> time \<Rightarrow> sys \<Rightarrow> (error + bool) \<times> sys" where
  "sys_mark p others faults i token at s =
     (case s_pub s p of
        PConfirmed t e es \<Rightarrow>
          (let (res, d) = MarkPublished (faults s) i token at (s_db s)
           in (res, others (s\<lparr>s_db := d, s_pub := (s_pub s)(p := case res of Inl err \<Rightarrow> PIdle | Inr _ \<Rightarrow> PRun t es)\<rparr>)))
      | _ \<Rightarrow> (Inr False, s))"

definition others_step :: "nat \<Rightarrow> (sys \<Rightarrow> sys) \<Rightarrow> bool" where
  "others_step p others \<longleftrightarrow> (\<forall>s. sys_step\<^sup>*\<^sup>* s (others s) \<and> s_pub (others s) p = s_pub s p)"

lemma step_then_others:
  "sys_step s s1 \<Longrightarrow> others_step p others \<Longrightarrow> sys_step\<^sup>*\<^sup>* s (others s1) \<and> s_pub (others s1) p = s_pub s1 p"
  unfolding others_step_def by (meson converse_rtranclp_into_rtranclp)

lemma sys_publish_run:
  assumes "others_step p others" "s_pub s p = PRun token (e # es)" "sys_publish p others answer (event_message e) s = (res, s')"
  shows "sys_step\<^sup>*\<^sup>* s s' \<and> (res = None \<longrightarrow> s_pub s' p = PConfirmed token e es)"
proof (cases "answer (event_message e) s")
  case None
  from step_then_others [OF sys_step.pub_publish [where s = s and p = p, OF assms(2)] assms(1)] None assms(2,3)
  show ?thesis by (auto simp: sys_publish_def)
next
  case (Some a)
  then obtain err stored where a: "answer (event_message e) s = Some (err, stored)" by (cases a) simp
  from step_then_others [OF sys_step.pub_unconfirmed [where s = s and p = p and stored = stored, OF assms(2)] assms(1)] a assms(2,3)
  show ?thesis by (auto simp: sys_publish_def)
qed

lemma sys_mark_run:
  assumes "others_step p others" "s_pub s p = PConfirmed token e es" "sys_mark p others faults (event_ID e) token at s = (res, s')"
  shows "sys_step\<^sup>*\<^sup>* s s' \<and> (\<forall>ok. res = Inr ok \<longrightarrow> s_pub s' p = PRun token es)"
proof -
  obtain r d where m: "MarkPublished (faults s) (event_ID e) token at (s_db s) = (r, d)" by fastforce
  from step_then_others [OF sys_step.pub_mark [where s = s and p = p, OF assms(2) m] assms(1)] m assms(2,3)
  show ?thesis by (auto simp: sys_mark_def)
qed

lemma publish_loop_run:
  assumes "others_step p others" "s_pub s p = PRun token events"
    and "publish_loop (sys_publish p others answer) (sys_mark p others faults) clock token k events n obs s = (res, obs', s')"
  shows "sys_step\<^sup>*\<^sup>* s s'"
  using assms(2,3)
proof (induction events arbitrary: s k n obs)
  case (Cons e es)
  obtain r1 s1 where p: "sys_publish p others answer (event_message e) s = (r1, s1)" by fastforce
  note run1 = sys_publish_run [OF assms(1) Cons.prems(1) p]
  show ?case
  proof (cases r1)
    case (Some err)
    with p run1 Cons.prems(2) show ?thesis by simp
  next
    case None
    obtain r2 s2 where m: "sys_mark p others faults (event_ID e) token (clock k) s1 = (r2, s2)" by fastforce
    note run2 = sys_mark_run [OF assms(1) _ m, of es] run1 None
    show ?thesis
    proof (cases r2)
      case (Inl err)
      with p m None run2 Cons.prems(2) show ?thesis by auto
    next
      case (Inr ok)
      then have "sys_step\<^sup>*\<^sup>* s2 s'" using run2 p m None Cons.prems(2)
        by (intro Cons.IH [of s2 "k + 1" "if ok then n + 1 else n" "if ok then obs @ [''confirmed''] else obs"])
          (auto split: bool.splits)
      with run2 show ?thesis by auto
    qed
  qed
qed simp

text \<open>
  C15. A pass of the outbox service is a run of the system: whatever the other processes do between
  its calls, whatever faults its statements meet and however the broker answers, the state in
  which \<open>RunOnce\<close> returns is reached from the one in which it was called by steps of the system.
\<close>

theorem outbox_pass_is_run:
  assumes "others_step p others" "s_pub s p = PIdle" "token \<notin> s_tokens s" "\<And>xs. mset (returning xs) = mset xs"
    and "outbox_RunOnce (sys_claim p others ft locked returning) (sys_publish p others answer) (sys_mark p others faults)
      batchSize claimTTL now clock token s = (res, obs, s')"
  shows "sys_step\<^sup>*\<^sup>* s s'"
proof -
  obtain r d where c: "ClaimOutbox ft locked returning now batchSize token (Add now claimTTL) (s_db s) = (r, d)" by fastforce
  let ?s1 = "others (s\<lparr>s_db := d, s_tokens := insert token (s_tokens s),
      s_pub := (s_pub s)(p := case r of Inl err \<Rightarrow> PIdle | Inr es \<Rightarrow> PRun token es)\<rparr>)"
  have claim: "sys_claim p others ft locked returning now batchSize token (Add now claimTTL) s = (r, ?s1)"
    by (simp add: sys_claim_def c)
  note run = step_then_others [OF sys_step.pub_claim [where s = s and p = p, OF assms(2-4) c] assms(1)]
  show ?thesis
  proof (cases r)
    case (Inl err)
    with run claim assms(5) show ?thesis by (simp add: outbox_RunOnce_def)
  next
    case (Inr es)
    with run have "sys_step\<^sup>*\<^sup>* s ?s1" "s_pub ?s1 p = PRun token es" by simp_all
    moreover from claim Inr assms(5) have "publish_loop (sys_publish p others answer) (sys_mark p others faults) clock token 0 es 0 [] ?s1 = (res, obs, s')"
      by (simp add: outbox_RunOnce_def)
    ultimately show ?thesis using publish_loop_run [OF assms(1)] by (meson rtranclp_trans)
  qed
qed

section \<open>Handling one message\<close>

text \<open>
  The store as worker \<open>w\<close> sees it while it handles message \<open>m\<close>; the worker's part of the
  state follows the claim and the result.
\<close>

definition sys_claim_delivery ::
  "nat \<Rightarrow> message \<Rightarrow> fault \<Rightarrow> time \<Rightarrow> string \<Rightarrow> string \<Rightarrow> time \<Rightarrow> sys \<Rightarrow> (error + claim) \<times> sys" where
  "sys_claim_delivery w m ft dbnow nid lease leaseUntil s =
     (let (res, d) = ClaimDelivery ft dbnow nid lease leaseUntil (s_db s)
      in (res, s\<lparr>s_db := d, s_tokens := insert lease (s_tokens s),
            s_queue := (case res of Inr None \<Rightarrow> s_queue s - {#m#} | _ \<Rightarrow> s_queue s),
            s_worker := (s_worker s)(w := case res of Inr (Some t) \<Rightarrow> WBusy m lease t | _ \<Rightarrow> WIdle),
            s_granted := (case res of Inr (Some t) \<Rightarrow> nid # s_granted s | _ \<Rightarrow> s_granted s)\<rparr>))"

definition sys_apply_result ::
  "nat \<Rightarrow> message \<Rightarrow> fault \<Rightarrow> string \<Rightarrow> string \<Rightarrow> attempt_result \<Rightarrow> sys \<Rightarrow> (error + bool) \<times> sys" where
  "sys_apply_result w m ft nid lease result s =
     (let (res, d) = ApplyDeliveryResult ft nid lease result (s_db s)
      in (res, s\<lparr>s_db := d, s_queue := (case res of Inl err \<Rightarrow> s_queue s | Inr _ \<Rightarrow> s_queue s - {#m#}),
            s_worker := (s_worker s)(w := WIdle)\<rparr>))"

text \<open>
  C14. Handling a message is a run of the system: \<open>Handle\<close>, with its claim, the wait for capacity,
  the request to the supplier during which the other processes go on, and its result, reaches the
  state in which it returns by steps of the system; and its message has left the queue exactly when
  it returns \<open>Ack\<close>.
\<close>

theorem handle_is_run:
  assumes idle: "s_worker s w = WIdle" and m: "m \<in># s_queue s" and fresh: "lease \<notin> s_tokens s"
    and others: "\<And>x. sys_step\<^sup>*\<^sup>* x (others x) \<and> s_worker (others x) w = s_worker x w"
    and h: "h = Handle (sys_claim_delivery w m ft1 dbnow) (sys_apply_result w m ft2) acquire send jitter others leaseTTL lease now completed m s"
  shows "sys_step\<^sup>*\<^sup>* s (hd_db h) \<and>
    (s_queue (hd_db h) = s_queue s - {#m#} \<and> hd_disposition h = Ack \<or>
     s_queue (hd_db h) = s_queue s \<and> hd_disposition h = Requeue \<or>
     (\<exists>x. sys_step\<^sup>*\<^sup>* s x \<and> sys_step (others x) (hd_db h) \<and>
        s_queue (hd_db h) = (if hd_disposition h = Ack then s_queue (others x) - {#m#} else s_queue (others x))))"
proof -
  let ?nid = "msg_NotificationID m"
  obtain r d where c: "ClaimDelivery ft1 dbnow ?nid lease (Add now leaseTTL) (s_db s) = (r, d)" by fastforce
  obtain s1 where s1: "sys_claim_delivery w m ft1 dbnow ?nid lease (Add now leaseTTL) s = (r, s1)"
    by (simp add: sys_claim_delivery_def c)
  have step1: "sys_step s s1"
    using sys_step.work_claim [OF idle m fresh c] s1 by (simp add: sys_claim_delivery_def c)
  have q1: "s_queue s1 = (case r of Inr None \<Rightarrow> s_queue s - {#m#} | _ \<Rightarrow> s_queue s)"
    using s1 by (auto simp: sys_claim_delivery_def c)
  show ?thesis
  proof (cases "\<exists>t. r = Inr (Some t) \<and> acquire (snap_DestinationID (task_Snapshot t)) (snap_ConcurrencyLimit (task_Snapshot t)) = None")
    case False
    then have "h = \<lparr>hd_disposition = (if r = Inr None then Ack else Requeue), hd_sent = None, hd_observed = None, hd_db = s1\<rparr>"
      unfolding h Handle_def s1 by (auto split: sum.splits option.splits)
    with step1 q1 show ?thesis by (auto split: sum.splits option.splits)
  next
    case True
    then obtain t where r: "r = Inr (Some t)"
      and a: "acquire (snap_DestinationID (task_Snapshot t)) (snap_ConcurrencyLimit (task_Snapshot t)) = None" by blast
    have "s_worker s1 w = WBusy m lease t" using s1 r by (auto simp: sys_claim_delivery_def c)
    then have busy: "s_worker (others s1) w = WBusy m lease t" using others by simp
    let ?attempt = "attempt_of t (send (task_Snapshot t)) completed jitter"
    obtain r2 d2 where p: "ApplyDeliveryResult ft2 ?nid lease ?attempt (s_db (others s1)) = (r2, d2)" by fastforce
    obtain s2 where s2: "sys_apply_result w m ft2 ?nid lease ?attempt (others s1) = (r2, s2)"
      by (simp add: sys_apply_result_def p)
    have step2: "sys_step (others s1) s2"
      using sys_step.work_finish [OF busy p] s2 by (simp add: sys_apply_result_def p)
    have q2: "s_queue s2 = (case r2 of Inl err \<Rightarrow> s_queue (others s1) | Inr _ \<Rightarrow> s_queue (others s1) - {#m#})"
      using s2 by (auto simp: sys_apply_result_def p)
    have h2: "hd_db h = s2 \<and> hd_disposition h = (case r2 of Inl err \<Rightarrow> Requeue | Inr _ \<Rightarrow> Ack)"
      unfolding h Handle_def s1 r prod.case sum.case option.case a Let_def s2 by (simp split: sum.splits bool.splits)
    have "sys_step\<^sup>*\<^sup>* s s2" using step1 others [of s1] step2 by (meson converse_rtranclp_into_rtranclp rtranclp.rtrancl_into_rtrancl)
    moreover have "s_queue s2 = (if hd_disposition h = Ack then s_queue (others s1) - {#m#} else s_queue (others s1))"
      using h2 q2 by (auto split: sum.splits)
    ultimately show ?thesis using h2 step1 step2 by (metis r_into_rtranclp)
  qed
qed

section \<open>Witnesses\<close>

lemma outbox_pass_is_run_witness:
  "reachable (snd (snd (outbox_RunOnce (sys_claim 0 (\<lambda>s. s) Completed (\<lambda>_. False) (\<lambda>xs. xs)) (sys_publish 0 (\<lambda>s. s) (\<lambda>_ _. None))
     (sys_mark 0 (\<lambda>s. s) (\<lambda>_. Completed)) 100 Minute 0 (\<lambda>_. Second) ''t1'' accepted_sys)))"
proof -
  have "others_step 0 (\<lambda>s. s)" by (simp add: others_step_def)
  moreover have "s_pub accepted_sys 0 = PIdle" "''t1'' \<notin> s_tokens accepted_sys" by (simp_all add: run_sys_def)
  ultimately have "sys_step\<^sup>*\<^sup>* accepted_sys (snd (snd (outbox_RunOnce (sys_claim 0 (\<lambda>s. s) Completed (\<lambda>_. False) (\<lambda>xs. xs))
      (sys_publish 0 (\<lambda>s. s) (\<lambda>_ _. None)) (sys_mark 0 (\<lambda>s. s) (\<lambda>_. Completed)) 100 Minute 0 (\<lambda>_. Second) ''t1'' accepted_sys)))"
    by (rule outbox_pass_is_run [OF _ _ _ refl prod.collapse [symmetric, THEN trans [OF _ arg_cong2 [where f = Pair, OF refl prod.collapse [symmetric]]]]])
  with run_reachable(1) show ?thesis unfolding reachable_def by (rule rtranclp_trans)
qed

lemma handle_is_run_witness:
  "reachable (hd_db (Handle (sys_claim_delivery 0 sample_message Completed Second) (sys_apply_result 0 sample_message Completed)
     (\<lambda>_ _. None) answer_ok None (\<lambda>s. s) Minute ''lease1'' 0 Second sample_message published_sys))"
proof -
  have "s_worker published_sys 0 = WIdle" "sample_message \<in># s_queue published_sys" "''lease1'' \<notin> s_tokens published_sys"
    by (simp_all add: published_sys_def run_sys_def)
  from handle_is_run [OF this, of "\<lambda>s. s", OF _ refl]
  have "sys_step\<^sup>*\<^sup>* published_sys (hd_db (Handle (sys_claim_delivery 0 sample_message Completed Second) (sys_apply_result 0 sample_message Completed)
     (\<lambda>_ _. None) answer_ok None (\<lambda>s. s) Minute ''lease1'' 0 Second sample_message published_sys))" by blast
  with run_reachable(2) show ?thesis unfolding reachable_def by (rule rtranclp_trans)
qed

end
