(* ===== verification/GoStrings.thy ===== *)
theory GoStrings
  imports Utf8 Json
begin

text \<open>
  The functions of Go's \<open>strings\<close> and \<open>net/http\<close> packages on text and headers that the
  source uses: trimming, searching, splitting, simple case mapping and folding, and the canonical
  form of header names. The Unicode tables of case mapping matter to the source only where they
  meet ASCII; beyond that they are a parameter of the operations.
\<close>

section \<open>Searching and splitting\<close>

definition HasPrefix :: "string \<Rightarrow> string \<Rightarrow> bool" where
  "HasPrefix s p \<longleftrightarrow> take (length p) s = p"

definition TrimPrefix :: "string \<Rightarrow> string \<Rightarrow> string" where
  "TrimPrefix s p = (if HasPrefix s p then drop (length p) s else s)"

fun Contains :: "string \<Rightarrow> string \<Rightarrow> bool" where
  "Contains [] p = (p = [])"
| "Contains (c # s) p = (HasPrefix (c # s) p \<or> Contains s p)"

definition ContainsAny :: "string \<Rightarrow> string \<Rightarrow> bool" where
  "ContainsAny s chars = list_ex (\<lambda>c. c \<in> set chars) s"

text \<open>\<open>strings.Split\<close> and \<open>strings.SplitN(.., 2)\<close> at a separator of one byte.\<close>

fun Split :: "char \<Rightarrow> string \<Rightarrow> string list" where
  "Split sep [] = [[]]"
| "Split sep (c # s) =
     (if c = sep then [] # Split sep s
      else case Split sep s of [] \<Rightarrow> [[c]] | part # parts \<Rightarrow> (c # part) # parts)"

definition SplitN2 :: "char \<Rightarrow> string \<Rightarrow> string list" where
  "SplitN2 sep s =
     (let left = takeWhile (\<lambda>c. c \<noteq> sep) s
      in if length left = length s then [s] else [left, drop (length left + 1) s])"

section \<open>Trimming\<close>

text \<open>The runes \<open>unicode.IsSpace\<close> accepts, and their encodings.\<close>

definition space_runes :: "nat list" where
  "space_runes = [9, 10, 11, 12, 13, 32, 133, 160, 5760] @ [8192..<8203] @ [8232, 8233, 8239, 8287, 12288]"

definition space_encodings :: "string list" where
  "space_encodings = map (\<lambda>r. map char_of (encode_valid r)) space_runes"

function strip :: "string list \<Rightarrow> string \<Rightarrow> string" where
  "strip es s =
     (case find (\<lambda>e. e \<noteq> [] \<and> HasPrefix s e) es of
        None \<Rightarrow> s
      | Some e \<Rightarrow> strip es (drop (length e) s))"
  by pat_completeness auto
termination
proof (relation "measure (\<lambda>(es, s). length s)")
  fix es s e assume "find (\<lambda>e. e \<noteq> [] \<and> HasPrefix s e) es = Some e"
  then have "e \<noteq> []" "take (length e) s = e" by (auto simp: find_Some_iff HasPrefix_def)
  then have "s \<noteq> []" by auto
  with \<open>e \<noteq> []\<close> show "((es, drop (length e) s), (es, s)) \<in> measure (\<lambda>(es, s). length s)" by simp
qed simp

declare strip.simps [simp del]

definition TrimSpace :: "string \<Rightarrow> string" where
  "TrimSpace s = rev (strip (map rev space_encodings) (rev (strip space_encodings s)))"

lemma strip_suffix: "\<exists>p. s = p @ strip es s"
proof (induction es s rule: strip.induct)
  case (1 es s)
  show ?case
  proof (cases "find (\<lambda>e. e \<noteq> [] \<and> HasPrefix s e) es")
    case (Some e)
    with 1 obtain p where "drop (length e) s = p @ strip es (drop (length e) s)" by blast
    then have "s = (take (length e) s @ p) @ strip es (drop (length e) s)"
      by (metis append.assoc append_take_drop_id)
    moreover from Some have "strip es s = strip es (drop (length e) s)" by (subst strip.simps) simp
    ultimately show ?thesis by metis
  qed (subst strip.simps, simp)
qed

lemma TrimSpace_infix: "\<exists>p q. s = p @ TrimSpace s @ q"
proof -
  obtain p where p: "s = p @ strip space_encodings s" using strip_suffix by blast
  obtain q where "rev (strip space_encodings s) = q @ strip (map rev space_encodings) (rev (strip space_encodings s))"
    using strip_suffix by blast
  then have "strip space_encodings s = TrimSpace s @ rev q" unfolding TrimSpace_def by (metis rev_append rev_rev_ident)
  with p have "s = p @ TrimSpace s @ rev q" by metis
  then show ?thesis by blast
qed

lemma length_TrimSpace: "length (TrimSpace s) \<le> length s"
proof -
  obtain p q where "s = p @ TrimSpace s @ q" using TrimSpace_infix by blast
  then have "length s = length p + length (TrimSpace s) + length q" by (metis add.assoc length_append)
  then show ?thesis by simp
qed

lemma strip_nothing: "list_all (\<lambda>e. e = [] \<or> \<not> HasPrefix s e) es \<Longrightarrow> strip es s = s"
proof -
  assume "list_all (\<lambda>e. e = [] \<or> \<not> HasPrefix s e) es"
  then have "find (\<lambda>e. e \<noteq> [] \<and> HasPrefix s e) es = None" by (auto simp: find_None_iff list_all_iff)
  then show ?thesis by (subst strip.simps) simp
qed

text \<open>Text that neither starts nor ends with an ASCII space or a byte beyond ASCII is left as it is.\<close>

definition plain_byte :: "char \<Rightarrow> bool" where
  "plain_byte c \<longleftrightarrow> 32 < byte c \<and> byte c < 128"

lemma space_encoding_ends:
  assumes "e \<in> set space_encodings" shows "e \<noteq> [] \<and> \<not> plain_byte (hd e) \<and> \<not> plain_byte (last e)"
proof -
  from assms obtain r where r: "r \<in> set space_runes" and e: "e = map char_of (encode_valid r)"
    by (auto simp: space_encodings_def)
  from r have "r < 33 \<or> 128 \<le> r \<and> r < 65536" by (auto simp: space_runes_def)
  then consider "r < 33" | "128 \<le> r" "r < 2048" | "2048 \<le> r" "r < 65536" by linarith
  then show ?thesis
  proof cases
    case 2
    then have "byte (char_of (192 + r div 64)) = 192 + r div 64" "byte (char_of (128 + r mod 64)) = 128 + r mod 64" by auto
    with 2 show ?thesis by (simp add: e encode_valid_def plain_byte_def)
  next
    case 3
    then have "byte (char_of (224 + r div 4096)) = 224 + r div 4096" "byte (char_of (128 + r mod 64)) = 128 + r mod 64" by auto
    with 3 show ?thesis by (simp add: e encode_valid_def plain_byte_def)
  qed (simp add: e encode_valid_def plain_byte_def)
qed

lemma TrimSpace_plain:
  assumes "s \<noteq> []" "plain_byte (hd s)" "plain_byte (last s)"
  shows "TrimSpace s = s"
proof -
  have first: "HasPrefix u e \<Longrightarrow> e \<noteq> [] \<Longrightarrow> hd e = hd u" for u e
    by (cases e; cases u) (auto simp: HasPrefix_def)
  have "\<not> HasPrefix s e" if "e \<in> set space_encodings" for e
    using space_encoding_ends [OF that] first [of s e] assms(2) by auto
  then have "strip space_encodings s = s" by (intro strip_nothing) (simp add: list_all_iff)
  moreover have "\<not> HasPrefix (rev s) (rev e)" if "e \<in> set space_encodings" for e
    using space_encoding_ends [OF that] first [of "rev s" "rev e"] assms(1,3) by (auto simp: hd_rev)
  then have "strip (map rev space_encodings) (rev s) = rev s" by (intro strip_nothing) (simp add: list_all_iff)
  ultimately show ?thesis by (simp add: TrimSpace_def)
qed

section \<open>Case\<close>

definition upper_rune :: "(nat \<Rightarrow> nat) \<Rightarrow> nat \<Rightarrow> nat" where
  "upper_rune table r =
     (if 97 \<le> r \<and> r \<le> 122 then r - 32 else if r < 128 then r
      else if r = 383 then 83 else if r = 305 then 73 else table r)"

definition lower_rune :: "(nat \<Rightarrow> nat) \<Rightarrow> nat \<Rightarrow> nat" where
  "lower_rune table r =
     (if 65 \<le> r \<and> r \<le> 90 then r + 32 else if r < 128 then r
      else if r = 8490 then 107 else if r = 304 then 105 else table r)"

definition fold_rune :: "(nat \<Rightarrow> nat) \<Rightarrow> nat \<Rightarrow> nat" where
  "fold_rune table r =
     (if 65 \<le> r \<and> r \<le> 90 then r + 32 else if r < 128 then r
      else if r = 8490 then 107 else if r = 383 then 115 else table r)"

definition ToUpper :: "(nat \<Rightarrow> nat) \<Rightarrow> string \<Rightarrow> string" where
  "ToUpper table s = strings_Map (upper_rune table) s"

definition ToLower :: "(nat \<Rightarrow> nat) \<Rightarrow> string \<Rightarrow> string" where
  "ToLower table s = strings_Map (lower_rune table) s"

definition EqualFold :: "(nat \<Rightarrow> nat) \<Rightarrow> string \<Rightarrow> string \<Rightarrow> bool" where
  "EqualFold table s t \<longleftrightarrow>
     map (fold_rune table) (runes (map byte s)) = map (fold_rune table) (runes (map byte t))"

lemma ascii_runes: "ascii s \<Longrightarrow> runes (map byte s) = map byte s"
proof (induction s)
  case (Cons c s)
  then show ?case by (simp add: ascii_def runes.simps [of "byte c # map byte s"])
qed (simp add: runes.simps)

lemma encode_ascii [simp]: "r < 128 \<Longrightarrow> encode_rune r = [r]"
  by (simp add: encode_rune_def encode_valid_def valid_rune_def)

lemma ascii_strings_Map:
  assumes "ascii s" "\<And>c. c \<in> set s \<Longrightarrow> f (byte c) < 128"
  shows "strings_Map f s = map (\<lambda>c. char_of (f (byte c))) s"
proof -
  have "concat (map (\<lambda>b. encode_rune (f b)) (map byte s)) = map (\<lambda>c. f (byte c)) s"
    using assms(2) by (induction s) simp_all
  then show ?thesis by (simp add: strings_Map_def ascii_runes [OF assms(1)])
qed

lemma ascii_ToUpper: "ascii s \<Longrightarrow> ToUpper table s = map (\<lambda>c. char_of (upper_rune table (byte c))) s"
  unfolding ToUpper_def by (rule ascii_strings_Map) (auto simp: upper_rune_def ascii_def list_all_iff)

lemma EqualFold_refl [simp]: "EqualFold table s s"
  by (simp add: EqualFold_def)

lemma EqualFold_ascii:
  "ascii s \<Longrightarrow> ascii t \<Longrightarrow>
   EqualFold table s t \<longleftrightarrow> map (\<lambda>c. fold_rune table (byte c)) s = map (\<lambda>c. fold_rune table (byte c)) t"
  by (simp only: EqualFold_def ascii_runes map_map comp_def)

lemma EqualFold_sym: "EqualFold table s t \<Longrightarrow> EqualFold table t s"
  by (simp add: EqualFold_def)

lemma EqualFold_trans: "EqualFold table s t \<Longrightarrow> EqualFold table t u \<Longrightarrow> EqualFold table s u"
  by (simp add: EqualFold_def)

section \<open>Headers\<close>

definition token_byte :: "char \<Rightarrow> bool" where
  "token_byte c \<longleftrightarrow> (48 \<le> byte c \<and> byte c \<le> 57) \<or> (65 \<le> byte c \<and> byte c \<le> 90) \<or> (97 \<le> byte c \<and> byte c \<le> 122) \<or>
     c \<in> set ''!#$%&*+-.^_`|~'' \<or> byte c = 39"

fun canonical_letters :: "bool \<Rightarrow> string \<Rightarrow> string" where
  "canonical_letters up [] = []"
| "canonical_letters up (c # s) =
     (let c' = (if up \<and> 97 \<le> byte c \<and> byte c \<le> 122 then char_of (byte c - 32)
                else if \<not> up \<and> 65 \<le> byte c \<and> byte c \<le> 90 then char_of (byte c + 32) else c)
      in c' # canonical_letters (c' = CHR ''-'') s)"

definition CanonicalHeaderKey :: "string \<Rightarrow> string" where
  "CanonicalHeaderKey s = (if list_all token_byte s then canonical_letters True s else s)"

definition Header_Set :: "string \<Rightarrow> string \<Rightarrow> header \<Rightarrow> header" where
  "Header_Set key v h = AList.update (CanonicalHeaderKey key) [v] h"

definition Header_Get :: "string \<Rightarrow> header \<Rightarrow> string" where
  "Header_Get key h = (case map_of h (CanonicalHeaderKey key) of Some (v # _) \<Rightarrow> v | _ \<Rightarrow> [])"

lemma Header_Get_Set [simp]:
  "Header_Get key (Header_Set key' v h) = (if CanonicalHeaderKey key = CanonicalHeaderKey key' then v else Header_Get key h)"
  by (simp add: Header_Get_def Header_Set_def update_conv')

lemma canonical_letters_token: "list_all token_byte (canonical_letters up s) = list_all token_byte s"
proof (induction s arbitrary: up)
  case (Cons c s)
  have "token_byte (char_of (byte c - 32)) \<and> token_byte c" if "97 \<le> byte c" "byte c \<le> 122"
    using that by (auto simp: token_byte_def)
  moreover have "token_byte (char_of (byte c + 32)) \<and> token_byte c" if "65 \<le> byte c" "byte c \<le> 90"
    using that by (auto simp: token_byte_def)
  ultimately show ?case using Cons by (auto simp: Let_def)
qed simp

lemma canonical_letters_idem: "canonical_letters up (canonical_letters up s) = canonical_letters up s"
proof (induction s arbitrary: up)
  case (Cons c s)
  let ?c = "if up \<and> 97 \<le> byte c \<and> byte c \<le> 122 then char_of (byte c - 32)
            else if \<not> up \<and> 65 \<le> byte c \<and> byte c \<le> 90 then char_of (byte c + 32) else c"
  have "(if up \<and> 97 \<le> byte ?c \<and> byte ?c \<le> 122 then char_of (byte ?c - 32)
         else if \<not> up \<and> 65 \<le> byte ?c \<and> byte ?c \<le> 90 then char_of (byte ?c + 32) else ?c) = ?c"
    by auto
  with Cons.IH show ?case by (simp only: canonical_letters.simps Let_def)
qed simp

lemma CanonicalHeaderKey_idem [simp]: "CanonicalHeaderKey (CanonicalHeaderKey s) = CanonicalHeaderKey s"
  by (simp add: CanonicalHeaderKey_def canonical_letters_token canonical_letters_idem)

end
