(* ===== verification/Jitter.thy ===== *)
theory Jitter
  imports Complex_Main Notification
begin

text \<open>
  \<open>internal/notification/jitter.go\<close>: the bounded random jitter of retry delays, with its
  IEEE 754 double arithmetic. \<open>fl\<close> rounds a non-negative rational to the nearest double
  with 53 significant bits, ties to even; the range of exponents is not bounded, which is
  exact for the magnitudes here (between \<open>2 powi -66\<close> and \<open>2 ^ 63\<close>). The value of
  \<open>rand.Float64()\<close> is an argument, a number in the half-open unit interval.
\<close>

section \<open>Rounding to double precision\<close>

fun bitlen :: "nat \<Rightarrow> nat" where
  "bitlen n = (if n = 0 then 0 else Suc (bitlen (n div 2)))"

declare bitlen.simps [simp del]

definition flog2 :: "rat \<Rightarrow> int" where
  "flog2 x =
     (let (a, b) = quotient_of x; g = int (bitlen (nat a)) - int (bitlen (nat b))
      in if 2 powi g \<le> x then g else g - 1)"

definition rnd_even :: "rat \<Rightarrow> int" where
  "rnd_even z =
     (let n = \<lfloor>z\<rfloor>; r = z - of_int n
      in if r < 1 / 2 then n else if 1 / 2 < r then n + 1 else if even n then n else n + 1)"

definition fl :: "rat \<Rightarrow> rat" where
  "fl x = (if x \<le> 0 then 0
           else let e = flog2 x - 52 in of_int (rnd_even (x / 2 powi e)) * 2 powi e)"

lemma bitlen_bounds: "0 < n \<Longrightarrow> 2 ^ (bitlen n - 1) \<le> n \<and> n < 2 ^ bitlen n \<and> 0 < bitlen n"
proof (induction n rule: bitlen.induct)
  case (1 n)
  show ?case
  proof (cases "n div 2 = 0")
    case True
    with "1.prems" have "n = 1" by linarith
    then show ?thesis by (simp add: bitlen.simps [of "Suc 0"] bitlen.simps [of 0])
  next
    case False
    define p where "p = (2::nat) ^ (bitlen (n div 2) - 1)"
    from False "1" have ih: "p \<le> n div 2" "n div 2 < 2 ^ bitlen (n div 2)" "0 < bitlen (n div 2)"
      by (auto simp: p_def)
    then have "(2::nat) ^ bitlen (n div 2) = 2 * p"
      unfolding p_def by (metis Suc_diff_1 power_Suc)
    moreover from this ih have "2 * p \<le> n" "n < 4 * p" by presburger+
    ultimately show ?thesis using "1.prems" by (simp add: bitlen.simps [of n])
  qed
qed

lemma powi_int: "2 powi int k = (2::rat) ^ k"
  by (simp add: power_int_def)

lemma powi_pos [simp]: "0 < (2::rat) powi e"
  by (simp add: zero_less_power_int)

lemma powi_Suc: "(2::rat) powi (e + 1) = 2 * 2 powi e"
  by (simp add: power_int_add)

lemma powi_mono: "e \<le> e' \<Longrightarrow> (2::rat) powi e \<le> 2 powi e'"
  by (simp add: power_int_increasing)

lemma bitlen_rat:
  assumes "0 < n"
  shows "(2::rat) powi (int (bitlen n) - 1) \<le> of_nat n" and "of_nat n < (2::rat) powi int (bitlen n)"
proof -
  have b: "2 ^ (bitlen n - 1) \<le> n" "n < 2 ^ bitlen n" "0 < bitlen n"
    using bitlen_bounds [OF assms] by auto
  from b(1) have "of_nat (2 ^ (bitlen n - 1)) \<le> (of_nat n :: rat)" by (simp only: of_nat_le_iff)
  moreover from b(2) have "(of_nat n :: rat) < of_nat (2 ^ bitlen n)" by (simp only: of_nat_less_iff)
  moreover from b(3) have "int (bitlen n) - 1 = int (bitlen n - 1)" by linarith
  ultimately show "(2::rat) powi (int (bitlen n) - 1) \<le> of_nat n" and "of_nat n < (2::rat) powi int (bitlen n)"
    by (simp_all only: powi_int of_nat_power of_nat_numeral)
qed

lemma flog2_bounds:
  assumes "0 < x" shows "2 powi flog2 x \<le> x" and "x < 2 powi (flog2 x + 1)"
proof -
  obtain a b where q: "quotient_of x = (a, b)" by fastforce
  have x: "x = of_int a / of_int b" and b: "0 < b"
    using quotient_of_div [OF q] quotient_of_denom_pos [OF q] by auto
  with assms have a: "0 < a" by (simp add: zero_less_divide_iff)
  define la lb where "la = int (bitlen (nat a))" and "lb = int (bitlen (nat b))"
  have A: "(2::rat) powi (la - 1) \<le> of_int a" "of_int a < (2::rat) powi la"
    using bitlen_rat [of "nat a"] a unfolding la_def by (simp_all only: of_nat_nat order_less_imp_le)
  have B: "(2::rat) powi (lb - 1) \<le> of_int b" "of_int b < (2::rat) powi lb"
    using bitlen_rat [of "nat b"] b unfolding lb_def by (simp_all only: of_nat_nat order_less_imp_le)
  have "2 powi (la - 1) / 2 powi lb \<le> x" unfolding x
    using A B b a by (intro frac_le) auto
  then have lo: "2 powi (la - lb - 1) \<le> x"
    by (simp add: power_int_diff [symmetric] algebra_simps)
  have "x < 2 powi la / 2 powi (lb - 1)" unfolding x
    using A B b a by (intro frac_less) auto
  then have hi: "x < 2 powi (la - lb + 1)"
    by (simp add: power_int_diff [symmetric] algebra_simps)
  have f: "flog2 x = (if 2 powi (la - lb) \<le> x then la - lb else la - lb - 1)"
    by (simp add: flog2_def q la_def lb_def Let_def)
  show "2 powi flog2 x \<le> x" using lo f by simp
  show "x < 2 powi (flog2 x + 1)" using hi f by (cases "2 powi (la - lb) \<le> x") simp_all
qed

lemma flog2_mono:
  assumes "0 < x" "x \<le> y" shows "flog2 x \<le> flog2 y"
proof (rule ccontr)
  assume "\<not> flog2 x \<le> flog2 y"
  then have "(2::rat) powi (flog2 y + 1) \<le> 2 powi flog2 x" by (intro powi_mono) simp
  with flog2_bounds [of x] flog2_bounds [of y] assms show False by simp
qed

lemma rnd_even_mono: "z \<le> z' \<Longrightarrow> rnd_even z \<le> rnd_even z'"
proof (cases "\<lfloor>z\<rfloor> = \<lfloor>z'\<rfloor>")
  case True
  assume "z \<le> z'"
  with True show ?thesis by (auto simp: rnd_even_def Let_def)
next
  case False
  assume "z \<le> z'"
  with False have "\<lfloor>z\<rfloor> + 1 \<le> \<lfloor>z'\<rfloor>" using floor_mono [of z z'] by simp
  moreover have "rnd_even z \<le> \<lfloor>z\<rfloor> + 1" "\<lfloor>z'\<rfloor> \<le> rnd_even z'" by (simp_all add: rnd_even_def Let_def)
  ultimately show ?thesis by simp
qed

lemma rnd_even_of_int [simp]: "rnd_even (of_int n) = n"
  by (simp add: rnd_even_def)

lemma fl_nonneg: "0 \<le> fl x"
proof (cases "x \<le> 0")
  case False
  then have "rnd_even 0 \<le> rnd_even (x / 2 powi (flog2 x - 52))"
    by (intro rnd_even_mono) (simp add: zero_le_divide_iff less_imp_le)
  then show ?thesis using rnd_even_of_int [of 0] by (simp add: fl_def Let_def zero_le_mult_iff less_imp_le)
qed (simp add: fl_def)

text \<open>Inside one binade the result stays in the closed binade.\<close>

lemma fl_binade:
  assumes "0 < x"
  shows "2 powi flog2 x \<le> fl x" and "fl x \<le> 2 powi (flog2 x + 1)"
proof -
  let ?e = "flog2 x - 52" and ?p = "2 powi (flog2 x - 52) :: rat"
  have s: "2 powi flog2 x = of_int (2 ^ 52) * ?p" "2 powi (flog2 x + 1) = of_int (2 ^ 53) * ?p"
    using power_int_add [of "2::rat" 52 ?e] power_int_add [of "2::rat" 53 ?e] by (simp_all add: algebra_simps)
  from flog2_bounds [OF assms] s
  have "of_int (2 ^ 52) \<le> x / ?p" "x / ?p \<le> of_int (2 ^ 53)"
    by (simp_all add: pos_le_divide_eq pos_divide_le_eq)
  then have "2 ^ 52 \<le> rnd_even (x / ?p)" "rnd_even (x / ?p) \<le> 2 ^ 53"
    using rnd_even_mono rnd_even_of_int by metis+
  then have "of_int (2 ^ 52) \<le> (of_int (rnd_even (x / ?p)) :: rat)" "(of_int (rnd_even (x / ?p)) :: rat) \<le> of_int (2 ^ 53)"
    by (simp_all only: of_int_le_iff)
  with assms show "2 powi flog2 x \<le> fl x" and "fl x \<le> 2 powi (flog2 x + 1)"
    unfolding s by (simp_all add: fl_def Let_def)
qed

lemma fl_mono: "x \<le> y \<Longrightarrow> fl x \<le> fl y"
proof (cases "x \<le> 0")
  case True
  then show ?thesis by (simp add: fl_def [of x] fl_nonneg)
next
  case False
  assume xy: "x \<le> y"
  with False have x: "0 < x" and y: "0 < y" by auto
  show ?thesis
  proof (cases "flog2 x = flog2 y")
    case True
    have "rnd_even (x / 2 powi (flog2 x - 52)) \<le> rnd_even (y / 2 powi (flog2 x - 52))"
      using xy by (intro rnd_even_mono divide_right_mono) (simp_all add: less_imp_le)
    then show ?thesis using x y True by (simp add: fl_def Let_def)
  next
    case False
    then have "flog2 x + 1 \<le> flog2 y" using flog2_mono [OF x xy] by simp
    then have "(2::rat) powi (flog2 x + 1) \<le> 2 powi flog2 y" by (rule powi_mono)
    with fl_binade [OF x] fl_binade [OF y] show ?thesis by simp
  qed
qed

text \<open>Integers up to \<open>2 ^ 53\<close> are doubles.\<close>

lemma fl_of_int:
  assumes "0 \<le> n" "n < 2 ^ 53" shows "fl (of_int n) = of_int n"
proof (cases "n = 0")
  case True
  then show ?thesis by (simp add: fl_def)
next
  case False
  with assms have n: "(0::rat) < of_int n" by simp
  have "\<not> 53 \<le> flog2 (of_int n)"
  proof
    assume "53 \<le> flog2 (of_int n)"
    then have "(2::rat) powi 53 \<le> 2 powi flog2 (of_int n)" by (rule powi_mono)
    with flog2_bounds [OF n] have "of_int (2 ^ 53) \<le> (of_int n :: rat)" by simp
    with assms show False by (simp only: of_int_le_iff)
  qed
  then obtain k :: nat where k: "flog2 (of_int n) - 52 = - int k"
    by (metis add.commute add_diff_cancel_left' diff_le_0_iff_le le_minus_iff minus_minus nonneg_int_cases
        not_le uminus_add_conv_diff zle_add1_eq_le numeral_plus_one add_uminus_conv_diff semiring_norm(5,8) neg_0_le_iff_le one_plus_numeral)
  have "of_int n / (2::rat) powi (- int k) = of_int (n * 2 ^ k)"
    by (simp add: power_int_minus powi_int divide_inverse)
  then have "rnd_even (of_int n / (2::rat) powi (- int k)) = n * 2 ^ k"
    by (metis rnd_even_of_int)
  with n k show ?thesis by (simp add: fl_def Let_def power_int_minus powi_int)
qed

section \<open>BoundedJitter\<close>

definition newBoundedJitter :: "error + 8 word list \<Rightarrow> error + int" where
  "newBoundedJitter source =
     (case source of
        Inl e \<Rightarrow> Inl (Errorf ''seed retry jitter'' [e])
      | Inr seedBytes \<Rightarrow> Inr (sint (word_rcat (rev (take 8 seedBytes)) :: 64 word)))"

text \<open>
  \<open>Apply\<close> draws \<open>r\<close> from the generator; \<open>time.Duration(x)\<close> of a double truncates.
  The constants \<open>0.8\<close> and \<open>0.4\<close> are converted to doubles.
\<close>

definition Apply :: "rat \<Rightarrow> duration \<Rightarrow> duration" where
  "Apply r delay =
     (if delay \<le> 0 then delay
      else let factor = fl (fl (4 / 5) + fl (r * fl (2 / 5)));
               result = \<lfloor>fl (fl (of_int delay) * factor)\<rfloor>
           in if result < 1 then 1 else result)"

definition max_jittered :: duration where
  "max_jittered = 7 * 24 * Hour"

lemma fl_eqI:
  assumes "2 powi e \<le> x" "x < 2 powi (e + 1)"
  shows "fl x = of_int (rnd_even (x / 2 powi (e - 52))) * 2 powi (e - 52)"
proof -
  from assms(1) have x: "0 < x" using powi_pos [of e] by (rule less_le_trans [rotated])
  have "\<not> flog2 x < e" "\<not> e < flog2 x"
    using powi_mono [of "flog2 x + 1" e] powi_mono [of "e + 1" "flog2 x"] flog2_bounds [OF x] assms by auto
  with x show ?thesis by (simp add: fl_def Let_def)
qed

lemma floor_numeral_divide: "\<lfloor>(numeral a / numeral b :: rat)\<rfloor> = numeral a div numeral b"
  using floor_divide_of_int_eq [of "numeral a" "numeral b", where 'a = rat] by simp

lemma fl_constants:
  "fl (4 / 5) = 3602879701896397 / 4503599627370496"
  "fl (2 / 5) = 3602879701896397 / 9007199254740992"
  "fl (3602879701896397 / 4503599627370496 + 3602879701896397 / 9007199254740992) =
     1351079888211149 / 1125899906842624"
  using fl_eqI [of "- 1" "4 / 5"] fl_eqI [of "- 2" "2 / 5"]
    fl_eqI [of 0 "3602879701896397 / 4503599627370496 + 3602879701896397 / 9007199254740992"]
  by (simp_all add: power_int_def rnd_even_def Let_def power_divide floor_numeral_divide)

lemma fl_fl_constants:
  "fl (3602879701896397 / 4503599627370496) = 3602879701896397 / 4503599627370496"
  "fl (3602879701896397 / 9007199254740992) = 3602879701896397 / 9007199254740992"
  using fl_eqI [of "- 1" "3602879701896397 / 4503599627370496"]
    fl_eqI [of "- 2" "3602879701896397 / 9007199254740992"]
  by (simp_all add: power_int_def rnd_even_def Let_def power_divide floor_numeral_divide)

lemma factor_bounds:
  assumes "0 \<le> r" "r < 1"
  shows "4 / 5 \<le> fl (fl (4 / 5) + fl (r * fl (2 / 5)))"
    and "fl (fl (4 / 5) + fl (r * fl (2 / 5))) \<le> 1351079888211149 / 1125899906842624"
proof -
  have "fl (fl (4 / 5)) \<le> fl (fl (4 / 5) + fl (r * fl (2 / 5)))"
    by (intro fl_mono) (simp add: fl_nonneg)
  moreover have "4 / 5 \<le> fl (fl (4 / 5))" by (simp add: fl_constants fl_fl_constants)
  ultimately show "4 / 5 \<le> fl (fl (4 / 5) + fl (r * fl (2 / 5)))" by (rule order_trans [rotated])
  have "fl (r * fl (2 / 5)) \<le> fl (fl (2 / 5))"
    using assms by (intro fl_mono) (simp add: fl_constants)
  then have "fl (fl (4 / 5) + fl (r * fl (2 / 5))) \<le> fl (fl (4 / 5) + fl (fl (2 / 5)))"
    by (intro fl_mono) simp
  also have "\<dots> = 1351079888211149 / 1125899906842624"
    unfolding fl_constants fl_fl_constants ..
  finally show "fl (fl (4 / 5) + fl (r * fl (2 / 5))) \<le> 1351079888211149 / 1125899906842624" .
qed

text \<open>
  The product is at most \<open>1.2\<close> times the delay plus a fifth of a nanosecond for delays up
  to the seven days the configuration admits, so truncation stays within one nanosecond.
\<close>

lemma product_bounds:
  assumes "0 \<le> r" "r < 1" "0 < d" "d \<le> max_jittered"
  shows "(4 * d) div 5 \<le> \<lfloor>fl (fl (of_int d) * fl (fl (4 / 5) + fl (r * fl (2 / 5))))\<rfloor>"
    and "\<lfloor>fl (fl (of_int d) * fl (fl (4 / 5) + fl (r * fl (2 / 5))))\<rfloor> \<le> (6 * d) div 5 + 1"
proof -
  let ?f = "fl (fl (4 / 5) + fl (r * fl (2 / 5)))"
  have d: "d \<le> 604800000000000" using assms(4) by (simp add: max_jittered_def duration_units)
  then have fd: "fl (of_int d) = of_int d" using assms(3) by (intro fl_of_int) simp_all
  have lo: "(of_int ((4 * d) div 5) :: rat) \<le> of_int d * ?f"
  proof -
    have "5 * ((4 * d) div 5) \<le> 4 * d" by simp
    then have "(5::rat) * of_int ((4 * d) div 5) \<le> 4 * of_int d"
      by (metis (mono_tags) of_int_le_iff of_int_mult of_int_numeral)
    moreover have "of_int d * (4 / 5) \<le> of_int d * ?f"
      using factor_bounds(1) [OF assms(1,2)] assms(3) by (intro mult_left_mono) simp_all
    ultimately show ?thesis by simp
  qed
  have hi: "of_int d * ?f \<le> (of_int ((6 * d) div 5 + 1) :: rat)"
  proof -
    have "of_int d * ?f \<le> of_int d * (1351079888211149 / 1125899906842624)"
      using factor_bounds(2) [OF assms(1,2)] assms(3) by (intro mult_left_mono) simp_all
    also have "\<dots> \<le> of_int d * (6 / 5) + 1 / 5"
    proof -
      have "(of_int d :: rat) \<le> of_int 604800000000000" using d by (simp only: of_int_le_iff)
      then show ?thesis by simp
    qed
    also have "\<dots> \<le> of_int ((6 * d) div 5 + 1)"
    proof -
      have "6 * d + 1 \<le> 5 * ((6 * d) div 5 + 1)" by presburger
      then have "(of_int (6 * d + 1) :: rat) \<le> of_int (5 * ((6 * d) div 5 + 1))" by (simp only: of_int_le_iff)
      then show ?thesis by simp
    qed
    finally show ?thesis .
  qed
  have "0 \<le> (6 * d) div 5" using assms(3) by simp
  with d assms(3) have i: "fl (of_int ((4 * d) div 5)) = of_int ((4 * d) div 5)"
      "fl (of_int ((6 * d) div 5 + 1)) = of_int ((6 * d) div 5 + 1)"
    by (intro fl_of_int; simp)+
  show "(4 * d) div 5 \<le> \<lfloor>fl (fl (of_int d) * ?f)\<rfloor>"
    using fl_mono [OF lo] unfolding fd i by (simp only: le_floor_iff)
  show "\<lfloor>fl (fl (of_int d) * ?f)\<rfloor> \<le> (6 * d) div 5 + 1"
    using floor_mono [OF fl_mono [OF hi]] unfolding fd i by (simp only: floor_of_int)
qed

lemma Apply_bounds:
  assumes "0 \<le> r" "r < 1" "0 < d" "d \<le> max_jittered"
  shows "(4 * d) div 5 \<le> Apply r d" and "Apply r d \<le> (6 * d) div 5 + 1" and "1 \<le> Apply r d"
proof -
  define R where "R = \<lfloor>fl (fl (of_int d) * fl (fl (4 / 5) + fl (r * fl (2 / 5))))\<rfloor>"
  have A: "Apply r d = (if R < 1 then 1 else R)"
    using assms(3) unfolding Apply_def Let_def R_def by (simp only: not_le [symmetric] if_False)
  have R: "(4 * d) div 5 \<le> R" "R \<le> (6 * d) div 5 + 1"
    unfolding R_def by (rule product_bounds [OF assms])+
  have "0 \<le> (6 * d) div 5" using assms(3) by simp
  with R show "(4 * d) div 5 \<le> Apply r d" and "Apply r d \<le> (6 * d) div 5 + 1" and "1 \<le> Apply r d"
    unfolding A by simp_all
qed

definition unit_draw :: "rat \<Rightarrow> bool" where
  "unit_draw r \<longleftrightarrow> 0 \<le> r \<and> r < 1"

interpretation bounded_jitter: jitter_contract Apply unit_draw max_jittered
  by unfold_locales (simp_all add: Apply_bounds unit_draw_def)

section \<open>Guarantees\<close>


text \<open>
  A retryable failure is not turned into a permanent one while attempts are left: with
  delays whose upper jitter bound fits in the lifetime, \<open>NextAttempt\<close> grants the retry
  whatever the generator draws. (Without that margin a delay close to the lifetime can be
  jittered past it and the notification dies early.)
\<close>

theorem jittered_retry_granted:
  assumes "unit_draw r" "0 < attempt" "attempt < MaxAttempts policy" "Delays policy \<noteq> []"
    and "\<forall>d \<in> set (Delays policy). 0 < d \<and> d \<le> max_jittered \<and> (6 * d) div 5 + 1 \<le> Lifetime policy"
  shows "NextAttempt policy attempt None now (Some (Apply r)) \<noteq> None"
  by (rule bounded_jitter.retry_granted [OF assms])

definition hourly_policy :: retry_policy where
  "hourly_policy = \<lparr>MaxAttempts = 3, Lifetime = Hour, Delays = [5 * Second, 30 * Second]\<rparr>"

lemma half_draw: "unit_draw (1 / 2)"
  by (simp add: unit_draw_def)

lemma jittered_retry_granted_witness: "NextAttempt hourly_policy 2 None 7 (Some (Apply (1 / 2))) \<noteq> None"
  by (rule jittered_retry_granted [OF half_draw])
    (simp_all add: hourly_policy_def max_jittered_def duration_units)


end
