(* ===== verification/GoParse.thy ===== *)
theory GoParse
  imports GoStrings Jitter JsonText
begin

text \<open>
  Two parsers of Go's standard library that the source trusts with its configuration and with literal
  addresses: \<open>time.ParseDuration\<close> and \<open>net.ParseIP\<close>, whose errors are \<^const>\<open>None\<close>. What they are
  needed for is proved: the durations of the usual form are read exactly, and every IPv4 address is
  read back from its dotted text.
\<close>

section \<open>Durations (time.ParseDuration)\<close>

text \<open>Unsigned 64-bit numbers; both loops over digits stop short of an overflow.\<close>

fun leadingInt :: "nat \<Rightarrow> string \<Rightarrow> (nat \<times> string) option" where
  "leadingInt x [] = Some (x, [])"
| "leadingInt x (c # s) =
     (if \<not> is_digit c then Some (x, c # s)
      else if 2 ^ 63 div 10 < x then None
      else let x' = 10 * x + digit_val c in if 2 ^ 63 < x' then None else leadingInt x' s)"

fun leadingFraction :: "nat \<Rightarrow> rat \<Rightarrow> bool \<Rightarrow> string \<Rightarrow> nat \<times> rat \<times> string" where
  "leadingFraction x scale overflow [] = (x, scale, [])"
| "leadingFraction x scale overflow (c # s) =
     (if \<not> is_digit c then (x, scale, c # s)
      else if overflow then leadingFraction x scale True s
      else if (2 ^ 63 - 1) div 10 < x then leadingFraction x scale True s
      else let y = 10 * x + digit_val c
           in if 2 ^ 63 < y then leadingFraction x scale True s else leadingFraction y (fl (scale * 10)) False s)"

definition unit_of :: "string \<Rightarrow> nat option" where
  "unit_of = map_of
     [(''ns'', 1), (''us'', 1000), ([CHR 0xC2, CHR 0xB5, CHR ''s''], 1000), ([CHR 0xCE, CHR 0xBC, CHR ''s''], 1000),
      (''ms'', 1000000), (''s'', 1000000000), (''m'', 60000000000), (''h'', 3600000000000)]"

text \<open>One number with its unit: the nanoseconds and the rest.\<close>

definition duration_part :: "string \<Rightarrow> (nat \<times> string) option" where
  "duration_part s =
     (case leadingInt 0 s of
        None \<Rightarrow> None
      | Some (v, s1) \<Rightarrow>
          (let pre = length s \<noteq> length s1;
               (f, scale, s2, post) =
                 (case s1 of
                    c # r \<Rightarrow>
                      if c = CHR ''.''
                      then (case leadingFraction 0 1 False r of (f, scale, r') \<Rightarrow> (f, scale, r', length r \<noteq> length r'))
                      else (0, 1, s1, False)
                  | [] \<Rightarrow> (0, 1, s1, False));
               u = takeWhile (\<lambda>c. \<not> (c = CHR ''.'' \<or> is_digit c)) s2
           in if \<not> pre \<and> \<not> post \<or> u = [] then None
              else case unit_of u of
                None \<Rightarrow> None
              | Some unit \<Rightarrow>
                  if 2 ^ 63 div unit < v then None
                  else let v1 = v * unit;
                           v2 = (if 0 < f then v1 + nat \<lfloor>fl (fl (of_nat f) * fl (of_nat unit / scale))\<rfloor> else v1)
                       in if 2 ^ 63 < v2 then None else Some (v2, drop (length u) s2)))"

lemma leadingInt_length: "leadingInt x s = Some (v, r) \<Longrightarrow> length r \<le> length s"
  by (induction x s rule: leadingInt.induct) (auto simp: Let_def split: if_splits)

lemma leadingFraction_length: "leadingFraction x scale b s = (f, sc, r) \<Longrightarrow> length r \<le> length s"
  by (induction x scale b s rule: leadingFraction.induct) (fastforce simp: Let_def split: if_splits)+

lemma duration_part_length: "duration_part s = Some (v, r) \<Longrightarrow> length r < length s"
proof -
  assume p: "duration_part s = Some (v, r)"
  then obtain v1 s1 s2 f scale post where l: "leadingInt 0 s = Some (v1, s1)"
    and c: "(case s1 of c # r \<Rightarrow> if c = CHR ''.'' then (case leadingFraction 0 1 False r of (f, scale, r') \<Rightarrow>
        (f, scale, r', length r \<noteq> length r')) else (0, 1, s1, False) | [] \<Rightarrow> (0, 1, s1, False)) = (f, scale, s2, post)"
    and u: "takeWhile (\<lambda>c. \<not> (c = CHR ''.'' \<or> is_digit c)) s2 \<noteq> []"
    and r: "r = drop (length (takeWhile (\<lambda>c. \<not> (c = CHR ''.'' \<or> is_digit c)) s2)) s2"
    unfolding duration_part_def Let_def by (auto split: option.splits prod.splits if_splits)
  have "length s2 \<le> length s1"
    using c by (auto split: list.splits if_splits prod.splits dest: leadingFraction_length)
  moreover have "length r < length s2" using u by (cases s2) (auto simp: r)
  ultimately show "length r < length s" using leadingInt_length [OF l] by linarith
qed

function duration_parts :: "nat \<Rightarrow> string \<Rightarrow> nat option" where
  "duration_parts d s =
     (if s = [] then Some d
      else case duration_part s of
        None \<Rightarrow> None
      | Some (v, r) \<Rightarrow> (let d' = (d + v) mod 2 ^ 64 in if 2 ^ 63 < d' then None else duration_parts d' r))"
  by auto
termination by (relation "measure (length \<circ> snd)") (auto simp: duration_part_length)

declare duration_parts.simps [simp del]

definition ParseDuration :: "string \<Rightarrow> duration option" where
  "ParseDuration str =
     (let (neg, s) = (case str of
         [] \<Rightarrow> (False, [])
       | c # r \<Rightarrow> if c = CHR ''-'' \<or> c = CHR ''+'' then (c = CHR ''-'', r) else (False, str))
      in if s = ''0'' then Some 0
         else if s = [] then None
         else case duration_parts 0 s of
           None \<Rightarrow> None
         | Some d \<Rightarrow> if neg then Some (wrap64 (- wrap64 (int d))) else if 2 ^ 63 - 1 < d then None else Some (int d))"

section \<open>Addresses (net.ParseIP)\<close>

text \<open>An address is Go's \<open>net.IP\<close>, a slice of four or sixteen bytes.\<close>

type_synonym ip = "8 word list"

text \<open>The loop of \<open>parseIPv4Fields\<close>: \<open>prev\<close> is the character before, if any.\<close>

fun ipv4_loop :: "char option \<Rightarrow> string \<Rightarrow> nat \<Rightarrow> nat \<Rightarrow> ip \<Rightarrow> ip option" where
  "ipv4_loop prev [] val digLen octets = (if length octets < 3 then None else Some (octets @ [of_nat val]))"
| "ipv4_loop prev (c # s) val digLen octets =
     (if is_digit c
      then (if digLen = 1 \<and> val = 0 then None
            else let val' = 10 * val + digit_val c
                 in if 255 < val' then None else ipv4_loop (Some c) s val' (digLen + 1) octets)
      else if c = CHR ''.''
      then (if prev = None \<or> s = [] \<or> prev = Some (CHR ''.'') \<or> length octets = 3 then None
            else ipv4_loop (Some c) s 0 0 (octets @ [of_nat val]))
      else None)"

definition parseIPv4Fields :: "string \<Rightarrow> ip option" where
  "parseIPv4Fields s = ipv4_loop None s 0 0 []"

definition hex_chunk :: "string \<Rightarrow> ip" where
  "hex_chunk digits = (let acc = foldl (\<lambda>a c. 16 * a + hex_val c) 0 digits in [of_nat (acc div 256), of_nat (acc mod 256)])"

text \<open>
  The loop of \<open>parseIPv6\<close> with the number of groups still possible, the bytes so far and the place of
  the ellipsis; the rest of the text at the end must be empty.
\<close>

fun ipv6_loop :: "nat \<Rightarrow> string \<Rightarrow> ip \<Rightarrow> nat option \<Rightarrow> (string \<times> ip \<times> nat option) option" where
  "ipv6_loop 0 s ip ellipsis = Some (s, ip, ellipsis)"
| "ipv6_loop (Suc n) s ip ellipsis =
     (let digits = takeWhile is_hex s; ip' = ip @ hex_chunk digits
      in if digits = [] \<or> 4 < length digits then None
         else case dropWhile is_hex s of
           [] \<Rightarrow> Some ([], ip', ellipsis)
         | c # follow \<Rightarrow>
             if c = CHR ''.''
             then (if ellipsis = None \<and> length ip \<noteq> 12 \<or> 16 < length ip + 4 then None
                   else case parseIPv4Fields s of None \<Rightarrow> None | Some octets \<Rightarrow> Some ([], ip @ octets, ellipsis))
             else if c \<noteq> CHR '':'' \<or> follow = [] then None
             else if hd follow = CHR '':''
             then (if ellipsis \<noteq> None then None
                   else if tl follow = [] then Some ([], ip', Some (length ip'))
                   else ipv6_loop n (tl follow) ip' (Some (length ip')))
             else ipv6_loop n follow ip' ellipsis)"

text \<open>The address without its zone; an address with a zone is no \<open>net.IP\<close>.\<close>

definition parseIPv6 :: "string \<Rightarrow> ip option" where
  "parseIPv6 s =
     (let (ellipsis, s1) = (if HasPrefix s ''::'' then (Some 0, drop 2 s) else (None, s))
      in if CHR ''%'' \<in> set s then None
         else if ellipsis \<noteq> None \<and> s1 = [] then Some (replicate 16 0)
         else case ipv6_loop 8 s1 [] ellipsis of
           None \<Rightarrow> None
         | Some (rest, ip, e) \<Rightarrow>
             if rest \<noteq> [] then None
             else if length ip < 16
             then (case e of
                     None \<Rightarrow> None
                   | Some k \<Rightarrow> Some (take k ip @ replicate (16 - length ip) 0 @ drop k ip))
             else if e \<noteq> None then None else Some ip)"

definition IPv4 :: "ip \<Rightarrow> ip" where
  "IPv4 v = replicate 10 0 @ [255, 255] @ v"

definition ParseIP :: "string \<Rightarrow> ip option" where
  "ParseIP s =
     (case find (\<lambda>c. c = CHR ''.'' \<or> c = CHR '':'' \<or> c = CHR ''%'') s of
        None \<Rightarrow> None
      | Some c \<Rightarrow>
          if c = CHR ''.'' then map_option IPv4 (parseIPv4Fields s)
          else if c = CHR '':'' then parseIPv6 s
          else None)"

section \<open>What is read\<close>

definition digits_from :: "nat \<Rightarrow> string \<Rightarrow> nat" where
  "digits_from x ds = foldl (\<lambda>a c. 10 * a + digit_val c) x ds"

lemma digits_from_ge: "x \<le> digits_from x ds"
proof (induction ds arbitrary: x)
  case (Cons c ds)
  have "x \<le> 10 * x + digit_val c" by simp
  also have "\<dots> \<le> digits_from (10 * x + digit_val c) ds" by (rule Cons.IH)
  finally show ?case by (simp add: digits_from_def)
qed (simp add: digits_from_def)

lemma leadingInt_digits:
  "list_all is_digit ds \<Longrightarrow> r = [] \<or> \<not> is_digit (hd r) \<Longrightarrow> digits_from x ds \<le> 2 ^ 63 \<Longrightarrow>
   leadingInt x (ds @ r) = Some (digits_from x ds, r)"
proof (induction ds arbitrary: x)
  case Nil
  then show ?case by (cases r) (auto simp: digits_from_def)
next
  case (Cons c ds)
  have f: "digits_from x (c # ds) = digits_from (10 * x + digit_val c) ds" by (simp add: digits_from_def)
  with Cons.prems digits_from_ge [of "10 * x + digit_val c" ds] have le: "10 * x + digit_val c \<le> 2 ^ 63" by simp
  then have "x \<le> 2 ^ 63 div 10" by simp
  with Cons le f show ?case by (simp add: Let_def)
qed

text \<open>The usual form of a duration, a number and its unit, is read exactly while it is in range.\<close>

definition usual_units :: "(string \<times> nat) list" where
  "usual_units = [(''ns'', 1), (''us'', 1000), (''ms'', 1000000), (''s'', 1000000000), (''m'', 60000000000), (''h'', 3600000000000)]"

lemma duration_part_number:
  assumes "(u, unit) \<in> set usual_units" "n * unit < 2 ^ 63"
  shows "duration_part (show_nat n @ u) = Some (n * unit, [])"
proof -
  have u: "unit_of u = Some unit" "u \<noteq> []" "\<not> is_digit (hd u)" "hd u \<noteq> CHR ''.''" "0 < unit"
    "takeWhile (\<lambda>c. \<not> (c = CHR ''.'' \<or> is_digit c)) u = u"
    using assms(1) by (auto simp: usual_units_def unit_of_def is_digit_def)
  have d: "digits_from 0 (show_nat n) = n" using digits_val_show [of n] by (simp add: digits_from_def digits_val_def)
  have n: "n \<le> 2 ^ 63" "\<not> 2 ^ 63 div unit < n"
    using assms(2) u(5) by (auto simp: not_less less_eq_div_iff_mult_less_eq intro: order_trans [of n "n * unit"])
  with leadingInt_digits [of "show_nat n" u 0] show_nat_digits [of n] u(3) d have l: "leadingInt 0 (show_nat n @ u) = Some (n, u)" by simp
  have "show_nat n \<noteq> []" using show_nat_digits by blast
  moreover obtain c r where c: "u = c # r" using u(2) by (metis list.exhaust)
  moreover from u(6) c have tw: "takeWhile (\<lambda>c. c \<noteq> CHR ''.'' \<and> \<not> is_digit c) r = r" by (auto split: if_splits)
  ultimately show ?thesis using l u(1-5) n assms(2) by (simp add: duration_part_def Let_def tw)
qed

text \<open>The usual form of a duration, a number and its unit, is read exactly while it is in range.\<close>

lemma ParseDuration_number:
  assumes "(u, unit) \<in> set usual_units" "n * unit < 2 ^ 63"
  shows "ParseDuration (show_nat n @ u) = Some (int (n * unit))"
proof -
  note p = duration_part_number [OF assms]
  have "u \<noteq> []" using assms(1) by (auto simp: usual_units_def)
  obtain c r where c: "show_nat n = c # r" "is_digit c" using show_nat_digits [of n] by (cases "show_nat n") auto
  then have "c \<noteq> CHR ''-''" "c \<noteq> CHR ''+''" by (auto simp: is_digit_def)
  have "duration_parts 0 (show_nat n @ u) = Some (n * unit)"
    using p assms(2) c by (subst duration_parts.simps) (simp add: duration_parts.simps [of _ "[]"])
  with c \<open>c \<noteq> CHR ''-''\<close> \<open>c \<noteq> CHR ''+''\<close> \<open>u \<noteq> []\<close> assms(2) show ?thesis by (simp add: ParseDuration_def)
qed

section \<open>Dotted addresses\<close>

lemma ipv4_loop_digits:
  "list_all is_digit ds \<Longrightarrow> 0 < val \<Longrightarrow> digits_from val ds < 256 \<Longrightarrow>
   ipv4_loop prev (ds @ s) val k octets =
     ipv4_loop (if ds = [] then prev else Some (last ds)) s (digits_from val ds) (k + length ds) octets"
proof (induction ds arbitrary: prev val k)
  case (Cons c ds)
  have f: "digits_from val (c # ds) = digits_from (10 * val + digit_val c) ds" by (simp add: digits_from_def)
  with Cons.prems digits_from_ge [of "10 * val + digit_val c" ds] have "10 * val + digit_val c < 256" by simp
  with Cons f show ?case by (simp add: Let_def)
qed (simp add: digits_from_def)

lemma show_nat_head: "0 < n \<Longrightarrow> 0 < digit_val (hd (show_nat n))"
proof (induction n rule: show_nat.induct)
  case (1 n)
  show ?case
  proof (cases "n < 10")
    case True
    with 1 show ?thesis by (subst show_nat.simps) simp
  next
    case False
    with 1 have "0 < digit_val (hd (show_nat (n div 10)))" by simp
    with False show_nat_digits [of "n div 10"] show ?thesis by (subst show_nat.simps) (simp add: hd_append)
  qed
qed

lemma ipv4_loop_octet:
  assumes "n < 256"
  shows "\<exists>c k. is_digit c \<and> ipv4_loop prev (show_nat n @ s) 0 0 octets = ipv4_loop (Some c) s n k octets"
proof -
  obtain c ds where s: "show_nat n = c # ds" using show_nat_digits [of n] by (cases "show_nat n") auto
  then have d: "is_digit c" "list_all is_digit ds" "digits_from (digit_val c) ds = n"
    using show_nat_digits [of n] digits_val_show [of n] by (auto simp: digits_val_def digits_from_def)
  have step: "ipv4_loop prev (show_nat n @ s) 0 0 octets = ipv4_loop (Some c) (ds @ s) (digit_val c) 1 octets"
    using d assms digits_from_ge [of "digit_val c" ds] by (simp add: s Let_def)
  show ?thesis
  proof (cases "0 < n")
    case True
    then have "0 < digit_val c" using show_nat_head [of n] by (simp add: s)
    from ipv4_loop_digits [OF d(2) this, of "Some c" s 1 octets] d assms have
      "ipv4_loop prev (show_nat n @ s) 0 0 octets = ipv4_loop (Some (if ds = [] then c else last ds)) s n (1 + length ds) octets"
      by (simp add: step)
    moreover have "is_digit (if ds = [] then c else last ds)" using d by (auto simp: list_all_iff)
    ultimately show ?thesis by blast
  next
    case False
    moreover have "show_nat 0 = [digit_char 0]" by (subst show_nat.simps) simp
    ultimately have "ds = []" "digit_val c = 0" using s by auto
    with step d(1) False show ?thesis by auto
  qed
qed

lemma ipv4_loop_dot:
  assumes "n < 256" "length octets \<noteq> 3" "s \<noteq> []"
  shows "ipv4_loop prev (show_nat n @ CHR ''.'' # s) 0 0 octets = ipv4_loop (Some (CHR ''.'')) s 0 0 (octets @ [of_nat n])"
proof -
  obtain c k where c: "is_digit c"
    "ipv4_loop prev (show_nat n @ CHR ''.'' # s) 0 0 octets = ipv4_loop (Some c) (CHR ''.'' # s) n k octets"
    using ipv4_loop_octet [OF assms(1), of prev "CHR ''.'' # s" octets] by blast
  have "c \<noteq> CHR ''.''" "\<not> is_digit (CHR ''.'')" using c(1) by (auto simp: is_digit_def)
  with assms(2,3) show ?thesis unfolding c(2) by simp
qed

lemma ipv4_loop_last:
  assumes "n < 256" "length octets = 3"
  shows "ipv4_loop prev (show_nat n) 0 0 octets = Some (octets @ [of_nat n])"
proof -
  obtain c k where "ipv4_loop prev (show_nat n) 0 0 octets = ipv4_loop (Some c) [] n k octets"
    using ipv4_loop_octet [OF assms(1), of prev "[]" octets] by auto
  with assms(2) show ?thesis by simp
qed

definition dotted :: "nat \<Rightarrow> nat \<Rightarrow> nat \<Rightarrow> nat \<Rightarrow> string" where
  "dotted a b c d = show_nat a @ ''.'' @ show_nat b @ ''.'' @ show_nat c @ ''.'' @ show_nat d"

lemma ParseIP_dotted:
  assumes "a < 256" "b < 256" "c < 256" "d < 256"
  shows "ParseIP (dotted a b c d) = Some (IPv4 [of_nat a, of_nat b, of_nat c, of_nat d])"
proof -
  have ne: "show_nat n \<noteq> []" for n using show_nat_digits by blast
  have "parseIPv4Fields (dotted a b c d) = Some [of_nat a, of_nat b, of_nat c, of_nat d]"
    by (simp add: parseIPv4Fields_def dotted_def ipv4_loop_dot ipv4_loop_last assms ne)
  moreover have "find (\<lambda>c. c = CHR ''.'' \<or> c = CHR '':'' \<or> c = CHR ''%'') (ds @ ''.'' @ s) = Some (CHR ''.'')"
    if "list_all is_digit ds" for ds s
    using that by (induction ds) (auto simp: is_digit_def)
  then have "find (\<lambda>c. c = CHR ''.'' \<or> c = CHR '':'' \<or> c = CHR ''%'') (dotted a b c d) = Some (CHR ''.'')"
    using show_nat_digits [of a] by (simp only: dotted_def)
  ultimately show ?thesis by (simp add: ParseIP_def)
qed

text \<open>Every address that is read has sixteen bytes.\<close>

lemma ipv4_loop_length: "ipv4_loop prev s val k octets = Some v \<Longrightarrow> length octets \<le> 3 \<Longrightarrow> length v = 4"
  by (induction prev s val k octets rule: ipv4_loop.induct) (auto simp: Let_def split: if_splits)

lemma ipv6_loop_length:
  "ipv6_loop n s a e = Some (r, a', e') \<Longrightarrow> length a + 2 * n = 16 \<Longrightarrow> (\<forall>k. e = Some k \<longrightarrow> k \<le> length a) \<Longrightarrow>
   length a' \<le> 16 \<and> (\<forall>k. e' = Some k \<longrightarrow> k \<le> length a')"
proof (induction n s a e rule: ipv6_loop.induct)
  case (2 n s a e)
  have c: "length (hex_chunk ds) = 2" for ds by (simp add: hex_chunk_def Let_def)
  have k: "\<forall>k. e = Some k \<longrightarrow> k \<le> Suc (Suc (length a))" using 2 (5) by auto
  from 2 (3) show ?case
    using 2 (1,2,4,5) k ipv4_loop_length [of None _ 0 0 "[]"]
    by (auto simp: Let_def c parseIPv4Fields_def split: list.splits if_splits option.splits)
qed auto

lemma ParseIP_length: "ParseIP s = Some a \<Longrightarrow> length a = 16"
proof -
  assume p: "ParseIP s = Some a"
  then consider v where "parseIPv4Fields s = Some v" "a = IPv4 v" | "parseIPv6 s = Some a"
    by (auto simp: ParseIP_def split: option.splits if_splits)
  then show ?thesis
  proof cases
    case 1
    with ipv4_loop_length [of None s 0 0 "[]" v] show ?thesis by (simp add: parseIPv4Fields_def IPv4_def)
  next
    case 2
    then show ?thesis using ipv6_loop_length [of 8 _ "[]"]
      by (fastforce simp: parseIPv6_def Let_def split: if_splits option.splits prod.splits)
  qed
qed

lemma sample_parsed:
  "ParseDuration ''5s'' = Some 5000000000" "ParseDuration ''24h'' = Some 86400000000000" "ParseIP ''crm.example'' = None"
proof -
  have "show_nat 5 = ''5''" "show_nat 24 = ''24''"
    by (subst show_nat.simps, simp add: digit_char_def char_of_def bit_iff_odd)+
  with ParseDuration_number [of "''s''" 1000000000 5] ParseDuration_number [of "''h''" 3600000000000 24]
  show "ParseDuration ''5s'' = Some 5000000000" "ParseDuration ''24h'' = Some 86400000000000" by (simp_all add: usual_units_def)
  show "ParseIP ''crm.example'' = None" by (simp add: ParseIP_def parseIPv4Fields_def is_digit_def)
qed

end
