(* ===== verification/Validate.thy ===== *)
theory Validate
  imports Registry GoParse
begin

text \<open>
  Loading and validation of destinations (\<open>internal/destination/validate.go\<close>,
  \<open>resolver.go\<close> and \<open>Load\<close> of \<open>config.go\<close>). An address is Go's \<open>net.IP\<close>, a slice of
  four or sixteen bytes, with the classification methods of package \<open>net\<close>. Parsing of URLs
  and of YAML is a parameter.
\<close>

unbundle bit_operations_syntax

section \<open>Addresses (net.IP)\<close>

definition To4 :: "ip \<Rightarrow> ip option" where
  "To4 a =
     (if length a = 4 then Some a
      else if length a = 16 \<and> take 10 a = replicate 10 0 \<and> take 2 (drop 10 a) = [255, 255] then Some (drop 12 a)
      else None)"

definition IsLoopback :: "ip \<Rightarrow> bool" where
  "IsLoopback a = (case To4 a of Some v \<Rightarrow> v ! 0 = 127 | None \<Rightarrow> a = replicate 15 0 @ [1])"

definition IsPrivate :: "ip \<Rightarrow> bool" where
  "IsPrivate a =
     (case To4 a of
        Some v \<Rightarrow> v ! 0 = 10 \<or> (v ! 0 = 172 \<and> v ! 1 AND 240 = 16) \<or> (v ! 0 = 192 \<and> v ! 1 = 168)
      | None \<Rightarrow> length a = 16 \<and> a ! 0 AND 254 = 252)"

definition IsLinkLocalUnicast :: "ip \<Rightarrow> bool" where
  "IsLinkLocalUnicast a =
     (case To4 a of
        Some v \<Rightarrow> v ! 0 = 169 \<and> v ! 1 = 254
      | None \<Rightarrow> length a = 16 \<and> a ! 0 = 254 \<and> a ! 1 AND 192 = 128)"

definition IsLinkLocalMulticast :: "ip \<Rightarrow> bool" where
  "IsLinkLocalMulticast a =
     (case To4 a of
        Some v \<Rightarrow> v ! 0 = 224 \<and> v ! 1 = 0 \<and> v ! 2 = 0
      | None \<Rightarrow> length a = 16 \<and> a ! 0 = 255 \<and> a ! 1 AND 15 = 2)"

definition IsMulticast :: "ip \<Rightarrow> bool" where
  "IsMulticast a = (case To4 a of Some v \<Rightarrow> v ! 0 AND 240 = 224 | None \<Rightarrow> length a = 16 \<and> a ! 0 = 255)"

definition IsUnspecified :: "ip \<Rightarrow> bool" where
  "IsUnspecified a = (case To4 a of Some v \<Rightarrow> v = [0, 0, 0, 0] | None \<Rightarrow> a = replicate 16 0)"

definition disallowedIP :: "ip \<Rightarrow> bool" where
  "disallowedIP a \<longleftrightarrow> IsLoopback a \<or> IsPrivate a \<or> IsLinkLocalUnicast a \<or> IsLinkLocalMulticast a \<or>
     IsMulticast a \<or> IsUnspecified a"

definition ValidateResolvedIPs :: "ip list \<Rightarrow> error option" where
  "ValidateResolvedIPs addresses =
     (if addresses = [] then Some (New ''destination resolved to no addresses'')
      else if list_ex disallowedIP addresses then Some (New ''disallowed destination network'') else None)"

section \<open>One destination\<close>

record raw_destination =
  raw_ID :: string
  raw_Method :: string
  raw_URL :: string
  raw_StaticHeaders :: "(string, string) gomap"
  raw_SecretHeaders :: "(string, string) gomap"
  raw_Timeout :: string
  raw_MaxAttempts :: int
  raw_Lifetime :: string
  raw_RetryDelays :: "string list"
  raw_ConcurrencyLimit :: int

text \<open>
  \<open>url.Parse\<close>, whose failure is \<^const>\<open>None\<close>, and the tables of \<open>unicode\<close> for upper case and
  folding.
\<close>

record parsers =
  parse_url :: "string \<Rightarrow> url option"
  upper_table :: "nat \<Rightarrow> nat"
  fold_table :: "nat \<Rightarrow> nat"

fun parse_delays :: "duration \<Rightarrow> string list \<Rightarrow> error + duration list" where
  "parse_delays lifetime [] = Inr []"
| "parse_delays lifetime (v # vs) =
     (case ParseDuration v of
        None \<Rightarrow> Inl (New ''invalid retry delay'')
      | Some d \<Rightarrow>
          if d \<le> 0 \<or> lifetime < d then Inl (New ''invalid retry delay'')
          else case parse_delays lifetime vs of Inl err \<Rightarrow> Inl err | Inr ds \<Rightarrow> Inr (d # ds))"

text \<open>The two loops over the header maps, in the order of one iteration.\<close>

fun static_headers :: "parsers \<Rightarrow> (string, string) gomap \<Rightarrow> header \<Rightarrow> error + header" where
  "static_headers ps [] h = Inr h"
| "static_headers ps ((name, v) # rest) h =
     (if EqualFold (fold_table ps) name ''Authorization'' \<or> ContainsAny v [CHR 0x0D, CHR 0x0A]
      then Inl (New ''unsafe static header'')
      else static_headers ps rest (Header_Set name v h))"

fun secret_headers ::
  "(string \<Rightarrow> string option) \<Rightarrow> (string, string) gomap \<Rightarrow> (string, string) gomap \<Rightarrow> error + (string, string) gomap" where
  "secret_headers lookupEnv [] m = Inr m"
| "secret_headers lookupEnv ((name, env) # rest) m =
     (if env = [] \<or> ContainsAny name [CHR 0x0D, CHR 0x0A] then Inl (New ''invalid secret header reference'')
      else if lookupEnv env = None then Inl (New ''missing environment variable'')
      else secret_headers lookupEnv rest (AList.update (CanonicalHeaderKey name) env m))"

definition out_of_range :: "duration option \<Rightarrow> duration \<Rightarrow> bool" where
  "out_of_range d most = (case d of None \<Rightarrow> True | Some v \<Rightarrow> v \<le> 0 \<or> most < v)"

definition parseDestination ::
  "parsers \<Rightarrow> raw_destination \<Rightarrow> (string \<Rightarrow> string option) \<Rightarrow> error + destination" where
  "parseDestination ps raw lookupEnv =
     (if TrimSpace (raw_ID raw) = [] then Inl (New ''id is required'')
      else let meth = ToUpper (upper_table ps) (raw_Method raw) in
      if meth \<noteq> ''POST'' \<and> meth \<noteq> ''PUT'' \<and> meth \<noteq> ''PATCH'' then Inl (New ''unsupported method'')
      else case parse_url ps (raw_URL raw) of
        None \<Rightarrow> Inl (New ''invalid URL'')
      | Some u \<Rightarrow>
      if url_Hostname u = [] then Inl (New ''invalid URL'')
      else if url_Scheme u \<noteq> ''https'' then Inl (New ''production destination must use HTTPS'')
      else if url_User u \<or> url_Fragment u \<noteq> [] then Inl (New ''URL userinfo and fragments are not allowed'')
      else if (case ParseIP (url_Hostname u) of None \<Rightarrow> False | Some a \<Rightarrow> disallowedIP a)
      then Inl (New ''disallowed destination network'')
      else let timeout = ParseDuration (raw_Timeout raw) in
      if out_of_range timeout (30 * Second) then Inl (New ''timeout must be between 1ns and 30s'')
      else let lifetime = ParseDuration (raw_Lifetime raw) in
      if out_of_range lifetime (7 * 24 * Hour) then Inl (New ''lifetime must be between 1ns and 168h'')
      else if raw_MaxAttempts raw < 1 \<or> 32 < raw_MaxAttempts raw then Inl (New ''max_attempts must be between 1 and 32'')
      else if raw_ConcurrencyLimit raw < 1 \<or> 1000 < raw_ConcurrencyLimit raw
      then Inl (New ''concurrency_limit must be between 1 and 1000'')
      else case parse_delays (the lifetime) (raw_RetryDelays raw) of
        Inl err \<Rightarrow> Inl err
      | Inr delays \<Rightarrow>
      if 1 < raw_MaxAttempts raw \<and> delays = [] then Inl (New ''retry_delays are required when max_attempts exceeds one'')
      else case static_headers ps (raw_StaticHeaders raw) [] of
        Inl err \<Rightarrow> Inl err
      | Inr static \<Rightarrow>
      (case secret_headers lookupEnv (raw_SecretHeaders raw) [] of
        Inl err \<Rightarrow> Inl err
      | Inr secret \<Rightarrow>
          Inr \<lparr>dest_ID = raw_ID raw, dest_Method = meth, dest_URL = Some u, dest_StaticHeaders = static,
               dest_SecretHeaders = secret, dest_Timeout = the timeout,
               dest_Retry = \<lparr>MaxAttempts = raw_MaxAttempts raw, Lifetime = the lifetime, Delays = delays\<rparr>,
               dest_ConcurrencyLimit = raw_ConcurrencyLimit raw\<rparr>))"

section \<open>Loading\<close>

fun load_loop ::
  "parsers \<Rightarrow> (string \<Rightarrow> string option) \<Rightarrow> raw_destination list \<Rightarrow> registry \<Rightarrow> error + registry" where
  "load_loop ps lookupEnv [] items = Inr items"
| "load_loop ps lookupEnv (candidate # rest) items =
     (if map_of items (raw_ID candidate) \<noteq> None then Inl (New ''duplicate destination'')
      else case parseDestination ps candidate lookupEnv of
        Inl err \<Rightarrow> Inl (Errorf ''destination'' [err])
      | Inr d \<Rightarrow> load_loop ps lookupEnv rest (AList.update (dest_ID d) d items))"

text \<open>\<open>file\<close> is what \<open>os.ReadFile\<close> returns, \<open>decode\<close> the YAML decoder.\<close>

definition Load ::
  "parsers \<Rightarrow> error + string \<Rightarrow> (string \<Rightarrow> error + raw_destination list) \<Rightarrow> (string \<Rightarrow> string option) \<Rightarrow> error + registry" where
  "Load ps file decode lookupEnv =
     (case file of
        Inl err \<Rightarrow> Inl (Errorf ''read destination config'' [err])
      | Inr data \<Rightarrow>
          (case decode data of
             Inl err \<Rightarrow> Inl (Errorf ''decode destination config'' [err])
           | Inr raws \<Rightarrow> if raws = [] then Inl (New ''destination config is empty'') else load_loop ps lookupEnv raws []))"

section \<open>What validation guarantees\<close>

definition delays_ok :: "duration \<Rightarrow> duration list \<Rightarrow> bool" where
  "delays_ok lifetime ds \<longleftrightarrow> (\<forall>d \<in> set ds. 0 < d \<and> d \<le> lifetime)"

lemma parse_delays_ok: "parse_delays lifetime vs = Inr ds \<Longrightarrow> delays_ok lifetime ds \<and> length ds = length vs"
  by (induction vs arbitrary: ds) (auto simp: delays_ok_def split: option.splits if_splits sum.splits)

lemma token_ascii: "list_all token_byte s \<Longrightarrow> ascii s"
  by (induction s) (auto simp: ascii_def token_byte_def)

lemma canonical_letters_fold:
  "map (fold_rune table) (map byte (canonical_letters up s)) = map (fold_rune table) (map byte s)"
  by (induction s arbitrary: up) (auto simp: Let_def fold_rune_def)

lemma CanonicalHeaderKey_fold: "EqualFold table (CanonicalHeaderKey s) s"
proof (cases "list_all token_byte s")
  case True
  then have "ascii s" "ascii (canonical_letters True s)" by (simp_all add: token_ascii canonical_letters_token)
  with True show ?thesis by (simp only: EqualFold_def CanonicalHeaderKey_def ascii_runes canonical_letters_fold if_True)
qed (simp add: CanonicalHeaderKey_def)

definition header_safe :: "(nat \<Rightarrow> nat) \<Rightarrow> header \<Rightarrow> bool" where
  "header_safe table h \<longleftrightarrow> distinct (map fst h) \<and>
     (\<forall>(k, vs) \<in> set h. \<not> EqualFold table k ''Authorization'' \<and> (\<forall>v \<in> set vs. \<not> ContainsAny v [CHR 0x0D, CHR 0x0A]))"

lemma static_headers_safe:
  "static_headers ps kvs h = Inr h' \<Longrightarrow> header_safe (fold_table ps) h \<Longrightarrow> header_safe (fold_table ps) h'"
proof (induction kvs arbitrary: h)
  case (Cons kv kvs)
  obtain name v where kv: "kv = (name, v)" by fastforce
  from Cons.prems(1) kv have ok: "\<not> EqualFold (fold_table ps) name ''Authorization''" "\<not> ContainsAny v [CHR 0x0D, CHR 0x0A]"
    and rest: "static_headers ps kvs (Header_Set name v h) = Inr h'" by (auto split: if_splits)
  have "\<not> EqualFold (fold_table ps) (CanonicalHeaderKey name) ''Authorization''"
    using ok(1) CanonicalHeaderKey_fold EqualFold_trans EqualFold_sym by blast
  with Cons.prems(2) ok(2) have "header_safe (fold_table ps) (Header_Set name v h)"
    unfolding header_safe_def Header_Set_def by (intro conjI update_all) (simp_all add: distinct_update)
  with rest show ?case by (rule Cons.IH)
qed simp

definition secrets_ok :: "(string \<Rightarrow> string option) \<Rightarrow> (string, string) gomap \<Rightarrow> bool" where
  "secrets_ok lookupEnv m \<longleftrightarrow> distinct (map fst m) \<and> (\<forall>(name, env) \<in> set m. env \<noteq> [] \<and> lookupEnv env \<noteq> None)"

lemma secret_headers_ok: "secret_headers lookupEnv kvs m = Inr m' \<Longrightarrow> secrets_ok lookupEnv m \<Longrightarrow> secrets_ok lookupEnv m'"
proof (induction kvs arbitrary: m)
  case (Cons kv kvs)
  obtain name env where kv: "kv = (name, env)" by fastforce
  with Cons.prems have "secret_headers lookupEnv kvs (AList.update (CanonicalHeaderKey name) env m) = Inr m'"
    "env \<noteq> []" "lookupEnv env \<noteq> None" by (auto split: if_splits)
  moreover from this Cons.prems(2) have "secrets_ok lookupEnv (AList.update (CanonicalHeaderKey name) env m)"
    unfolding secrets_ok_def by (intro conjI update_all) (simp_all add: distinct_update)
  ultimately show ?case using Cons.IH by blast
qed simp

text \<open>What every loaded destination satisfies.\<close>

definition destination_ok :: "parsers \<Rightarrow> (string \<Rightarrow> string option) \<Rightarrow> destination \<Rightarrow> bool" where
  "destination_ok ps lookupEnv d \<longleftrightarrow>
     dest_Method d \<in> {''POST'', ''PUT'', ''PATCH''} \<and>
     (\<exists>u. dest_URL d = Some u \<and> url_Scheme u = ''https'' \<and> url_Hostname u \<noteq> [] \<and> \<not> url_User u \<and> url_Fragment u = [] \<and>
        (\<forall>a. ParseIP (url_Hostname u) = Some a \<longrightarrow> \<not> disallowedIP a)) \<and>
     0 < dest_Timeout d \<and> dest_Timeout d \<le> 30 * Second \<and>
     0 < Lifetime (dest_Retry d) \<and> Lifetime (dest_Retry d) \<le> 7 * 24 * Hour \<and>
     1 \<le> MaxAttempts (dest_Retry d) \<and> MaxAttempts (dest_Retry d) \<le> 32 \<and>
     1 \<le> dest_ConcurrencyLimit d \<and> dest_ConcurrencyLimit d \<le> 1000 \<and>
     delays_ok (Lifetime (dest_Retry d)) (Delays (dest_Retry d)) \<and>
     (1 < MaxAttempts (dest_Retry d) \<longrightarrow> Delays (dest_Retry d) \<noteq> []) \<and>
     header_safe (fold_table ps) (dest_StaticHeaders d) \<and> secrets_ok lookupEnv (dest_SecretHeaders d)"

lemma parseDestination_ok:
  assumes "parseDestination ps raw lookupEnv = Inr d"
  shows "dest_ID d = raw_ID raw \<and> TrimSpace (raw_ID raw) \<noteq> [] \<and> destination_ok ps lookupEnv d"
proof -
  have "header_safe (fold_table ps) []" "secrets_ok lookupEnv []" by (simp_all add: header_safe_def secrets_ok_def)
  with assms show ?thesis
    unfolding parseDestination_def destination_ok_def Let_def out_of_range_def
    by (auto split: if_splits option.splits sum.splits dest!: parse_delays_ok static_headers_safe secret_headers_ok)
qed

lemma load_loop_ok:
  assumes "load_loop ps lookupEnv raws items = Inr registry" "distinct (map fst items)"
    and "\<forall>(i, d) \<in> set items. dest_ID d = i \<and> TrimSpace i \<noteq> [] \<and> destination_ok ps lookupEnv d"
  shows "distinct (map fst registry) \<and> map fst registry = map fst items @ map raw_ID raws \<and>
    (\<forall>(i, d) \<in> set registry. dest_ID d = i \<and> TrimSpace i \<noteq> [] \<and> destination_ok ps lookupEnv d)"
  using assms
proof (induction raws arbitrary: items)
  case (Cons raw raws)
  have new: "map_of items (raw_ID raw) = None" using Cons.prems(1) by (simp split: if_splits)
  obtain d where d: "parseDestination ps raw lookupEnv = Inr d"
    using Cons.prems(1) new by (cases "parseDestination ps raw lookupEnv") auto
  have rest: "load_loop ps lookupEnv raws (AList.update (dest_ID d) d items) = Inr registry"
    using Cons.prems(1) new d by simp
  note ok = parseDestination_ok [OF d]
  have i: "raw_ID raw \<notin> fst ` set items" using new by (simp add: map_of_eq_None_iff)
  have u: "AList.update (dest_ID d) d items = items @ [(raw_ID raw, d)]"
    using ok update_append_new [OF i] by simp
  have "distinct (map fst registry) \<and> map fst registry = map fst (items @ [(raw_ID raw, d)]) @ map raw_ID raws \<and>
      (\<forall>(i, d) \<in> set registry. dest_ID d = i \<and> TrimSpace i \<noteq> [] \<and> destination_ok ps lookupEnv d)"
  proof (rule Cons.IH)
    show "load_loop ps lookupEnv raws (items @ [(raw_ID raw, d)]) = Inr registry" using rest u by simp
    show "distinct (map fst (items @ [(raw_ID raw, d)]))" using i Cons.prems(2) by simp
    show "\<forall>(i, d) \<in> set (items @ [(raw_ID raw, d)]). dest_ID d = i \<and> TrimSpace i \<noteq> [] \<and> destination_ok ps lookupEnv d"
      using ok Cons.prems(3) by simp
  qed
  moreover have keys: "map fst (items @ [(raw_ID raw, d)]) @ map raw_ID raws = map fst items @ map raw_ID (raw # raws)" by simp
  ultimately show ?case unfolding keys by blast
qed simp

lemma Load_ok:
  assumes "Load ps file decode lookupEnv = Inr registry"
  shows "registry \<noteq> [] \<and> distinct (map fst registry) \<and>
    (\<forall>(i, d) \<in> set registry. dest_ID d = i \<and> TrimSpace i \<noteq> [] \<and> destination_ok ps lookupEnv d) \<and>
    (\<exists>data raws. file = Inr data \<and> decode data = Inr raws \<and> map fst registry = map raw_ID raws)"
proof -
  from assms obtain data raws where r: "file = Inr data" "decode data = Inr raws" "raws \<noteq> []"
    "load_loop ps lookupEnv raws [] = Inr registry"
    by (auto simp: Load_def split: sum.splits if_splits)
  have "distinct (map fst registry) \<and> map fst registry = map fst ([] :: registry) @ map raw_ID raws \<and>
      (\<forall>(i, d) \<in> set registry. dest_ID d = i \<and> TrimSpace i \<noteq> [] \<and> destination_ok ps lookupEnv d)"
    by (rule load_loop_ok [OF r(4)]) simp_all
  then have l: "distinct (map fst registry) \<and> map fst registry = map raw_ID raws \<and>
      (\<forall>(i, d) \<in> set registry. dest_ID d = i \<and> TrimSpace i \<noteq> [] \<and> destination_ok ps lookupEnv d)"
    unfolding list.map append_Nil .
  with r(3) have "registry \<noteq> []" by auto
  with l r(1,2) show ?thesis by blast
qed

text \<open>
  C28. A configuration that loads is safe to run: every destination in the registry is stored under
  its own identifier, uses one of the three methods over HTTPS to a host that is not a literal
  address of a disallowed network, without user information or fragment; its timeout, lifetime,
  attempts, concurrency and retry delays are within their bounds, with delays whenever a retry is
  possible; no static header is an \<open>Authorization\<close> header in any spelling or carries a line
  break; and every secret it refers to is set. No destination of the file is dropped.
\<close>

theorem load_validates:
  assumes "Load ps file decode lookupEnv = Inr registry"
  shows "registry \<noteq> [] \<and> distinct (map fst registry) \<and>
    (\<forall>(i, d) \<in> set registry. dest_ID d = i \<and> TrimSpace i \<noteq> [] \<and> destination_ok ps lookupEnv d) \<and>
    (\<exists>data raws. file = Inr data \<and> decode data = Inr raws \<and> map fst registry = map raw_ID raws)"
  using Load_ok [OF assms] .

definition sample_parsers :: parsers where
  "sample_parsers =
     \<lparr>parse_url = (\<lambda>s. Some \<lparr>url_Scheme = ''https'', url_Hostname = ''crm.example'', url_Host = ''crm.example'',
        url_User = False, url_Fragment = [], url_String = s\<rparr>),
      upper_table = (\<lambda>r. r), fold_table = (\<lambda>r. r)\<rparr>"

definition sample_raw :: raw_destination where
  "sample_raw =
     \<lparr>raw_ID = ''crm'', raw_Method = ''post'', raw_URL = ''https://crm.example/hook'',
      raw_StaticHeaders = [(''content-type'', ''application/json'')],
      raw_SecretHeaders = [(''authorization'', ''CRM_TOKEN'')], raw_Timeout = ''5s'', raw_MaxAttempts = 8,
      raw_Lifetime = ''24h'', raw_RetryDelays = [''5s''], raw_ConcurrencyLimit = 4\<rparr>"

lemma sample_loads:
  "\<exists>d. Load sample_parsers (Inr []) (\<lambda>_. Inr [sample_raw]) (\<lambda>_. Some ''s3cret'') = Inr [(''crm'', d)]"
proof -
  have "TrimSpace ''crm'' = ''crm''" by (rule TrimSpace_plain) (simp_all add: plain_byte_def)
  moreover have "ToUpper (\<lambda>r. r) ''post'' = ''POST''" by (simp add: ascii_ToUpper ascii_def upper_rune_def char_of_def bit_0)
  moreover have "\<not> EqualFold (\<lambda>r. r) ''content-type'' ''Authorization''"
    by (simp add: EqualFold_ascii ascii_def fold_rune_def)
  ultimately show ?thesis
    by (simp add: Load_def parseDestination_def sample_raw_def sample_parsers_def out_of_range_def duration_units
        ContainsAny_def sample_parsed)
qed

lemma load_validates_witness:
  "\<exists>d. Load sample_parsers (Inr []) (\<lambda>_. Inr [sample_raw]) (\<lambda>_. Some ''s3cret'') = Inr [(''crm'', d)] \<and>
     destination_ok sample_parsers (\<lambda>_. Some ''s3cret'') d"
proof -
  obtain d where d: "Load sample_parsers (Inr []) (\<lambda>_. Inr [sample_raw]) (\<lambda>_. Some ''s3cret'') = Inr [(''crm'', d)]"
    using sample_loads by blast
  from load_validates [OF this] have "destination_ok sample_parsers (\<lambda>_. Some ''s3cret'') d" by simp
  with d show ?thesis by blast
qed

section \<open>Networks\<close>

definition ip_bits :: "ip \<Rightarrow> bool list" where
  "ip_bits a = concat (map (\<lambda>b. map (\<lambda>i. bit b (7 - i)) [0..<8]) a)"

definition in_network :: "ip \<times> nat \<Rightarrow> ip \<Rightarrow> bool" where
  "in_network net a \<longleftrightarrow> take (snd net) (ip_bits a) = take (snd net) (ip_bits (fst net))"

text \<open>
  127.0.0.0/8, 10.0.0.0/8, 172.16.0.0/12, 192.168.0.0/16, 169.254.0.0/16, 224.0.0.0/4 and 0.0.0.0/32;
  ::1/128, fc00::/7, fe80::/10, ff00::/8 and ::/128.
\<close>

definition disallowed4 :: "(ip \<times> nat) list" where
  "disallowed4 = [([127, 0, 0, 0], 8), ([10, 0, 0, 0], 8), ([172, 16, 0, 0], 12), ([192, 168, 0, 0], 16),
     ([169, 254, 0, 0], 16), ([224, 0, 0, 0], 4), ([0, 0, 0, 0], 32)]"

definition disallowed6 :: "(ip \<times> nat) list" where
  "disallowed6 = [(replicate 15 0 @ [1], 128), (252 # replicate 15 0, 7), (254 # 128 # replicate 14 0, 10),
     (255 # replicate 15 0, 8), (replicate 16 0, 128)]"

definition in_disallowed_network :: "ip \<Rightarrow> bool" where
  "in_disallowed_network a \<longleftrightarrow>
     (case To4 a of Some v \<Rightarrow> list_ex (\<lambda>n. in_network n v) disallowed4 | None \<Rightarrow> list_ex (\<lambda>n. in_network n a) disallowed6)"

lemma upt8: "[0..<8] = [0, 1, 2, 3, 4, 5, 6, 7 :: nat]" by (simp add: upt_conv_Cons)

lemma byte_eq_iff:
  "(a :: 8 word) = b \<longleftrightarrow> (bit a 7 \<longleftrightarrow> bit b 7) \<and> (bit a 6 \<longleftrightarrow> bit b 6) \<and> (bit a 5 \<longleftrightarrow> bit b 5) \<and> (bit a 4 \<longleftrightarrow> bit b 4) \<and>
     (bit a 3 \<longleftrightarrow> bit b 3) \<and> (bit a 2 \<longleftrightarrow> bit b 2) \<and> (bit a 1 \<longleftrightarrow> bit b 1) \<and> (bit a 0 \<longleftrightarrow> bit b 0)"
  (is "_ \<longleftrightarrow> ?r")
proof
  assume ?r
  then have "bit a n \<longleftrightarrow> bit b n" if "n \<in> set [0..<8]" for n using that unfolding upt8 by auto
  then show "a = b" by (intro bit_word_eqI) simp
qed simp

lemma ip_bits_Cons: "ip_bits (b # a) = [bit b 7, bit b 6, bit b 5, bit b 4, bit b 3, bit b 2, bit b 1, bit b 0] @ ip_bits a"
  by (simp add: ip_bits_def upt8)

lemma ip_bits_inject: "length a = length c \<Longrightarrow> ip_bits a = ip_bits c \<longleftrightarrow> a = c"
  by (induction a c rule: list_induct2) (auto simp: ip_bits_Cons byte_eq_iff)

lemma length_ip_bits: "length (ip_bits a) = 8 * length a"
  by (induction a) (auto simp: ip_bits_Cons ip_bits_def)

lemma in_network_whole: "length a = length c \<Longrightarrow> in_network (c, 8 * length c) a \<longleftrightarrow> a = c"
  by (simp add: in_network_def length_ip_bits ip_bits_inject flip: length_ip_bits) (metis ip_bits_inject length_ip_bits take_all order_refl)

lemma disallowed_v4:
  assumes "length v = 4"
  shows "list_ex (\<lambda>n. in_network n v) disallowed4 \<longleftrightarrow>
    v ! 0 = 127 \<or> (v ! 0 = 10 \<or> (v ! 0 = 172 \<and> v ! 1 AND 240 = 16) \<or> (v ! 0 = 192 \<and> v ! 1 = 168)) \<or>
    (v ! 0 = 169 \<and> v ! 1 = 254) \<or> v ! 0 AND 240 = 224 \<or> v = [0, 0, 0, 0]"
proof -
  obtain a b c d where v: "v = [a, b, c, d]" using assms by (auto simp: length_Suc_conv numeral_eq_Suc)
  have whole: "in_network ([0, 0, 0, 0], 32) v \<longleftrightarrow> v = [0, 0, 0, 0]" using in_network_whole [of v "[0, 0, 0, 0]"] v by simp
  show ?thesis
    unfolding disallowed4_def list.pred_inject(2) list_ex_iff list.set(2) bex_simps whole
    by (simp add: v in_network_def ip_bits_Cons byte_eq_iff bit_and_iff del: word_eq_numeral_iff_iszero)
qed

lemma disallowed_v6:
  assumes "length a = 16"
  shows "list_ex (\<lambda>n. in_network n a) disallowed6 \<longleftrightarrow>
    a = replicate 15 0 @ [1] \<or> a ! 0 AND 254 = 252 \<or> (a ! 0 = 254 \<and> a ! 1 AND 192 = 128) \<or> a ! 0 = 255 \<or> a = replicate 16 0"
proof -
  obtain b c r where a: "a = b # c # r" using assms by (auto simp: length_Suc_conv numeral_eq_Suc)
  have whole: "in_network (replicate 15 0 @ [1], 128) a \<longleftrightarrow> a = replicate 15 0 @ [1]"
    "in_network (replicate 16 0, 128) a \<longleftrightarrow> a = replicate 16 0"
    using in_network_whole [of a "replicate 15 0 @ [1]"] in_network_whole [of a "replicate 16 0"] assms by simp_all
  have first: "in_network (252 # replicate 15 0, 7) a \<longleftrightarrow> b AND 254 = 252"
    "in_network (255 # replicate 15 0, 8) a \<longleftrightarrow> b = 255"
    "in_network (254 # 128 # replicate 14 0, 10) a \<longleftrightarrow> b = 254 \<and> c AND 192 = 128"
    by (simp_all add: a in_network_def ip_bits_Cons byte_eq_iff bit_and_iff del: word_eq_numeral_iff_iszero)
  have "list_ex (\<lambda>n. in_network n a) disallowed6 \<longleftrightarrow> a = replicate 15 0 @ [1] \<or> b AND 254 = 252 \<or>
      (b = 254 \<and> c AND 192 = 128) \<or> b = 255 \<or> a = replicate 16 0"
    unfolding disallowed6_def list_ex_iff list.set(2) bex_simps first whole by simp
  then show ?thesis by (simp add: a)
qed

lemma To4_length: "To4 a = Some v \<Longrightarrow> length v = 4"
  by (auto simp: To4_def split: if_splits)

lemma multicast_v4: "(v :: ip) ! 0 = 224 \<Longrightarrow> v ! 0 AND 240 = 224"
  by simp

lemma disallowedIP_networks:
  assumes "length a = 4 \<or> length a = 16"
  shows "disallowedIP a \<longleftrightarrow> in_disallowed_network a"
proof (cases "To4 a")
  case (Some v)
  with disallowed_v4 [OF To4_length [OF Some]] multicast_v4 [of v] show ?thesis
    unfolding disallowedIP_def in_disallowed_network_def IsLoopback_def IsPrivate_def IsLinkLocalUnicast_def
      IsLinkLocalMulticast_def IsMulticast_def IsUnspecified_def Some option.case by blast
next
  case None
  then have "length a = 16" using assms by (auto simp: To4_def split: if_splits)
  with disallowed_v6 [OF this] None show ?thesis
    unfolding disallowedIP_def in_disallowed_network_def IsLoopback_def IsPrivate_def IsLinkLocalUnicast_def
      IsLinkLocalMulticast_def IsMulticast_def IsUnspecified_def None option.case by blast
qed

text \<open>
  C29. A resolution is accepted exactly when it is not empty and none of its addresses lies in a
  loopback, private, link-local, multicast or unspecified network, stated as membership in the
  networks' prefixes, an IPv4 address mapped into IPv6 being judged as the IPv4 address. One such
  address among public ones is enough to refuse.
\<close>

theorem resolution_accepted_iff:
  assumes "\<forall>a \<in> set addresses. length a = 4 \<or> length a = 16"
  shows "ValidateResolvedIPs addresses = None \<longleftrightarrow>
    addresses \<noteq> [] \<and> (\<forall>a \<in> set addresses. \<not> in_disallowed_network a)"
  using assms disallowedIP_networks by (auto simp: ValidateResolvedIPs_def list_ex_iff)

lemma resolution_accepted_iff_witness:
  "ValidateResolvedIPs [[198, 51, 100, 10], replicate 10 0 @ [255, 255, 169, 254, 169, 254]] \<noteq> None \<and>
   ValidateResolvedIPs [[198, 51, 100, 10]] = None"
proof -
  have "in_disallowed_network (replicate 10 0 @ [255, 255, 169, 254, 169, 254])"
    by (simp add: in_disallowed_network_def To4_def disallowed4_def in_network_def ip_bits_Cons)
  moreover have "\<not> in_disallowed_network [198, 51, 100, 10]"
    by (simp add: in_disallowed_network_def To4_def disallowed4_def in_network_def ip_bits_Cons)
  ultimately show ?thesis
    using resolution_accepted_iff [of "[[198, 51, 100, 10], replicate 10 0 @ [255, 255, 169, 254, 169, 254]]"]
      resolution_accepted_iff [of "[[198, 51, 100, 10]]"] by simp
qed

end
