(* ===== verification/Roundtrip.thy ===== *)
theory Roundtrip
  imports Refinement Validate
begin

text \<open>
  From acceptance to delivery: the snapshot a worker is given is the one the destination described
  when the request was accepted, through the JSONB columns and through everything the system did
  in between.
\<close>

lemma scan_claim_row_of_task:
  assumes "distinct (map fst (snap_StaticHeaders (task_Snapshot t)))" "distinct (map fst (snap_SecretHeaders (task_Snapshot t)))"
    and "\<forall>d \<in> set (Delays (snap_Retry (task_Snapshot t))). int64 d"
    and same: "same_snapshot (row_of_task body t) r"
    and key: "snap_IdempotencyKey (task_Snapshot t) = task_IdempotencyKey t"
  shows "\<exists>t'. scan_claim lease leaseUntil (claim_row lease leaseUntil dbnow r) = Inr t' \<and>
    task_Snapshot t' = (task_Snapshot t)\<lparr>snap_Body := body\<rparr> \<and> task_CallerID t' = task_CallerID t \<and>
    task_AttemptCount t' = r_attempt_count r + 1 \<and> task_CreatedAt t' = task_CreatedAt t"
proof -
  have "r_static_headers r = marshal_header (snap_StaticHeaders (task_Snapshot t))"
    "r_secret_headers r = marshal_strmap (snap_SecretHeaders (task_Snapshot t))"
    "r_retry_delays_ns r = marshal_delays (Delays (snap_Retry (task_Snapshot t)))"
    using same by (simp_all add: same_snapshot_def row_of_task_def)
  with header_roundtrip [OF assms(1)] strmap_roundtrip [OF assms(2)] delays_roundtrip [OF assms(3)] same key
  show ?thesis
    by (simp add: scan_claim_def claim_row_def same_snapshot_def row_of_task_def)
qed

lemma destination_ok_columns:
  assumes "destination_ok ps lookupEnv target"
  shows "distinct (map fst (dest_StaticHeaders target)) \<and> distinct (map fst (dest_SecretHeaders target)) \<and>
    (\<forall>d \<in> set (Delays (dest_Retry target)). int64 d)"
proof -
  have "int64 d" if "d \<in> set (Delays (dest_Retry target))" for d
  proof -
    have "0 < d" "d \<le> Lifetime (dest_Retry target)" "Lifetime (dest_Retry target) \<le> 7 * 24 * Hour"
      using assms that by (auto simp: destination_ok_def delays_ok_def)
    then show ?thesis by (simp add: int64_def duration_units)
  qed
  with assms show ?thesis by (simp add: destination_ok_def header_safe_def secrets_ok_def)
qed

lemma sample_target_ok: "destination_ok sample_parsers (\<lambda>_. Some ''s3cret'') sample_target"
proof -
  have "\<not> EqualFold (fold_table sample_parsers) ''Content-Type'' ''Authorization''"
    by (simp add: EqualFold_ascii ascii_def fold_rune_def)
  then show ?thesis
    by (simp add: destination_ok_def sample_target_def sample_policy_def sample_parsed delays_ok_def header_safe_def secrets_ok_def
        ContainsAny_def duration_units)
qed

text \<open>
  C13. What is delivered is what was accepted: once a request for a destination that passed validation
  is stored, every claim of its task that any later state of the system grants hands the worker the
  destination's method, URL, headers, secret references, timeout, retry policy and concurrency limit
  as they were at acceptance, the accepted body as the database keeps it, and the caller's key.
\<close>

theorem delivered_as_accepted:
  assumes "reachable s" "sys_step\<^sup>*\<^sup>* s s'" "destination_ok ps lookupEnv target"
    and "request_row body target nid caller key dst payload hash now \<in> set (notification_tasks (s_db s))"
    and "ClaimDelivery ft dbnow nid lease leaseUntil (s_db s') = (Inr (Some t), d')"
  shows "task_Snapshot t =
      \<lparr>snap_DestinationID = dst, snap_Method = dest_Method target,
       snap_URL = (case dest_URL target of None \<Rightarrow> [] | Some u \<Rightarrow> url_String u),
       snap_StaticHeaders = dest_StaticHeaders target, snap_SecretHeaders = dest_SecretHeaders target,
       snap_Body = body, snap_Timeout = dest_Timeout target, snap_Retry = dest_Retry target,
       snap_ConcurrencyLimit = dest_ConcurrencyLimit target, snap_IdempotencyKey = key\<rparr> \<and>
    task_CallerID t = caller \<and> 1 \<le> task_AttemptCount t"
proof -
  let ?t = "new_task target nid caller key dst payload hash now" and ?r0 = "request_row body target nid caller key dst payload hash now"
  have wf: "db_wf (s_db s')"
    using reachable_db_wf assms(1,2) unfolding reachable_def by (meson rtranclp_trans)
  from ClaimDelivery_granted [OF wf assms(5)] obtain r where r: "task_of (s_db s') nid = Some r"
    and scan: "scan_claim lease leaseUntil (claim_row lease leaseUntil dbnow r) = Inr t" by metis
  then have mem: "r \<in> set (notification_tasks (s_db s'))" "r_id r = nid" by (auto dest: lookup_by_SomeD)
  have grows: "same_snapshot ?r0 r \<and> r_generation ?r0 \<le> r_generation r \<and> r_attempt_count ?r0 \<le> r_attempt_count r"
    using sys_steps_row [OF assms(2) reachable_sys_inv [OF assms(1)] assms(4)] mem by simp
  have "r_attempt_count ?r0 = 0" by (simp add: request_row_def row_of_task_def)
  with grows have count: "0 \<le> r_attempt_count r" by simp
  have snap: "task_Snapshot ?t =
      \<lparr>snap_DestinationID = dst, snap_Method = dest_Method target,
       snap_URL = (case dest_URL target of None \<Rightarrow> [] | Some u \<Rightarrow> url_String u),
       snap_StaticHeaders = dest_StaticHeaders target, snap_SecretHeaders = dest_SecretHeaders target,
       snap_Body = payload, snap_Timeout = dest_Timeout target, snap_Retry = dest_Retry target,
       snap_ConcurrencyLimit = dest_ConcurrencyLimit target, snap_IdempotencyKey = key\<rparr>"
    by (simp add: new_task_def)
  from scan_claim_row_of_task [of ?t body r lease leaseUntil dbnow] destination_ok_columns [OF assms(3)] grows scan count
  show ?thesis by (simp add: snap request_row_def)
qed

lemma delivered_as_accepted_witness:
  "\<exists>t d'. ClaimDelivery Completed Second ''n1'' ''lease1'' Minute (s_db published_sys) = (Inr (Some t), d') \<and>
     snap_URL (task_Snapshot t) = ''https://crm.example/hook'' \<and> snap_IdempotencyKey (task_Snapshot t) = ''order-7''"
proof -
  obtain t d' where c: "ClaimDelivery Completed Second ''n1'' ''lease1'' Minute (s_db published_sys) = (Inr (Some t), d')"
    using sample_claimed by blast
  have "request_row ''{}'' sample_target ''n1'' ''billing'' ''order-7'' ''crm'' ''{}'' request_hash 0
      \<in> set (notification_tasks (s_db accepted_sys))"
    by (simp add: run_sys_def row0_def)
  from delivered_as_accepted [OF run_reachable(1) run_publish sample_target_ok this c] c
  show ?thesis by (simp add: sample_target_def)
qed

end
