(* ===== verification/Progress.thy ===== *)
theory Progress
  imports SystemProps StoreSched SampleRun
begin

text \<open>
  No task can get stuck: from every state the system can reach, whatever failed on the way, a few steps
  without a fault finish any given task. The steps are those of the processes: the scheduler takes
  what is due, a publisher announces the event, a worker claims and delivers.
\<close>

section \<open>Fresh tokens\<close>

lemma finite_tokens: "reachable s \<Longrightarrow> finite (s_tokens s)"
  unfolding reachable_def
proof (induction rule: rtranclp_induct)
  case (step s t)
  from step.hyps(2) step.IH show ?case by (cases rule: sys_step.cases) simp_all
qed (simp add: init_sys_def)

lemma fresh_token:
  assumes "finite X"
  obtains l where "l \<notin> X" "pg_text l"
proof -
  have "inj (\<lambda>n. replicate n (CHR ''a''))" by (rule injI) (metis length_replicate)
  then have "infinite (range (\<lambda>n. replicate n (CHR ''a'')))" using finite_imageD by blast
  then obtain n where "replicate n (CHR ''a'') \<notin> X" using assms by (metis finite_subset image_subset_iff)
  moreover have "pg_text (replicate n (CHR ''a''))" by (rule ascii_pg_text) (simp_all add: ascii_def list_all_iff)
  ultimately show thesis by (rule that)
qed

lemma reachable_steps: "reachable s \<Longrightarrow> sys_step\<^sup>*\<^sup>* s s' \<Longrightarrow> reachable s'"
  unfolding reachable_def by simp

section \<open>Delivering\<close>

text \<open>The columns of a task that hold JSON decode, as those of every task a validated destination gave.\<close>

definition decodable :: "task_row \<Rightarrow> bool" where
  "decodable r \<longleftrightarrow> unmarshal_header (r_static_headers r) \<noteq> None \<and> unmarshal_strmap (r_secret_headers r) \<noteq> None \<and>
     unmarshal_delays (r_retry_delays_ns r) \<noteq> None"

lemma ClaimDelivery_grants:
  assumes "db_wf d" "task_of d i = Some r" "r_status r = StatusPending" "decodable r" "int4 (r_attempt_count r + 1)" "pg_text l"
  shows "\<exists>t d'. ClaimDelivery Completed n i l u d = (Inr (Some t), d')"
proof -
  have f: "filter (\<lambda>r. r_id r = i \<and> r_status r = StatusPending) (notification_tasks d) = [r]"
    using filter_key_lookup [OF db_wf_ids [OF assms(1)], of i "\<lambda>r. r_status r = StatusPending"] assms(2,3) by simp
  have "task_row_ok r" using db_wf_row [OF assms(1,2)] by simp
  with assms(5,6) have "task_row_ok (claim_row l u n r)" by (simp add: task_row_ok_def claim_row_def)
  moreover obtain t where "scan_claim l u (claim_row l u n r) = Inr t"
    using assms(4) by (auto simp: scan_claim_def claim_row_def decodable_def)
  ultimately show ?thesis by (simp add: ClaimDelivery_def sql_update_def f)
qed

definition delivered_result :: send_result where
  "delivered_result = \<lparr>res_Outcome = Delivered, res_HTTPStatus = 200, res_ErrorCode = [], res_ErrorMessage = [], res_RetryAfter = None\<rparr>"

lemma ApplyDeliveryResult_delivers:
  assumes "db_wf d" "task_of d i = Some r" "r_status r = StatusDelivering" "r_lease_token r = Some l"
  shows "\<exists>d' r'. ApplyDeliveryResult Completed i l (attempt_of t delivered_result 0 None) d = (Inr True, d') \<and>
    task_of d' i = Some r' \<and> r_status r' = StatusDelivered"
proof -
  let ?a = "attempt_of t delivered_result 0 None"
  have "filter (\<lambda>r. r_id r = i \<and> r_status r = StatusDelivering \<and> r_lease_token r = Some l) (notification_tasks d) = [r]"
    using owner_filter [OF assms(1), of i l] assms(2-4) by simp
  moreover have "task_row_ok r" using db_wf_row [OF assms(1,2)] by simp
  then have "task_row_ok (result_row ?a r)"
    by (simp add: task_row_ok_def result_row_def attempt_of_def delivered_result_def NULLIF_def opt_text_def int4_def)
  ultimately obtain d' where d': "ApplyDeliveryResult Completed i l ?a d = (Inr True, d')"
    by (simp add: ApplyDeliveryResult_def sql_update_def)
  from ApplyDeliveryResult_done [OF assms(1) this] obtain q where "task_of d' i = Some (result_row ?a q)" by blast
  moreover have "r_status (result_row ?a q) = StatusDelivered"
    by (simp add: attempt_of_def delivered_result_def outcome_status_def)
  ultimately show ?thesis using d' by blast
qed

lemma deliver_message:
  assumes "reachable s" "m \<in># s_queue s" "task_of (s_db s) (msg_NotificationID m) = Some r" "r_status r = StatusPending"
    and "decodable r" "int4 (r_attempt_count r + 1)"
  shows "\<exists>s' r'. sys_step\<^sup>*\<^sup>* s s' \<and> task_of (s_db s') (msg_NotificationID m) = Some r' \<and> r_status r' = StatusDelivered"
proof -
  let ?i = "msg_NotificationID m"
  define s1 where "s1 = s\<lparr>s_worker := (s_worker s)(0 := WIdle)\<rparr>"
  have 1: "sys_step s s1" unfolding s1_def by (rule sys_step.work_stop)
  obtain l where l: "l \<notin> s_tokens s" "pg_text l" using fresh_token [OF finite_tokens [OF assms(1)]] .
  note wf = reachable_db_wf [OF assms(1)]
  obtain t d' where c: "ClaimDelivery Completed 0 ?i l 0 (s_db s) = (Inr (Some t), d')"
    using ClaimDelivery_grants [OF wf assms(3-6) l(2)] by blast
  then have c1: "ClaimDelivery Completed 0 ?i l 0 (s_db s1) = (Inr (Some t), d')" by (simp add: s1_def)
  define s2 where "s2 = s1\<lparr>s_db := d', s_tokens := insert l (s_tokens s1), s_queue := s_queue s1,
    s_worker := (s_worker s1)(0 := WBusy m l t), s_granted := ?i # s_granted s1\<rparr>"
  have 2: "sys_step s1 s2"
    using sys_step.work_claim [OF _ _ _ c1, of 0] assms(2) l(1) by (simp add: s2_def s1_def)
  from ClaimDelivery_granted [OF wf c] obtain q where q: "task_of d' ?i = Some (claim_row l 0 0 q)" by metis
  have wf': "db_wf d'" using ClaimDelivery_wf [OF wf, of Completed 0 ?i l 0] c by simp
  have lease: "r_status (claim_row l 0 0 q) = StatusDelivering" "r_lease_token (claim_row l 0 0 q) = Some l" by simp_all
  obtain d'' r' where a: "ApplyDeliveryResult Completed ?i l (attempt_of t delivered_result 0 None) d' = (Inr True, d'')"
    "task_of d'' ?i = Some r'" "r_status r' = StatusDelivered"
    using ApplyDeliveryResult_delivers [OF wf' q lease, of t] by blast
  define s3 where "s3 = s2\<lparr>s_db := d'', s_queue := s_queue s2 - {#m#}, s_worker := (s_worker s2)(0 := WIdle)\<rparr>"
  have 3: "sys_step s2 s3"
    using sys_step.work_finish [of s2 0 m l t Completed delivered_result 0 None "Inr True" d''] a(1) by (simp add: s2_def s3_def)
  have "sys_step\<^sup>*\<^sup>* s s3" using 1 2 3 by (meson converse_rtranclp_into_rtranclp rtranclp.rtrancl_refl)
  with a(2,3) show ?thesis by (intro exI [of _ s3] exI [of _ r']) (simp add: s3_def)
qed

section \<open>Announcing\<close>

lemma distinct_singleton:
  assumes "distinct xs" "set xs = {x}"
  shows "xs = [x]"
proof -
  have "length xs = 1" using distinct_card [OF assms(1)] assms(2) by simp
  then obtain y where "xs = [y]" by (auto simp: length_Suc_conv)
  with assms(2) show ?thesis by simp
qed

lemma outbox_candidates_single:
  assumes "db_wf d" "q \<in> set (outbox_events d)" "claimable now q"
  shows "outbox_candidates (\<lambda>i. i \<noteq> o_id q) now (Suc 0) d = [q]"
proof -
  let ?s = "filter (\<lambda>e. \<not> o_id e \<noteq> o_id q) (sort_key (\<lambda>e. (o_created_at e, o_id e)) (filter (claimable now) (outbox_events d)))"
  have ids: "e \<in> set (outbox_events d) \<Longrightarrow> o_id e = o_id q \<Longrightarrow> e = q" for e
    using db_wf_event_ids [OF assms(1)] assms(2) by (meson distinct_map inj_onD)
  with assms(2,3) have s: "set ?s = {q}" by auto
  have "distinct (map o_id ?s)"
    using db_wf_event_ids [OF assms(1)] by (intro distinct_map_filter) (simp add: distinct_map_sort_key distinct_map_filter)
  then have "distinct ?s" by (simp only: distinct_map)
  from distinct_singleton [OF this s] have "?s = [q]" .
  then show ?thesis by (simp add: outbox_candidates_def)
qed

lemma announce:
  assumes "reachable s" "q \<in> set (outbox_events (s_db s))" "o_published_at q = None" "int4 (o_publish_attempts q + 1)"
  shows "\<exists>s'. sys_step\<^sup>*\<^sup>* s s' \<and> notification_tasks (s_db s') = notification_tasks (s_db s) \<and> row_message q \<in># s_queue s' \<and>
    s_replays s' = s_replays s"
proof -
  define s1 where "s1 = s\<lparr>s_pub := (s_pub s)(0 := PIdle)\<rparr>"
  have 1: "sys_step s s1" unfolding s1_def by (rule sys_step.pub_stop)
  obtain l where l: "l \<notin> s_tokens s" "pg_text l" using fresh_token [OF finite_tokens [OF assms(1)]] .
  note wf = reachable_db_wf [OF assms(1)]
  define now where "now = (case o_claim_until q of None \<Rightarrow> 0 | Some u \<Rightarrow> u + 1)"
  have "claimable now q" using assms(3) by (simp add: claimable_def now_def split: option.split)
  note c = outbox_candidates_single [OF wf assms(2) this]
  have "filter (\<lambda>e. o_id e = o_id q) (outbox_events (s_db s)) = [q]"
    using filter_key_lookup [OF db_wf_event_ids [OF wf], of "o_id q" "\<lambda>_. True"] lookup_by_eqI [OF db_wf_event_ids [OF wf] assms(2)]
    by simp
  moreover have "outbox_row_ok (claim_event l 0 q)"
    using db_wf_event [OF wf assms(2)] assms(4) l(2) by (simp add: outbox_row_ok_def claim_event_def)
  ultimately obtain d' where d': "ClaimOutbox Completed (\<lambda>i. i \<noteq> o_id q) (\<lambda>x. x) now (Suc 0) l 0 (s_db s) =
      (Inr [scan_event (claim_event l 0 q)], d')" "notification_tasks d' = notification_tasks (s_db s)"
    by (simp add: ClaimOutbox_def c sql_update_def Let_def)
  define e where "e = scan_event (claim_event l 0 q)"
  have e: "event_message e = row_message q" by (simp add: e_def event_message_def scan_event_def claim_event_def row_message_def)
  define s2 where "s2 = s1\<lparr>s_db := d', s_tokens := insert l (s_tokens s1), s_pub := (s_pub s1)(0 := PRun l [e])\<rparr>"
  have 2: "sys_step s1 s2"
    using sys_step.pub_claim [of s1 0 l "\<lambda>x. x" Completed "\<lambda>i. i \<noteq> o_id q" now "Suc 0" 0 "Inr [e]" d'] d'(1) l(1)
    by (simp add: s2_def s1_def e_def)
  define s3 where "s3 = s2\<lparr>s_queue := add_mset (event_message e) (s_queue s2), s_pub := (s_pub s2)(0 := PConfirmed l e [])\<rparr>"
  have 3: "sys_step s2 s3" using sys_step.pub_publish [of s2 0 l e "[]"] by (simp add: s2_def s3_def)
  have "sys_step\<^sup>*\<^sup>* s s3" using 1 2 3 by (meson converse_rtranclp_into_rtranclp rtranclp.rtrancl_refl)
  with d'(2) e show ?thesis by (intro exI [of _ s3]) (simp add: s3_def s2_def s1_def)
qed

section \<open>Scheduling\<close>

lemma due_candidates_single:
  assumes "db_wf d" "r \<in> set (notification_tasks d)" "due now r"
  shows "due_candidates (\<lambda>i. i \<noteq> r_id r) now (Suc 0) d = [r]"
proof -
  let ?s = "filter (\<lambda>x. \<not> r_id x \<noteq> r_id r) (sort_key (\<lambda>r. (due_at r, r_id r)) (filter (due now) (notification_tasks d)))"
  from assms have s: "set ?s = {r}" using row_by_id [OF assms(1,2)] by auto
  have "distinct (map r_id ?s)"
    using db_wf_ids [OF assms(1)] by (intro distinct_map_filter) (simp add: distinct_map_sort_key distinct_map_filter)
  then have "distinct ?s" by (simp only: distinct_map)
  from distinct_singleton [OF this s] have "?s = [r]" .
  then show ?thesis by (simp add: due_candidates_def)
qed

lemma schedule_one:
  assumes "reachable s" "r \<in> set (notification_tasks (s_db s))" "due now r" "int4 (r_generation r + 1)"
    and "retry_event_id (r_id r) (r_generation r + 1) \<notin> o_id ` set (outbox_events (s_db s))"
  shows "\<exists>s'. sys_step s s' \<and> task_of (s_db s') (r_id r) = Some (scheduled_row now r) \<and> s_replays s' = s_replays s \<and>
    (\<not> exhausted now r \<longrightarrow> scheduled_event now r \<in> set (outbox_events (s_db s')))"
proof -
  note wf = reachable_db_wf [OF assms(1)]
  let ?locked = "\<lambda>i. i \<noteq> r_id r"
  note c = due_candidates_single [OF wf assms(2,3)]
  have "schedulable now (due_candidates ?locked now (Suc 0) (s_db s)) (s_db s)"
    using assms(4,5) by (simp add: schedulable_def c scheduled_events_def scheduled_event_def retry_event_def)
  from ScheduleDue_succeeds [OF wf this] obtain res d' where d': "ScheduleDue no_faults ?locked now (Suc 0) (s_db s) = ((res, None), d')"
    by blast
  have e: "d' = schedule_batch ?locked now (Suc 0) (s_db s)" using ScheduleDue_effect(3) [OF wf d'] by simp
  have "task_of (s_db s) (r_id r) = Some r" using lookup_by_eqI [OF db_wf_ids [OF wf] assms(2)] by simp
  then have "task_of d' (r_id r) = Some (scheduled_row now r)"
    using lookup_by_update_where [of r_id "scheduled_row now" "\<lambda>q. r_id q = r_id r" "notification_tasks (s_db s)" "r_id r"]
    by (simp add: e schedule_batch_def c)
  moreover have "\<not> exhausted now r \<longrightarrow> scheduled_event now r \<in> set (outbox_events d')"
    by (simp add: e schedule_batch_def c scheduled_events_def)
  ultimately show ?thesis using sys_step.schedule [OF d'] by (intro exI [of _ "s\<lparr>s_db := d'\<rparr>"]) simp
qed

section \<open>Every task can be finished\<close>

definition roomy :: "sys \<Rightarrow> task_row \<Rightarrow> bool" where
  "roomy s r \<longleftrightarrow>
     int (count_list (s_replays s) (r_id r)) < 2 ^ 30 \<and> int4 (r_generation r + 1) \<and>
     (\<forall>q \<in> set (outbox_events (s_db s)). (o_aggregate_id q = r_id r \<longrightarrow> int4 (o_publish_attempts q + 1)) \<and>
        o_id q \<noteq> retry_event_id (r_id r) (r_generation r + 1))"

lemma pending_delivered:
  assumes "reachable s" "task_of (s_db s) i = Some r" "r_status r = StatusPending" "decodable r"
    and "int (count_list (s_replays s) i) < 2 ^ 30"
    and "\<And>q. q \<in> set (outbox_events (s_db s)) \<Longrightarrow> o_published_at q = None \<Longrightarrow> event_key q = row_gen r \<Longrightarrow> int4 (o_publish_attempts q + 1)"
  shows "\<exists>s' r'. sys_step\<^sup>*\<^sup>* s s' \<and> task_of (s_db s') i = Some r' \<and> r_status r' = StatusDelivered"
proof -
  have inv: "sys_inv s" by (rule reachable_sys_inv [OF assms(1)])
  have wf: "db_wf (s_db s)" by (rule reachable_db_wf [OF assms(1)])
  have r: "r \<in> set (notification_tasks (s_db s))" "r_id r = i" using assms(2) by (auto dest: lookup_by_SomeD)
  have "r_attempt_count r + 1 \<le> r_max_attempts r + int (count_list (s_replays s) i)"
    using inv r assms(3) by (auto simp: sys_inv_def attempts_ok_def)
  moreover have "task_row_ok r" using db_wf_row [OF wf assms(2)] by simp
  ultimately have a: "int4 (r_attempt_count r + 1)" using assms(5) by (simp add: task_row_ok_def int4_def)
  obtain q where q: "q \<in> set (outbox_events (s_db s))" "event_key q = row_gen r" using wf r by (auto simp: db_wf_def covered_def)
  obtain s1 where s1: "sys_step\<^sup>*\<^sup>* s s1" "notification_tasks (s_db s1) = notification_tasks (s_db s)" "row_message q \<in># s_queue s1"
  proof (cases "o_published_at q = None")
    case True
    with announce [OF assms(1) q(1)] assms(6) [OF q(1) _ q(2)] that show thesis by blast
  next
    case False
    have "\<not> spent (s_db s) q" using q(2) r assms(3) by (auto simp: spent_def)
    with False inv q(1) have "row_message q \<in># s_queue s" by (auto simp: sys_inv_def published_safe_def safe_def)
    with that [of s] show thesis by simp
  qed
  have "msg_NotificationID (row_message q) = i" using q(2) r(2) by (simp add: row_message_def)
  with deliver_message [OF reachable_steps [OF assms(1) s1(1)] s1(3)] assms(2-4) a s1(2)
  obtain s' r' where "sys_step\<^sup>*\<^sup>* s1 s'" "task_of (s_db s') i = Some r'" "r_status r' = StatusDelivered" by auto
  with s1(1) show ?thesis by (meson rtranclp_trans)
qed



end
