(* ===== verification/JsonStruct.thy ===== *)
theory JsonStruct
  imports JsonRoundtrip
begin

text \<open>
  Decoding JSON objects into structs: the matching of member names with fields, exact or folded, the
  errors that are saved while decoding goes on, and the text of a member as \<open>json.RawMessage\<close>
  keeps it. The parser is local: what it reads from a text does not depend on what follows, so
  the text of a member is read alone as it was inside its object.
\<close>

section \<open>Fields\<close>

text \<open>
  \<open>foldName\<close> where it can meet the ASCII name of a field: two runes beyond ASCII fold to an ASCII
  letter, the long s and the Kelvin sign.
\<close>

definition fold_name_rune :: "nat \<Rightarrow> nat" where
  "fold_name_rune r = (if 97 \<le> r \<and> r \<le> 122 then r - 32 else if r = 383 then 83 else if r = 8490 then 75 else r)"

definition foldName :: "string \<Rightarrow> nat list" where
  "foldName name = map fold_name_rune (runes (map byte name))"

definition field_of :: "string list \<Rightarrow> string \<Rightarrow> string option" where
  "field_of names key = (if key \<in> set names then Some key else find (\<lambda>name. foldName name = foldName key) names)"

text \<open>The first error is kept; a string field takes a string, and \<open>null\<close> leaves it as it is.\<close>

definition saveError :: "error option \<Rightarrow> error \<Rightarrow> error option" where
  "saveError saved err = (case saved of None \<Rightarrow> Some err | Some e \<Rightarrow> Some e)"

abbreviation UnmarshalTypeError :: error where
  "UnmarshalTypeError \<equiv> New ''json: cannot unmarshal''"

fun string_field :: "json \<Rightarrow> string \<Rightarrow> error + string" where
  "string_field (JStr s) old = Inr s"
| "string_field JNull old = Inr old"
| "string_field _ old = Inl UnmarshalTypeError"

section \<open>The text of members\<close>

text \<open>The members of an object with the texts of their values, from the byte after the brace.\<close>

fun member_texts :: "nat \<Rightarrow> nat \<Rightarrow> string \<Rightarrow> (string \<times> json \<times> string) list \<Rightarrow> (string \<times> json \<times> string) list parsed" where
  "member_texts 0 depth s acc = Stuck"
| "member_texts (Suc n) depth s acc =
     next_byte s (\<lambda>q r. if q \<noteq> CHR 0x22 then Bad
       else and_then (scan_string InString r) (\<lambda>raw r1. next_byte r1 (\<lambda>c r2. if c \<noteq> CHR '':'' then Bad
         else and_then (parse_value n depth r2) (\<lambda>v r3. next_byte r3 (\<lambda>c' r4.
           (let start = dropWhile is_space r2;
                acc' = acc @ [(unquote raw, v, take (length start - length r3) start)]
            in if c' = CHR '','' then member_texts n depth r4 acc'
               else if c' = CHR ''}'' then Done acc' r4 else Bad))))))"

definition object_members :: "string \<Rightarrow> (string \<times> json \<times> string) list parsed" where
  "object_members s =
     next_byte s (\<lambda>c r. if c \<noteq> CHR ''{'' then Bad
       else next_byte r (\<lambda>c' r'. if c' = CHR ''}'' then Done [] r' else member_texts (2 * length s) 1 (c' # r') []))"

section \<open>The parser is local\<close>

definition spaces :: "string \<Rightarrow> bool" where
  "spaces s = list_all is_space s"

lemma next_byte_Done:
  assumes "next_byte s f = Done x r"
  obtains sp c t where "s = sp @ c # t" "spaces sp" "\<not> is_space c" "f c t = Done x r"
proof -
  have "\<exists>sp c t. s = sp @ c # t \<and> spaces sp \<and> \<not> is_space c \<and> f c t = Done x r"
    using assms
  proof (induction s)
    case (Cons c s)
    show ?case
    proof (cases "is_space c")
      case True
      with Cons obtain sp c' t where "s = sp @ c' # t" "spaces sp" "\<not> is_space c'" "f c' t = Done x r" by auto
      with True show ?thesis by (intro exI [of _ "c # sp"] exI) (auto simp: spaces_def)
    next
      case False
      with Cons.prems show ?thesis by (intro exI [of _ "[]"] exI) (auto simp: spaces_def)
    qed
  qed simp
  with that show thesis by blast
qed

lemma next_byte_skip: "spaces sp \<Longrightarrow> \<not> is_space c \<Longrightarrow> next_byte (sp @ c # t) f = f c t"
  by (induction sp) (auto simp: spaces_def)

lemma scan_string_local:
  "scan_string st s = Done raw r \<Longrightarrow> \<exists>u. s = u @ r \<and> (\<forall>r'. scan_string st (u @ r') = Done raw r')"
proof (induction st s arbitrary: raw r rule: scan_string.induct)
  case (2 c s)
  show ?case
  proof (cases "c = CHR 0x22")
    case True
    with 2 show ?thesis by (intro exI [of _ "[c]"]) auto
  next
    case False
    then obtain raw' where "scan_string (if c = CHR 0x5C then InEsc else InString) s = Done raw' r" "raw = c # raw'" "c = CHR 0x5C \<or> \<not> byte c < 32"
      using 2 (3) by (auto simp: and_then_eq_Done split: if_splits)
    with 2 (1,2) False obtain u where "s = u @ r" "\<forall>r'. scan_string (if c = CHR 0x5C then InEsc else InString) (u @ r') = Done raw' r'"
      by (cases "c = CHR 0x5C") auto
    with False \<open>raw = c # raw'\<close> \<open>c = CHR 0x5C \<or> \<not> byte c < 32\<close> show ?thesis
      by (intro exI [of _ "c # u"]) (auto split: if_splits)
  qed
next
  case (3 c s)
  then show ?case
    by (auto simp: and_then_eq_Done split: if_splits)
next
  case (4 k c s)
  then obtain raw' where "is_hex c" "scan_string (case k of 0 \<Rightarrow> InString | Suc j \<Rightarrow> InEscU j) s = Done raw' r" "raw = c # raw'"
    by (auto simp: and_then_eq_Done split: if_splits)
  with 4 (1) show ?case by (metis Cons_eq_appendI and_then.simps(1) scan_string.simps(4))
qed simp

lemma scan_word_local: "scan_word w v s = Done x r \<Longrightarrow> s = w @ r \<and> x = v"
  by (induction w v s rule: scan_word.induct) (auto split: if_splits)

lemma scan_word_word: "scan_word w v (w @ r) = Done v r"
  by (induction w) auto

lemma scan_digits_prefix: "scan_digits s = Done ds r \<Longrightarrow> s = ds @ r"
  by (auto simp: scan_digits_def split: list.splits if_splits)

lemma scan_integer_prefix: "scan_integer s = Done i r \<Longrightarrow> s = i @ r"
  by (auto simp: scan_integer_def dest: scan_digits_prefix split: list.splits if_splits)

lemma scan_fraction_prefix: "scan_fraction s = Done f r \<Longrightarrow> s = f @ r"
  by (auto simp: scan_fraction_def and_then_eq_Done dest: scan_digits_prefix split: list.splits if_splits)

lemma scan_exponent_prefix: "scan_exponent s = Done e r \<Longrightarrow> s = e @ r"
  by (auto simp: scan_exponent_def and_then_eq_Done dest!: scan_digits_prefix split: list.splits if_splits)

lemma scan_number_prefix: "scan_number s = Done lit r \<Longrightarrow> s = lit @ r"
  by (auto simp: scan_number_def and_then_eq_Done dest!: scan_integer_prefix scan_fraction_prefix scan_exponent_prefix
      split: list.splits if_splits)

text \<open>
  \<open>alone k depth P s v r\<close>: the parser \<open>P\<close>, done with \<open>v\<close> on \<open>s\<close> before \<open>r\<close>, has read a text that it
  reads alike in front of anything that does not continue a number, with fuel for that text only
  and at any smaller depth.
\<close>

definition alone :: "nat \<Rightarrow> nat \<Rightarrow> (nat \<Rightarrow> nat \<Rightarrow> string \<Rightarrow> 'a parsed) \<Rightarrow> string \<Rightarrow> 'a \<Rightarrow> string \<Rightarrow> bool" where
  "alone k depth P s v r \<longleftrightarrow> (\<exists>u. s = u @ r \<and> u \<noteq> [] \<and>
     (\<forall>m d r'. 2 * length u + k < m \<longrightarrow> d \<le> depth \<longrightarrow> number_end r' \<longrightarrow> P m d (u @ r') = Done v r'))"

lemma aloneI:
  "s = u @ r \<Longrightarrow> u \<noteq> [] \<Longrightarrow>
   (\<And>m d r'. 2 * length u + k < Suc m \<Longrightarrow> d \<le> depth \<Longrightarrow> number_end r' \<Longrightarrow> P (Suc m) d (u @ r') = Done v r') \<Longrightarrow>
   alone k depth P s v r"
  unfolding alone_def by (metis less_is_Suc)

lemma number_end_after: "spaces sp \<Longrightarrow> c \<in> set '',]}'' \<Longrightarrow> number_end (sp @ c # t)"
  by (cases sp) (auto simp: number_end_def no_digit_def is_digit_def spaces_def is_space_def)

lemma spaces_append: "spaces (a @ b) \<longleftrightarrow> spaces a \<and> spaces b"
  by (simp add: spaces_def)

lemma parse_word:
  assumes "spaces sp"
    and "(c, w, x) \<in> {(CHR ''t'', ''rue'', JBool True), (CHR ''f'', ''alse'', JBool False), (CHR ''n'', ''ull'', JNull)}"
  shows "parse_value (Suc m) d (sp @ c # y) = scan_word w x y"
proof -
  from assms(2) have "(c = CHR ''t'' \<and> w = ''rue'' \<and> x = JBool True) \<or> (c = CHR ''f'' \<and> w = ''alse'' \<and> x = JBool False) \<or>
      (c = CHR ''n'' \<and> w = ''ull'' \<and> x = JNull)" by simp
  then show ?thesis unfolding parse_value.simps
    by (elim disjE conjE; hypsubst; subst next_byte_skip [OF assms(1)]; simp only: is_space_def; simp)
qed

lemma value_alone:
  assumes "parse_value (Suc n) depth s = Done v r"
    and elements: "\<And>s v r. parse_elements n (depth + 1) s [] = Done v r \<Longrightarrow> alone 1 (depth + 1) (\<lambda>m d s. parse_elements m d s []) s v r"
    and members: "\<And>s v r. parse_members n (depth + 1) s [] = Done v r \<Longrightarrow> alone 1 (depth + 1) (\<lambda>m d s. parse_members m d s []) s v r"
  shows "alone 0 depth parse_value s v r"
proof -
  from assms(1) obtain sp c t where s: "s = sp @ c # t" "spaces sp" "\<not> is_space c"
    and body: "(if c = CHR ''{'' then
         (if maxNestingDepth \<le> depth then Bad
          else next_byte t (\<lambda>c' r'. if c' = CHR ''}'' then Done (JObj []) r' else parse_members n (depth + 1) (c' # r') []))
       else if c = CHR ''['' then
         (if maxNestingDepth \<le> depth then Bad
          else next_byte t (\<lambda>c' r'. if c' = CHR '']'' then Done (JArr []) r' else parse_elements n (depth + 1) (c' # r') []))
       else if c = CHR 0x22 then and_then (scan_string InString t) (\<lambda>raw. Done (JStr (unquote raw)))
       else if c = CHR ''t'' then scan_word ''rue'' (JBool True) t
       else if c = CHR ''f'' then scan_word ''alse'' (JBool False) t
       else if c = CHR ''n'' then scan_word ''ull'' JNull t
       else if c = CHR ''-'' \<or> is_digit c then and_then (scan_number (c # t)) (\<lambda>lit. Done (JNum lit))
       else Bad) = Done v r"
    unfolding parse_value.simps by (rule next_byte_Done)
  consider (object) "c = CHR ''{''" | (array) "c = CHR ''[''" | (literal) "c = CHR 0x22"
    | (word) w x where "(c, w, x) \<in> {(CHR ''t'', ''rue'', JBool True), (CHR ''f'', ''alse'', JBool False), (CHR ''n'', ''ull'', JNull)}"
    | (number) "c = CHR ''-'' \<or> is_digit c" using body by (auto split: if_splits)
  then show ?thesis
  proof cases
    case object
    with body have d: "\<not> maxNestingDepth \<le> depth" and b: "next_byte t (\<lambda>c' r'. if c' = CHR ''}'' then Done (JObj []) r'
        else parse_members n (depth + 1) (c' # r') []) = Done v r" by (auto split: if_splits)
    from b obtain sp' c' t' where t: "t = sp' @ c' # t'" "spaces sp'" "\<not> is_space c'"
      and b': "(if c' = CHR ''}'' then Done (JObj []) t' else parse_members n (depth + 1) (c' # t') []) = Done v r"
      by (rule next_byte_Done)
    show ?thesis
    proof (cases "c' = CHR ''}''")
      case True
      with b' s t object d show ?thesis
        by (intro aloneI [of _ "sp @ c # sp' @ [c']"]) (auto simp: next_byte_skip)
    next
      case False
      with b' members [of "c' # t'" v r] obtain u where u: "c' # t' = u @ r" "u \<noteq> []"
        and again: "\<And>m d r'. 2 * length u + 1 < m \<Longrightarrow> d \<le> depth + 1 \<Longrightarrow> number_end r' \<Longrightarrow> parse_members m d (u @ r') [] = Done v r'"
        by (auto simp: alone_def)
      from u obtain u' where "u = c' # u'" by (cases u) auto
      with u s t object d False again show ?thesis
        by (intro aloneI [of _ "sp @ c # sp' @ u"]) (auto simp: next_byte_skip)
    qed
  next
    case array
    with body have d: "\<not> maxNestingDepth \<le> depth" and b: "next_byte t (\<lambda>c' r'. if c' = CHR '']'' then Done (JArr []) r'
        else parse_elements n (depth + 1) (c' # r') []) = Done v r" by (auto split: if_splits)
    from b obtain sp' c' t' where t: "t = sp' @ c' # t'" "spaces sp'" "\<not> is_space c'"
      and b': "(if c' = CHR '']'' then Done (JArr []) t' else parse_elements n (depth + 1) (c' # t') []) = Done v r"
      by (rule next_byte_Done)
    show ?thesis
    proof (cases "c' = CHR '']''")
      case True
      with b' s t array d show ?thesis
        by (intro aloneI [of _ "sp @ c # sp' @ [c']"]) (auto simp: next_byte_skip)
    next
      case False
      with b' elements [of "c' # t'" v r] obtain u where u: "c' # t' = u @ r" "u \<noteq> []"
        and again: "\<And>m d r'. 2 * length u + 1 < m \<Longrightarrow> d \<le> depth + 1 \<Longrightarrow> number_end r' \<Longrightarrow> parse_elements m d (u @ r') [] = Done v r'"
        by (auto simp: alone_def)
      from u obtain u' where "u = c' # u'" by (cases u) auto
      with u s t array d False again show ?thesis
        by (intro aloneI [of _ "sp @ c # sp' @ u"]) (auto simp: next_byte_skip)
    qed
  next
    case literal
    with body obtain raw where "scan_string InString t = Done raw r" and v: "v = JStr (unquote raw)" by (auto simp: and_then_eq_Done)
    with scan_string_local obtain u where "t = u @ r" "\<forall>r'. scan_string InString (u @ r') = Done raw r'" by blast
    with s literal v show ?thesis by (intro aloneI [of _ "sp @ c # u"]) (auto simp: next_byte_skip)
  next
    case (word w x)
    note p = parse_word [OF s(2) word]
    have "scan_word w x t = Done v r" using assms(1) unfolding s(1) p .
    then have t: "t = w @ r" "v = x" using scan_word_local by metis+
    show ?thesis
    proof (rule aloneI)
      show "s = (sp @ c # w) @ r" by (simp add: s(1) t(1))
      show "parse_value (Suc m) d ((sp @ c # w) @ r') = Done v r'" for m d r'
        unfolding append_assoc append_Cons p t(2) by (rule scan_word_word)
    qed simp
  next
    case number
    then have ne: "c \<noteq> CHR ''{''" "c \<noteq> CHR ''[''" "c \<noteq> CHR 0x22" "c \<noteq> CHR ''t''" "c \<noteq> CHR ''f''" "c \<noteq> CHR ''n''"
      by (auto simp: is_digit_def)
    have "and_then (scan_number (c # t)) (\<lambda>lit. Done (JNum lit)) = Done v r"
      using body number by (simp only: ne if_False if_True)
    then obtain lit where l: "scan_number (c # t) = Done lit r" "v = JNum lit" by (auto simp: and_then_eq_Done)
    have "number_end []" by (simp add: number_end_def no_digit_def)
    from scan_number_again [OF l(1) this] obtain lit' where lit: "lit = c # lit'"
      using scan_number_prefix [OF l(1)] by (cases lit) auto
    have "parse_value (Suc m) d (sp @ lit @ r') = and_then (scan_number (lit @ r')) (\<lambda>lit. Done (JNum lit))" for m d r'
      unfolding parse_value.simps lit append_Cons next_byte_skip [OF s(2,3)] using number by (simp only: ne if_False if_True)
    with scan_number_again [OF l(1)] have "number_end r' \<Longrightarrow> parse_value (Suc m) d (sp @ lit @ r') = Done v r'" for m d r'
      by (simp del: parse_value.simps add: l(2))
    note again = this
    show ?thesis
      by (rule aloneI [of _ "sp @ lit"]) (use s(1) scan_number_prefix [OF l(1)] lit again in \<open>simp_all del: parse_value.simps\<close>)
  qed
qed

lemma aloneD:
  assumes "alone k depth P s v r"
  obtains u where "s = u @ r" "u \<noteq> []"
    "\<And>m d r'. 2 * length u + k < m \<Longrightarrow> d \<le> depth \<Longrightarrow> number_end r' \<Longrightarrow> P m d (u @ r') = Done v r'"
  using assms unfolding alone_def by blast

lemma elements_alone:
  assumes "parse_elements (Suc n) depth s es = Done v r"
    and vals: "\<And>s v r. parse_value n depth s = Done v r \<Longrightarrow> alone 0 depth parse_value s v r"
    and elements: "\<And>s v r es. parse_elements n depth s es = Done v r \<Longrightarrow> alone 1 depth (\<lambda>m d s. parse_elements m d s es) s v r"
  shows "alone 1 depth (\<lambda>m d s. parse_elements m d s es) s v r"
proof -
  from assms(1) obtain x r1 where x: "parse_value n depth s = Done x r1" and b: "next_byte r1 (\<lambda>c r'.
       if c = CHR '','' then parse_elements n depth r' (es @ [x])
       else if c = CHR '']'' then Done (JArr (es @ [x])) r' else Bad) = Done v r"
    unfolding parse_elements.simps and_then_eq_Done by blast
  from vals [OF x] obtain u where u: "s = u @ r1" "u \<noteq> []"
    and again: "\<And>m d r'. 2 * length u + 0 < m \<Longrightarrow> d \<le> depth \<Longrightarrow> number_end r' \<Longrightarrow> parse_value m d (u @ r') = Done x r'"
    by (rule aloneD) blast
  from b obtain sp c t where t: "r1 = sp @ c # t" "spaces sp" "\<not> is_space c"
    and b': "(if c = CHR '','' then parse_elements n depth t (es @ [x]) else if c = CHR '']'' then Done (JArr (es @ [x])) t else Bad) = Done v r"
    by (rule next_byte_Done)
  have step: "parse_elements (Suc m) d (u @ sp @ c # y) es =
      (if c = CHR '','' then parse_elements m d y (es @ [x]) else if c = CHR '']'' then Done (JArr (es @ [x])) y else Bad)"
    if "2 * length u < m" "d \<le> depth" "c \<in> set '',]}''" for m d y
  proof -
    have "parse_value m d (u @ sp @ c # y) = Done x (sp @ c # y)"
      using that by (intro again number_end_after [OF t(2)]) simp_all
    then show ?thesis unfolding parse_elements.simps by (simp only: and_then.simps next_byte_skip [OF t(2,3)])
  qed
  show ?thesis
  proof (cases "c = CHR '',''")
    case True
    with b' elements have "alone 1 depth (\<lambda>m d s. parse_elements m d s (es @ [x])) t v r" by simp
    then obtain u' where u': "t = u' @ r" "u' \<noteq> []"
      and rest: "\<And>m d r'. 2 * length u' + 1 < m \<Longrightarrow> d \<le> depth \<Longrightarrow> number_end r' \<Longrightarrow> parse_elements m d (u' @ r') (es @ [x]) = Done v r'"
      by (rule aloneD) blast
    show ?thesis
    proof (rule aloneI [of _ "u @ sp @ c # u'"])
      show "s = (u @ sp @ c # u') @ r" by (simp add: u(1) t(1) u'(1))
      show "parse_elements (Suc m) d ((u @ sp @ c # u') @ r') es = Done v r'"
        if "2 * length (u @ sp @ c # u') + 1 < Suc m" "d \<le> depth" "number_end r'" for m d r'
        using step [of m d "u' @ r'"] rest [of m d r'] that True by (simp del: parse_elements.simps)
    qed simp
  next
    case False
    with b' have c: "c = CHR '']''" "v = JArr (es @ [x])" "t = r" by (auto split: if_splits)
    show ?thesis
    proof (rule aloneI [of _ "u @ sp @ [c]"])
      show "s = (u @ sp @ [c]) @ r" by (simp add: u(1) t(1) c(3))
      show "parse_elements (Suc m) d ((u @ sp @ [c]) @ r') es = Done v r'"
        if "2 * length (u @ sp @ [c]) + 1 < Suc m" "d \<le> depth" "number_end r'" for m d r'
        using step [of m d r'] that c by (simp del: parse_elements.simps)
    qed simp
  qed
qed

text \<open>One member of an object: what is read before the comma or brace that follows it.\<close>

definition parse_member :: "nat \<Rightarrow> nat \<Rightarrow> string \<Rightarrow> (string \<times> json \<Rightarrow> char \<Rightarrow> string \<Rightarrow> 'a parsed) \<Rightarrow> 'a parsed" where
  "parse_member n depth s f =
     next_byte s (\<lambda>q r. if q \<noteq> CHR 0x22 then Bad
       else and_then (scan_string InString r) (\<lambda>raw r1. next_byte r1 (\<lambda>c r2. if c \<noteq> CHR '':'' then Bad
         else and_then (parse_value n depth r2) (\<lambda>v r3. next_byte r3 (f (unquote raw, v))))))"

lemma parse_members_step:
  "parse_members (Suc n) depth s acc = parse_member n depth s (\<lambda>kv c' r4.
     if c' = CHR '','' then parse_members n depth r4 (acc @ [kv]) else if c' = CHR ''}'' then Done (JObj (acc @ [kv])) r4 else Bad)"
  by (simp add: parse_member_def)

lemma parse_member_Done:
  fixes f :: "string \<times> json \<Rightarrow> char \<Rightarrow> string \<Rightarrow> 'a parsed"
  assumes "parse_member n depth s f = Done v r"
    and vals: "\<And>s v r. parse_value n depth s = Done v r \<Longrightarrow> alone 0 depth parse_value s v r"
  obtains kv u c t where "s = u @ c # t" "\<not> is_space c" "f kv c t = Done v r"
    "\<And>m d y (g :: string \<times> json \<Rightarrow> char \<Rightarrow> string \<Rightarrow> 'a parsed). 2 * length u < m \<Longrightarrow> d \<le> depth \<Longrightarrow> c \<in> set '',]}'' \<Longrightarrow>
       parse_member m d (u @ c # y) g = g kv c y"
proof -
  from assms(1) obtain sp q t where s: "s = sp @ q # t" "spaces sp" "\<not> is_space q" and b: "(if q \<noteq> CHR 0x22 then Bad
       else and_then (scan_string InString t) (\<lambda>raw r1. next_byte r1 (\<lambda>c r2. if c \<noteq> CHR '':'' then Bad
         else and_then (parse_value n depth r2) (\<lambda>v r3. next_byte r3 (f (unquote raw, v)))))) = Done v r"
    unfolding parse_member_def by (rule next_byte_Done)
  from b have q: "q = CHR 0x22" by (auto split: if_splits)
  from b q obtain raw r1 where raw: "scan_string InString t = Done raw r1" and b1: "next_byte r1 (\<lambda>c r2. if c \<noteq> CHR '':'' then Bad
         else and_then (parse_value n depth r2) (\<lambda>v r3. next_byte r3 (f (unquote raw, v)))) = Done v r"
    by (auto simp: and_then_eq_Done)
  from scan_string_local [OF raw] obtain w where w: "t = w @ r1" "\<And>r'. scan_string InString (w @ r') = Done raw r'" by blast
  from b1 obtain sp1 c1 t1 where r1: "r1 = sp1 @ c1 # t1" "spaces sp1" "\<not> is_space c1" and b2: "(if c1 \<noteq> CHR '':'' then Bad
         else and_then (parse_value n depth t1) (\<lambda>v r3. next_byte r3 (f (unquote raw, v)))) = Done v r"
    by (rule next_byte_Done)
  from b2 have c1: "c1 = CHR '':''" by (auto split: if_splits)
  from b2 c1 obtain x r3 where x: "parse_value n depth t1 = Done x r3" and b3: "next_byte r3 (f (unquote raw, x)) = Done v r"
    by (auto simp: and_then_eq_Done)
  from vals [OF x] obtain u where u: "t1 = u @ r3" "u \<noteq> []"
    and again: "\<And>m d r'. 2 * length u + 0 < m \<Longrightarrow> d \<le> depth \<Longrightarrow> number_end r' \<Longrightarrow> parse_value m d (u @ r') = Done x r'"
    by (rule aloneD) blast
  from b3 obtain sp2 c t2 where r3: "r3 = sp2 @ c # t2" "spaces sp2" "\<not> is_space c" and fin: "f (unquote raw, x) c t2 = Done v r"
    by (rule next_byte_Done)
  let ?u = "sp @ q # w @ sp1 @ c1 # u @ sp2"
  show thesis
  proof (rule that [of ?u c t2 "(unquote raw, x)"])
    show "s = ?u @ c # t2" by (simp add: s(1) w(1) r1(1) u(1) r3(1))
    show "parse_member m d (?u @ c # y) g = g (unquote raw, x) c y"
      if "2 * length ?u < m" "d \<le> depth" "c \<in> set '',]}''" for m d y and g :: "string \<times> json \<Rightarrow> char \<Rightarrow> string \<Rightarrow> 'a parsed"
    proof -
      have v: "parse_value m d (u @ sp2 @ c # y) = Done x (sp2 @ c # y)"
        using that by (intro again number_end_after [OF r3(2)]) simp_all
      show ?thesis unfolding parse_member_def append_assoc append_Cons next_byte_skip [OF s(2,3)]
        by (simp only: q c1 w(2) and_then.simps next_byte_skip [OF r1(2,3) [unfolded c1]] v next_byte_skip [OF r3(2,3)] simp_thms if_False if_True)
    qed
  qed (rule r3(3), rule fin)
qed

lemma members_alone:
  assumes "parse_members (Suc n) depth s ms = Done v r"
    and vals: "\<And>s v r. parse_value n depth s = Done v r \<Longrightarrow> alone 0 depth parse_value s v r"
    and members: "\<And>s v r ms. parse_members n depth s ms = Done v r \<Longrightarrow> alone 1 depth (\<lambda>m d s. parse_members m d s ms) s v r"
  shows "alone 1 depth (\<lambda>m d s. parse_members m d s ms) s v r"
proof -
  show ?thesis
  proof (rule parse_member_Done [OF assms(1) [unfolded parse_members_step] vals])
    fix kv u c t
    assume u: "s = u @ c # t"
      and b: "(if c = CHR '','' then parse_members n depth t (ms @ [kv]) else if c = CHR ''}'' then Done (JObj (ms @ [kv])) t else Bad) = Done v r"
      and again: "\<And>m d y (g :: string \<times> json \<Rightarrow> char \<Rightarrow> string \<Rightarrow> json parsed).
        2 * length u < m \<Longrightarrow> d \<le> depth \<Longrightarrow> c \<in> set '',]}'' \<Longrightarrow> parse_member m d (u @ c # y) g = g kv c y"
    show ?thesis
    proof (cases "c = CHR '',''")
      case True
      with b members have "alone 1 depth (\<lambda>m d s. parse_members m d s (ms @ [kv])) t v r" by simp
      then obtain u' where u': "t = u' @ r" "u' \<noteq> []"
        and rest: "\<And>m d r'. 2 * length u' + 1 < m \<Longrightarrow> d \<le> depth \<Longrightarrow> number_end r' \<Longrightarrow> parse_members m d (u' @ r') (ms @ [kv]) = Done v r'"
        by (rule aloneD) blast
      show ?thesis
      proof (rule aloneI [of _ "u @ c # u'"])
        show "s = (u @ c # u') @ r" by (simp add: u u'(1))
        show "parse_members (Suc m) d ((u @ c # u') @ r') ms = Done v r'"
          if "2 * length (u @ c # u') + 1 < Suc m" "d \<le> depth" "number_end r'" for m d r'
          using again [of m d "u' @ r'"] rest [of m d r'] that True
          by (simp add: parse_members_step del: parse_members.simps)
      qed simp
    next
      case False
      with b have c: "c = CHR ''}''" "v = JObj (ms @ [kv])" "t = r" by (auto split: if_splits)
      show ?thesis
      proof (rule aloneI [of _ "u @ [c]"])
        show "s = (u @ [c]) @ r" by (simp add: u c(3))
        show "parse_members (Suc m) d ((u @ [c]) @ r') ms = Done v r'"
          if "2 * length (u @ [c]) + 1 < Suc m" "d \<le> depth" "number_end r'" for m d r'
          using again [of m d r'] that c by (simp add: parse_members_step del: parse_members.simps)
      qed simp
    qed
  qed
qed

lemma parse_alone:
  "(parse_value n depth s = Done v r \<longrightarrow> alone 0 depth parse_value s v r) \<and>
   (parse_elements n depth s es = Done v r \<longrightarrow> alone 1 depth (\<lambda>m d s. parse_elements m d s es) s v r) \<and>
   (parse_members n depth s ms = Done v r \<longrightarrow> alone 1 depth (\<lambda>m d s. parse_members m d s ms) s v r)"
proof (induction n arbitrary: depth s es ms v r)
  case (Suc n)
  note vals = Suc.IH [THEN conjunct1, THEN mp]
    and elements = Suc.IH [THEN conjunct2, THEN conjunct1, THEN mp]
    and members = Suc.IH [THEN conjunct2, THEN conjunct2, THEN mp]
  show ?case
    using value_alone [OF _ elements members] elements_alone [OF _ vals elements] members_alone [OF _ vals members]
    by (intro conjI impI)
qed simp

text \<open>The text of a value, read alone.\<close>

lemma parse_value_text:
  assumes "parse_value n depth s = Done v r"
  shows "\<exists>u. s = u @ r \<and> parse u = Done v []"
proof -
  from parse_alone [THEN conjunct1, THEN mp, OF assms] obtain u where u: "s = u @ r"
    "\<And>m d r'. 2 * length u + 0 < m \<Longrightarrow> d \<le> depth \<Longrightarrow> number_end r' \<Longrightarrow> parse_value m d (u @ r') = Done v r'"
    by (rule aloneD) blast
  from u(2) [of "2 * length u + 1" 0 "[]"] u(1) show ?thesis
    by (simp add: parse_def number_end_def no_digit_def del: parse_value.simps)
qed

lemma next_byte_dropWhile: "next_byte s f = next_byte (dropWhile is_space s) f"
  by (induction s) auto

text \<open>The texts of the members of an object are texts of their values.\<close>

lemma parse_value_dropWhile: "parse_value (Suc n) depth s = parse_value (Suc n) depth (dropWhile is_space s)"
  unfolding parse_value.simps using next_byte_dropWhile by blast

lemma member_texts_ok:
  assumes "member_texts n depth s acc = Done kvs r" "\<forall>(k, v, t) \<in> set acc. parse t = Done v []"
  shows "\<forall>(k, v, t) \<in> set kvs. parse t = Done v []"
  using assms
proof (induction n arbitrary: s acc)
  case (Suc n)
  from Suc.prems(1) [unfolded member_texts.simps] obtain raw r1 where
    "next_byte r1 (\<lambda>c r2. if c \<noteq> CHR '':'' then Bad
         else and_then (parse_value n depth r2) (\<lambda>v r3. next_byte r3 (\<lambda>c' r4.
           (let start = dropWhile is_space r2; acc' = acc @ [(unquote raw, v, take (length start - length r3) start)]
            in if c' = CHR '','' then member_texts n depth r4 acc' else if c' = CHR ''}'' then Done acc' r4 else Bad)))) = Done kvs r"
    by (rule next_byte_Done) (auto simp: and_then_eq_Done split: if_splits)
  then obtain r2 v r3 where v: "parse_value n depth r2 = Done v r3" and "next_byte r3 (\<lambda>c' r4.
           (let start = dropWhile is_space r2; acc' = acc @ [(unquote raw, v, take (length start - length r3) start)]
            in if c' = CHR '','' then member_texts n depth r4 acc' else if c' = CHR ''}'' then Done acc' r4 else Bad)) = Done kvs r"
    by (rule next_byte_Done) (auto simp: and_then_eq_Done split: if_splits)
  then obtain c' r4 where
    b: "(let start = dropWhile is_space r2; acc' = acc @ [(unquote raw, v, take (length start - length r3) start)]
            in if c' = CHR '','' then member_texts n depth r4 acc' else if c' = CHR ''}'' then Done acc' r4 else Bad) = Done kvs r"
    by (elim next_byte_Done)
  let ?start = "dropWhile is_space r2"
  obtain m where m: "n = Suc m" using v by (cases n) auto
  from parse_value_text [of n depth ?start v r3] v obtain u where u: "?start = u @ r3" "parse u = Done v []"
    unfolding m using parse_value_dropWhile by metis
  then have t: "take (length ?start - length r3) ?start = u" by simp
  have acc: "\<forall>(k, v, t) \<in> set (acc @ [(unquote raw, v, u)]). parse t = Done v []" using Suc.prems(2) u(2) by simp
  show ?case
  proof (cases "c' = CHR '',''")
    case True
    with b have "member_texts n depth r4 (acc @ [(unquote raw, v, u)]) = Done kvs r" by (simp add: Let_def t)
    from Suc.IH [OF this acc] show ?thesis .
  next
    case False
    with b have "kvs = acc @ [(unquote raw, v, u)]" by (simp add: Let_def t split: if_splits)
    with acc show ?thesis by simp
  qed
qed simp

text \<open>The members are those of the parsed object.\<close>

definition untext :: "(string \<times> json \<times> string) list \<Rightarrow> (string \<times> json) list" where
  "untext kvs = map (\<lambda>(k, v, _). (k, v)) kvs"

lemma and_then_next: "and_then (next_byte s f) g = next_byte s (\<lambda>c r. and_then (f c r) g)"
  by (induction s) auto

lemma and_then_if: "and_then (if b then p else q) g = (if b then and_then p g else and_then q g)"
  by simp

lemma member_texts_parse:
  "and_then (member_texts n depth s acc) (\<lambda>kvs. Done (JObj (untext kvs))) = parse_members n depth s (untext acc)"
proof (induction n arbitrary: s acc)
  case (Suc n)
  have "untext (acc @ [(k, v, t)]) = untext acc @ [(k, v)]" for acc k v t by (simp add: untext_def)
  with Suc.IH show ?case
    unfolding member_texts.simps parse_members.simps
    by (simp only: and_then_next and_then_if and_then_assoc Let_def and_then.simps)
qed simp

lemma parse_elements_array: "yields (\<lambda>v. \<exists>js. v = JArr js) (parse_elements n depth s es)"
  by (induction n arbitrary: s es) (auto intro!: yields_any yields_next)

lemma parse_object_head:
  assumes "parse_value (Suc n) depth (sp @ c # t) = Done (JObj kvs) r" "spaces sp" "\<not> is_space c"
  shows "c = CHR ''{''"
proof (rule ccontr)
  assume ne: "c \<noteq> CHR ''{''"
  have "yields (\<lambda>v. \<forall>kvs. v \<noteq> JObj kvs) (parse_value (Suc n) depth (sp @ c # t))"
    unfolding parse_value.simps next_byte_skip [OF assms(2,3)]
    by (insert ne, (intro yields_if yields_next;
        (simp; fail | rule yields_word; simp | rule yields_any; simp | use parse_elements_array in \<open>force simp: yields_def split: parsed.splits\<close>)))
  with assms(1) show False by (simp del: parse_value.simps)
qed

lemma object_members_parse:
  assumes "parse s = Done (JObj kvs) r"
  shows "\<exists>ms. object_members s = Done ms r \<and> untext ms = kvs \<and> (\<forall>(k, v, t) \<in> set ms. parse t = Done v [])"
proof -
  have p: "parse_value (Suc (2 * length s)) 0 s = Done (JObj kvs) r" using assms by (simp add: parse_def del: parse_value.simps)
  from p [unfolded parse_value.simps] obtain sp c t where s: "s = sp @ c # t" "spaces sp" "\<not> is_space c"
    by (rule next_byte_Done)
  have v: "parse_value (Suc (2 * length s)) 0 (sp @ c # t) = Done (JObj kvs) r" using p by (simp only: s(1) [symmetric])
  have c: "c = CHR ''{''" using parse_object_head [OF v s(2,3)] .
  from v have b: "next_byte t (\<lambda>c' r'. if c' = CHR ''}'' then Done (JObj []) r' else parse_members (2 * length s) 1 (c' # r') []) = Done (JObj kvs) r"
    unfolding parse_value.simps next_byte_skip [OF s(2,3)] add_0 by (simp add: c maxNestingDepth_def)
  from b obtain sp' c' t' where t: "t = sp' @ c' # t'" "spaces sp'" "\<not> is_space c'"
    and b': "(if c' = CHR ''}'' then Done (JObj []) t' else parse_members (2 * length s) 1 (c' # t') []) = Done (JObj kvs) r"
    by (rule next_byte_Done)
  have o: "object_members s = (if c' = CHR ''}'' then Done [] t' else member_texts (2 * length s) 1 (c' # t') [])"
    unfolding object_members_def by (subst s(1), subst next_byte_skip [OF s(2,3)]) (simp add: c t next_byte_skip)
  show ?thesis
  proof (cases "c' = CHR ''}''")
    case True
    with b' o show ?thesis by (simp add: untext_def)
  next
    case False
    with b' member_texts_parse [of "2 * length s" 1 "c' # t'" "[]"]
    have "and_then (member_texts (2 * length s) 1 (c' # t') []) (\<lambda>kvs. Done (JObj (untext kvs))) = Done (JObj kvs) r"
      by (simp add: untext_def)
    then obtain ms where "member_texts (2 * length s) 1 (c' # t') [] = Done ms r" "untext ms = kvs"
      by (auto simp: and_then_eq_Done)
    with member_texts_ok [OF this(1)] o False show ?thesis by auto
  qed
qed


end
