(* ===== verification/Limiter.thy ===== *)
theory Limiter
  imports Prelude
begin

text \<open>
  The concurrency limiter of the delivery worker (\<open>internal/delivery/limiter.go\<close>): a capacity per
  destination behind one mutex, and waiters parked on a channel that is closed and replaced whenever
  capacity may have become free. The two critical sections are functions, the goroutines'
  interleaving is a step relation, and the invariant excludes exceeding the limit and lost wake-ups.
\<close>

section \<open>Critical sections\<close>

text \<open>
  A \<open>changed\<close> channel is created by the previous one's closing, so channels are numbered: the
  channel number \<open>g\<close> of a capacity is closed exactly when \<open>g < changed c\<close>.
\<close>

record capacity =
  limit :: int
  active :: int
  changed :: nat

definition notify :: "capacity \<Rightarrow> capacity" where
  "notify c = c\<lparr>changed := changed c + 1\<rparr>"

text \<open>Lines 33 to 54 of \<open>Acquire\<close>: the capacity after the section, and whether a slot was taken.\<close>

definition enter :: "int \<Rightarrow> capacity option \<Rightarrow> bool \<times> capacity" where
  "enter lim existing =
     (let c = (case existing of
                 None \<Rightarrow> \<lparr>limit = lim, active = 0, changed = 0\<rparr>
               | Some c \<Rightarrow> if lim < limit c then notify (c\<lparr>limit := lim\<rparr>) else c)
      in if active c < limit c then (True, c\<lparr>active := active c + 1\<rparr>) else (False, c))"

definition leave :: "capacity \<Rightarrow> capacity" where
  "leave c = notify (c\<lparr>active := active c - 1\<rparr>)"

definition acquire_arguments :: "string \<Rightarrow> int \<Rightarrow> error option" where
  "acquire_arguments destinationID lim =
     (if destinationID = [] \<or> lim < 1
      then Some (New ''destination id and positive concurrency limit are required'') else None)"

section \<open>Goroutines\<close>

text \<open>
  A goroutine is outside \<open>Acquire\<close>, at the top of its loop, parked on a channel, holding a slot,
  or past its first call of the release function (whose \<open>sync.Once\<close> is then done).
\<close>

datatype goroutine =
    Outside
  | Trying string int
  | Waiting string int nat
  | Holding string
  | Released string

record limiter =
  destinations :: "string \<Rightarrow> capacity option"
  goroutines :: "nat \<Rightarrow> goroutine"

definition NewLimiter :: limiter where
  "NewLimiter = \<lparr>destinations = (\<lambda>_. None), goroutines = (\<lambda>_. Outside)\<rparr>"

abbreviation moved :: "nat \<Rightarrow> goroutine \<Rightarrow> limiter \<Rightarrow> limiter" where
  "moved i g s \<equiv> s\<lparr>goroutines := (goroutines s)(i := g)\<rparr>"

text \<open>
  \<open>allowed\<close> are the limits callers ask for. Every step is one atomic action: a critical section, the
  check of the context, the receive from a closed channel.
\<close>

inductive limiter_step :: "(string \<Rightarrow> int \<Rightarrow> bool) \<Rightarrow> limiter \<Rightarrow> limiter \<Rightarrow> bool" for allowed where
  call:
    "goroutines s i = Outside \<Longrightarrow> acquire_arguments d lim = None \<Longrightarrow> allowed d lim \<Longrightarrow>
     limiter_step allowed s (moved i (Trying d lim) s)"
| refused:
    "goroutines s i = Outside \<Longrightarrow> acquire_arguments d lim = Some err \<Longrightarrow> limiter_step allowed s s"
| cancelled:
    "goroutines s i = Trying d lim \<Longrightarrow> limiter_step allowed s (moved i Outside s)"
| section_granted:
    "goroutines s i = Trying d lim \<Longrightarrow> enter lim (destinations s d) = (True, c) \<Longrightarrow>
     limiter_step allowed s (moved i (Holding d) (s\<lparr>destinations := (destinations s)(d := Some c)\<rparr>))"
| section_waits:
    "goroutines s i = Trying d lim \<Longrightarrow> enter lim (destinations s d) = (False, c) \<Longrightarrow>
     limiter_step allowed s (moved i (Waiting d lim (changed c)) (s\<lparr>destinations := (destinations s)(d := Some c)\<rparr>))"
| wake:
    "goroutines s i = Waiting d lim g \<Longrightarrow> destinations s d = Some c \<Longrightarrow> g < changed c \<Longrightarrow>
     limiter_step allowed s (moved i (Trying d lim) s)"
| gave_up:
    "goroutines s i = Waiting d lim g \<Longrightarrow> limiter_step allowed s (moved i Outside s)"
| release:
    "goroutines s i = Holding d \<Longrightarrow> destinations s d = Some c \<Longrightarrow>
     limiter_step allowed s (moved i (Released d) (s\<lparr>destinations := (destinations s)(d := Some (leave c))\<rparr>))"
| release_again:
    "goroutines s i = Released d \<Longrightarrow> limiter_step allowed s s"
| return:
    "goroutines s i = Released d \<Longrightarrow> limiter_step allowed s (moved i Outside s)"

section \<open>The invariant\<close>

definition holders :: "limiter \<Rightarrow> string \<Rightarrow> nat set" where
  "holders s d = {i. goroutines s i = Holding d}"

text \<open>What a goroutine may rely on, given its destination's capacity.\<close>

fun goroutine_ok :: "(string \<Rightarrow> int \<Rightarrow> bool) \<Rightarrow> (string \<Rightarrow> capacity option) \<Rightarrow> goroutine \<Rightarrow> bool" where
  "goroutine_ok allowed ds (Trying d lim) = (allowed d lim \<and> 1 \<le> lim)"
| "goroutine_ok allowed ds (Waiting d lim g) =
     (allowed d lim \<and> 1 \<le> lim \<and> (\<exists>c. ds d = Some c \<and> (g < changed c \<or> g = changed c \<and> limit c \<le> active c)))"
| "goroutine_ok allowed ds (Holding d) = (ds d \<noteq> None)"
| "goroutine_ok allowed ds _ = True"

definition capacity_ok :: "(string \<Rightarrow> int \<Rightarrow> bool) \<Rightarrow> string \<Rightarrow> nat set \<Rightarrow> capacity \<Rightarrow> bool" where
  "capacity_ok allowed d hs c \<longleftrightarrow> finite hs \<and> active c = int (card hs) \<and> 1 \<le> limit c \<and> allowed d (limit c) \<and>
     (\<forall>bound. (\<forall>lim. allowed d lim \<longrightarrow> lim \<le> bound) \<longrightarrow> active c \<le> bound)"

definition limiter_inv :: "(string \<Rightarrow> int \<Rightarrow> bool) \<Rightarrow> limiter \<Rightarrow> bool" where
  "limiter_inv allowed s \<longleftrightarrow>
     (\<forall>d c. destinations s d = Some c \<longrightarrow> capacity_ok allowed d (holders s d) c) \<and>
     (\<forall>i. goroutine_ok allowed (destinations s) (goroutines s i))"

text \<open>A capacity only ever moves on in a way that keeps what the parked goroutines rely on.\<close>

definition progresses :: "capacity option \<Rightarrow> capacity \<Rightarrow> bool" where
  "progresses existing c' \<longleftrightarrow>
     (\<forall>c. existing = Some c \<longrightarrow> changed c < changed c' \<or>
        changed c = changed c' \<and> (limit c \<le> active c \<longrightarrow> limit c' \<le> active c'))"

lemma goroutine_ok_update:
  "goroutine_ok allowed ds g \<Longrightarrow> progresses (ds d) c' \<Longrightarrow> goroutine_ok allowed (ds(d := Some c')) g"
  by (cases g) (fastforce simp: progresses_def)+

lemma enter_progresses: "enter lim existing = (granted, c') \<Longrightarrow> progresses existing c'"
  by (auto simp: enter_def progresses_def notify_def Let_def split: option.splits if_splits)

lemma leave_progresses: "progresses (Some c) (leave c)"
  by (simp add: progresses_def leave_def notify_def)

lemma limiter_inv_init: "limiter_inv allowed NewLimiter"
  by (simp add: limiter_inv_def NewLimiter_def)

lemma moved_goroutine:
  assumes "limiter_inv allowed s" "goroutine_ok allowed (destinations s) g"
    and "\<And>d. goroutines s i \<noteq> Holding d" "\<And>d. g \<noteq> Holding d"
  shows "limiter_inv allowed (moved i g s)"
proof -
  have "holders (moved i g s) d = holders s d" for d using assms(3,4) by (auto simp: holders_def)
  with assms(1,2) show ?thesis by (simp add: limiter_inv_def)
qed

lemma moved_capacity:
  assumes inv: "limiter_inv allowed s" and p: "progresses (destinations s d) c"
    and g: "goroutine_ok allowed ((destinations s)(d := Some c)) g"
    and own: "\<And>x. goroutines s i = Holding x \<or> g = Holding x \<Longrightarrow> x = d"
    and c: "capacity_ok allowed d (holders (moved i g s) d) c"
  shows "limiter_inv allowed (moved i g (s\<lparr>destinations := (destinations s)(d := Some c)\<rparr>))"
  unfolding limiter_inv_def
proof (intro conjI allI impI)
  fix x cx assume x: "destinations (moved i g (s\<lparr>destinations := (destinations s)(d := Some c)\<rparr>)) x = Some cx"
  have h: "holders (moved i g (s\<lparr>destinations := (destinations s)(d := Some c)\<rparr>)) x = holders (moved i g s) x"
    by (simp add: holders_def)
  show "capacity_ok allowed x (holders (moved i g (s\<lparr>destinations := (destinations s)(d := Some c)\<rparr>)) x) cx"
  proof (cases "x = d")
    case True
    with x c show ?thesis unfolding h by simp
  next
    case False
    then have "holders (moved i g s) x = holders s x" using own by (auto simp: holders_def)
    with False x inv show ?thesis unfolding h by (simp add: limiter_inv_def)
  qed
next
  fix j
  show "goroutine_ok allowed (destinations (moved i g (s\<lparr>destinations := (destinations s)(d := Some c)\<rparr>)))
      (goroutines (moved i g (s\<lparr>destinations := (destinations s)(d := Some c)\<rparr>)) j)"
    using inv g goroutine_ok_update [where ds = "destinations s" and d = d and c' = c] p by (simp add: limiter_inv_def)
qed

lemma enter_capacity:
  assumes "enter lim existing = (granted, c)" "1 \<le> lim" "allowed d lim" "i \<notin> hs"
    and "existing = None \<Longrightarrow> hs = {}" "\<And>x. existing = Some x \<Longrightarrow> capacity_ok allowed d hs x"
  shows "capacity_ok allowed d (if granted then insert i hs else hs) c"
    and "\<not> granted \<Longrightarrow> limit c \<le> active c"
proof -
  define c0 where "c0 = (case existing of None \<Rightarrow> \<lparr>limit = lim, active = 0, changed = 0\<rparr>
      | Some c \<Rightarrow> if lim < limit c then notify (c\<lparr>limit := lim\<rparr>) else c)"
  have c0: "capacity_ok allowed d hs c0"
  proof (cases existing)
    case None
    have "0 \<le> bound" if "\<forall>l. allowed d l \<longrightarrow> l \<le> bound" for bound using that assms(2,3) by force
    with None assms(2,3,5) show ?thesis by (simp add: c0_def capacity_ok_def)
  next
    case (Some x)
    with assms(2,3) assms(6) [OF Some] show ?thesis by (simp add: c0_def capacity_ok_def notify_def) metis
  qed
  have e: "(granted, c) = (if active c0 < limit c0 then (True, c0\<lparr>active := active c0 + 1\<rparr>) else (False, c0))"
    using assms(1) unfolding enter_def Let_def c0_def [symmetric] by simp
  then show "\<not> granted \<Longrightarrow> limit c \<le> active c" by (auto split: if_splits)
  show "capacity_ok allowed d (if granted then insert i hs else hs) c"
  proof (cases "active c0 < limit c0")
    case True
    have "active c0 + 1 \<le> bound" if "\<forall>l. allowed d l \<longrightarrow> l \<le> bound" for bound
      using that c0 True unfolding capacity_ok_def by force
    with True c0 e assms(4) show ?thesis by (simp add: capacity_ok_def)
  qed (use c0 e in simp)
qed

lemma leave_capacity:
  assumes "capacity_ok allowed d hs c" "i \<in> hs"
  shows "capacity_ok allowed d (hs - {i}) (leave c)"
proof -
  have "finite hs" using assms(1) by (simp add: capacity_ok_def)
  with assms(2) have "int (card (hs - {i})) = int (card hs) - 1"
    using card_Suc_Diff1 [of hs i] by linarith
  moreover have "active c - 1 \<le> bound" if "active c \<le> bound" for bound using that by simp
  ultimately show ?thesis using assms(1) by (auto simp: capacity_ok_def leave_def notify_def)
qed

lemma limiter_step_inv:
  assumes inv: "limiter_inv allowed s" and "limiter_step allowed s s'"
  shows "limiter_inv allowed s'"
  using assms(2)
proof cases
  case (call i d lim)
  then show ?thesis using inv by (auto simp: acquire_arguments_def split: if_splits intro!: moved_goroutine)
next
  case (section_granted i d lim c)
  have ok: "goroutine_ok allowed (destinations s) (goroutines s i)" using inv by (simp add: limiter_inv_def)
  have i: "i \<notin> holders s d" by (simp add: holders_def section_granted)
  have none: "destinations s d = None \<Longrightarrow> holders s d = {}"
    using inv unfolding limiter_inv_def holders_def by (metis (mono_tags, lifting) Collect_empty_eq goroutine_ok.simps(3))
  have h: "holders (moved i (Holding d) s) d = insert i (holders s d)" by (auto simp: holders_def)
  have "capacity_ok allowed d (insert i (holders s d)) c"
    using enter_capacity(1) [OF section_granted(3), of allowed d i "holders s d"] ok i none inv
    by (simp add: section_granted limiter_inv_def)
  then show ?thesis unfolding section_granted(1)
    by (intro moved_capacity [OF inv enter_progresses [OF section_granted(3)]]) (auto simp: section_granted(2) h)
next
  case (section_waits i d lim c)
  have ok: "goroutine_ok allowed (destinations s) (goroutines s i)" using inv by (simp add: limiter_inv_def)
  have i: "i \<notin> holders s d" by (simp add: holders_def section_waits)
  have none: "destinations s d = None \<Longrightarrow> holders s d = {}"
    using inv unfolding limiter_inv_def holders_def by (metis (mono_tags, lifting) Collect_empty_eq goroutine_ok.simps(3))
  have h: "holders (moved i (Waiting d lim (changed c)) s) d = holders s d"
    using section_waits(2) by (auto simp: holders_def)
  have c: "capacity_ok allowed d (holders s d) c" "limit c \<le> active c"
    using enter_capacity [OF section_waits(3), of allowed d i "holders s d"] ok i none inv
    by (simp_all add: section_waits limiter_inv_def)
  then show ?thesis unfolding section_waits(1) using ok
    by (intro moved_capacity [OF inv enter_progresses [OF section_waits(3)]]) (auto simp: section_waits(2) h)
next
  case (release i d c)
  have h: "holders (moved i (Released d) s) d = holders s d - {i}" by (auto simp: holders_def)
  have "capacity_ok allowed d (holders s d) c" "i \<in> holders s d"
    using inv release by (simp_all add: limiter_inv_def holders_def)
  from leave_capacity [OF this] leave_progresses [of c] show ?thesis unfolding release(1)
    by (intro moved_capacity [OF inv]) (auto simp: release(2,3) h)
next
  case (wake i d lim g c)
  have "goroutine_ok allowed (destinations s) (goroutines s i)" using inv by (simp add: limiter_inv_def)
  with wake show ?thesis using inv by (auto intro!: moved_goroutine)
qed (use inv in \<open>auto intro!: moved_goroutine\<close>)

interpretation limiter: inductive_invariant NewLimiter "limiter_step allowed" "limiter_inv allowed" for allowed
  by unfold_locales (fact limiter_inv_init, fact limiter_step_inv)

section \<open>Properties\<close>

text \<open>
  C38. The limiter never admits more deliveries to a destination than any limit it was asked for
  allows: in every state the goroutines can reach, in any interleaving, the slots held for a
  destination are counted exactly, and they do not exceed the largest limit callers ask for, which
  is the destination's limit when they all ask for the same.
\<close>

theorem limiter_bounds_active:
  assumes "(limiter_step allowed)\<^sup>*\<^sup>* NewLimiter s" "\<forall>lim. allowed d lim \<longrightarrow> lim \<le> bound" "0 \<le> bound"
  shows "finite (holders s d) \<and> int (card (holders s d)) \<le> bound \<and>
    (\<forall>c. destinations s d = Some c \<longrightarrow> active c = int (card (holders s d)) \<and> 1 \<le> limit c)"
proof -
  have inv: "limiter_inv allowed s" by (rule limiter.reachable_inv [OF assms(1)])
  show ?thesis
  proof (cases "destinations s d")
    case None
    then have "holders s d = {}"
      using inv unfolding limiter_inv_def holders_def by (metis (mono_tags, lifting) Collect_empty_eq goroutine_ok.simps(3))
    with None assms(3) show ?thesis by simp
  next
    case (Some c)
    with inv have "capacity_ok allowed d (holders s d) c" by (simp add: limiter_inv_def)
    with assms(2) Some show ?thesis unfolding capacity_ok_def by force
  qed
qed

text \<open>
  C39. No wake-up is lost: a goroutine parked in \<open>Acquire\<close> either waits on a channel that is already
  closed, and so can go on, or every slot of its destination is taken and the next release of any
  of them closes its channel.
\<close>

theorem limiter_no_lost_wakeup:
  assumes "(limiter_step allowed)\<^sup>*\<^sup>* NewLimiter s" "goroutines s i = Waiting d lim g"
  shows "limiter_step allowed s (moved i (Trying d lim) s) \<or>
    (\<exists>c j. destinations s d = Some c \<and> limit c \<le> active c \<and> goroutines s j = Holding d) \<and>
    (\<forall>j s'. goroutines s j = Holding d \<longrightarrow> limiter_step allowed s s' \<longrightarrow> goroutines s' j = Released d \<longrightarrow>
       limiter_step allowed s' (moved i (Trying d lim) s'))"
proof -
  have inv: "limiter_inv allowed s" by (rule limiter.reachable_inv [OF assms(1)])
  then have "goroutine_ok allowed (destinations s) (goroutines s i)" by (simp add: limiter_inv_def)
  with assms(2) obtain c where c: "destinations s d = Some c" "g < changed c \<or> g = changed c \<and> limit c \<le> active c"
    by auto
  show ?thesis
  proof (cases "g < changed c")
    case True
    with assms(2) c(1) show ?thesis by (auto intro: limiter_step.wake)
  next
    case False
    with c inv have full: "g = changed c" "limit c \<le> active c" "capacity_ok allowed d (holders s d) c"
      by (simp_all add: limiter_inv_def)
    then have "holders s d \<noteq> {}" unfolding capacity_ok_def by fastforce
    then obtain j where "goroutines s j = Holding d" by (auto simp: holders_def)
    moreover have "limiter_step allowed s' (moved i (Trying d lim) s')"
      if j: "goroutines s j = Holding d" "limiter_step allowed s s'" "goroutines s' j = Released d" for j s'
    proof -
      from j(2) have "goroutines s' i = Waiting d lim g \<and> destinations s' d = Some (leave c)"
        using j(1,3) assms(2) c(1)
        by (cases rule: limiter_step.cases) (auto split: if_splits)
      with full(1) show ?thesis by (intro limiter_step.wake [where c = "leave c" and g = g]) (simp_all add: leave_def notify_def less_Suc_eq)
    qed
    ultimately show ?thesis using c(1) full(2) by blast
  qed
qed

text \<open>A run in which one goroutine holds the only slot and a second one is parked.\<close>

definition full_limiter :: limiter where
  "full_limiter = \<lparr>destinations = (\<lambda>_. None)(''crm'' := Some \<lparr>limit = 1, active = 1, changed = 0\<rparr>),
     goroutines = (\<lambda>_. Outside)(0 := Holding ''crm'', 1 := Waiting ''crm'' 1 0)\<rparr>"

lemma full_limiter_reachable: "(limiter_step (\<lambda>_ lim. lim = 1))\<^sup>*\<^sup>* NewLimiter full_limiter"
proof -
  let ?step = "limiter_step (\<lambda>_ lim. lim = 1)" and ?c = "\<lparr>limit = 1, active = 1, changed = 0\<rparr>"
  let ?s1 = "moved 0 (Trying ''crm'' 1) NewLimiter"
  let ?s2 = "moved 0 (Holding ''crm'') (?s1\<lparr>destinations := (destinations ?s1)(''crm'' := Some ?c)\<rparr>)"
  let ?s3 = "moved 1 (Trying ''crm'' 1) ?s2"
  have "?step NewLimiter ?s1" by (rule limiter_step.call) (simp_all add: NewLimiter_def acquire_arguments_def)
  moreover have "?step ?s1 ?s2"
    by (rule limiter_step.section_granted [where lim = 1]) (simp_all add: NewLimiter_def enter_def)
  moreover have "?step ?s2 ?s3" by (rule limiter_step.call) (simp_all add: NewLimiter_def acquire_arguments_def)
  moreover have "?step ?s3 full_limiter"
  proof -
    have "?step ?s3 (moved 1 (Waiting ''crm'' 1 (changed ?c)) (?s3\<lparr>destinations := (destinations ?s3)(''crm'' := Some ?c)\<rparr>))"
      by (rule limiter_step.section_waits) (simp_all add: enter_def Let_def)
    then show ?thesis by (simp add: full_limiter_def NewLimiter_def)
  qed
  ultimately show ?thesis by (meson converse_rtranclp_into_rtranclp rtranclp.rtrancl_refl)
qed

lemma limiter_bounds_active_witness: "int (card (holders full_limiter ''crm'')) \<le> 1"
  using limiter_bounds_active [OF full_limiter_reachable, where d = "''crm''" and bound = 1] by simp

lemma limiter_no_lost_wakeup_witness: "\<exists>j. goroutines full_limiter j = Holding ''crm''"
  using limiter_no_lost_wakeup [OF full_limiter_reachable, of 1 "''crm''" 1 0]
  by (auto simp: full_limiter_def intro: exI [of _ 0])

end
