(* ===== verification/Sender.thy ===== *)
theory Sender
  imports Validate Delivery
begin

text \<open>
  The HTTP sender (\<open>internal/delivery/http_sender.go\<close>): the request it builds from a snapshot, the
  address it dials, the redirects it follows, and the result it makes of the answer, with
  \<open>parseRetryAfter\<close> and \<open>sanitize\<close>. The HTTP client itself is the parameter \<open>send_request\<close>.
\<close>

section \<open>Requests and responses\<close>

record request =
  req_Method :: string
  req_URL :: string
  req_Header :: header
  req_Body :: string
  req_Timeout :: duration

record response =
  resp_StatusCode :: int
  resp_Header :: header
  resp_Body :: string

record sender =
  snd_allowDev :: bool
  snd_limit :: int
  snd_lookupEnv :: "string \<Rightarrow> string option"

definition NewHTTPSender :: "bool \<Rightarrow> int \<Rightarrow> (string \<Rightarrow> string option) \<Rightarrow> sender" where
  "NewHTTPSender allowPrivateNetworks maxDiagnosticBytes lookupEnv =
     \<lparr>snd_allowDev = allowPrivateNetworks,
      snd_limit = (if maxDiagnosticBytes \<le> 0 then 1024 else maxDiagnosticBytes), snd_lookupEnv = lookupEnv\<rparr>"

section \<open>Dialling and redirects\<close>

text \<open>
  The transport's \<open>DialContext\<close>: \<open>split\<close> is \<open>net.SplitHostPort\<close>, \<open>lookup\<close> the resolver; the result
  is the address and port that are dialled. An empty answer of the resolver, which it gives only
  with an error, would be an index out of range where private networks are allowed.
\<close>

definition DialContext ::
  "bool \<Rightarrow> (string \<Rightarrow> error + string \<times> string) \<Rightarrow> (string \<Rightarrow> error + ip list) \<Rightarrow> string \<Rightarrow> error + ip \<times> string" where
  "DialContext allowPrivate split lookup address =
     (case split address of
        Inl err \<Rightarrow> Inl (Errorf ''split destination address'' [err])
      | Inr (host, port) \<Rightarrow>
          (case lookup host of
             Inl err \<Rightarrow> Inl (Errorf ''resolve destination'' [err])
           | Inr addresses \<Rightarrow>
               if \<not> allowPrivate \<and> ValidateResolvedIPs addresses \<noteq> None then Inl (Sentinel ErrDestinationNotAllowed)
               else (case addresses of
                       [] \<Rightarrow> Inl (New ''index out of range'')
                     | a # _ \<Rightarrow> Inr (a, port))))"

definition CheckRedirect :: "(nat \<Rightarrow> nat) \<Rightarrow> url \<Rightarrow> url list \<Rightarrow> error option" where
  "CheckRedirect table target via =
     (case via of
        [] \<Rightarrow> Some (Sentinel ErrRedirectNotAllowed)
      | first # _ \<Rightarrow>
          if \<not> EqualFold table (url_Scheme target) (url_Scheme first) \<or> \<not> EqualFold table (url_Host target) (url_Host first) \<or>
             3 \<le> length via
          then Some (Sentinel ErrRedirectNotAllowed) else None)"

section \<open>Diagnostics\<close>

definition parseRetryAfter :: "(string \<Rightarrow> time option) \<Rightarrow> string \<Rightarrow> time \<Rightarrow> time option" where
  "parseRetryAfter parseTime v now =
     (let dated = (case parseTime v of Some t \<Rightarrow> if After t now then Some t else None | None \<Rightarrow> None)
      in case Atoi (TrimSpace v) of
           Some seconds \<Rightarrow> if 0 \<le> seconds then Some (Add now (wrap64 (seconds * Second))) else dated
         | None \<Rightarrow> dated)"

definition blank_control :: "nat \<Rightarrow> nat" where
  "blank_control r = (if r < 32 \<and> r \<noteq> 9 then 32 else r)"

definition sanitize :: "string \<Rightarrow> int \<Rightarrow> string" where
  "sanitize v limit =
     (let m = strings_Map blank_control v in if limit < int (length m) then take (nat limit) m else m)"

section \<open>Send\<close>

abbreviation permanent :: "string \<Rightarrow> send_result" where
  "permanent code \<equiv> \<lparr>res_Outcome = Permanent, res_HTTPStatus = 0, res_ErrorCode = code, res_ErrorMessage = [], res_RetryAfter = None\<rparr>"

fun set_secrets :: "(string \<Rightarrow> string option) \<Rightarrow> (string, string) gomap \<Rightarrow> header \<Rightarrow> header option" where
  "set_secrets lookupEnv [] h = Some h"
| "set_secrets lookupEnv ((name, env) # rest) h =
     (case lookupEnv env of None \<Rightarrow> None | Some v \<Rightarrow> set_secrets lookupEnv rest (Header_Set name v h))"

text \<open>Lines 75 to 96 of \<open>Send\<close>: the request, or the result that refuses it before anything is sent.\<close>

definition build_request ::
  "parsers \<Rightarrow> (string \<Rightarrow> string \<Rightarrow> error option) \<Rightarrow> sender \<Rightarrow> delivery_snapshot \<Rightarrow> send_result + request" where
  "build_request ps newRequest sender snapshot =
     (case parse_url ps (snap_URL snapshot) of
        None \<Rightarrow> Inl (permanent ''destination_not_allowed'')
      | Some u \<Rightarrow>
          if url_Hostname u = [] \<or> (url_Scheme u \<noteq> ''https'' \<and> \<not> snd_allowDev sender)
          then Inl (permanent ''destination_not_allowed'')
          else if (case ParseIP (url_Hostname u) of
                     None \<Rightarrow> False | Some a \<Rightarrow> \<not> snd_allowDev sender \<and> ValidateResolvedIPs [a] \<noteq> None)
          then Inl (permanent ''destination_not_allowed'')
          else if newRequest (snap_Method snapshot) (snap_URL snapshot) \<noteq> None then Inl (permanent ''invalid_request'')
          else (case set_secrets (snd_lookupEnv sender) (snap_SecretHeaders snapshot) (snap_StaticHeaders snapshot) of
                  None \<Rightarrow> Inl (permanent ''missing_secret'')
                | Some h \<Rightarrow>
                    Inr \<lparr>req_Method = snap_Method snapshot, req_URL = snap_URL snapshot,
                         req_Header = Header_Set ''Idempotency-Key'' (snap_IdempotencyKey snapshot) h,
                         req_Body = snap_Body snapshot, req_Timeout = snap_Timeout snapshot\<rparr>))"

text \<open>Lines 97 to 122 of \<open>Send\<close>: the result of the call. \<open>error_text\<close> is the text of an error.\<close>

definition result_of ::
  "(string \<Rightarrow> time option) \<Rightarrow> (error \<Rightarrow> string) \<Rightarrow> time \<Rightarrow> sender \<Rightarrow> error + response \<Rightarrow> send_result" where
  "result_of parseTime error_text now sender answer =
     (case answer of
        Inl err \<Rightarrow>
          if errors_is err ErrRedirectNotAllowed then permanent ''redirect_not_allowed''
          else if errors_is err ErrDestinationNotAllowed then permanent ''destination_not_allowed''
          else \<lparr>res_Outcome = Retryable, res_HTTPStatus = 0, res_ErrorCode = ''transport_error'',
                res_ErrorMessage = sanitize (error_text err) (snd_limit sender), res_RetryAfter = None\<rparr>
      | Inr resp \<Rightarrow>
          let st = resp_StatusCode resp;
              body = take (nat (snd_limit sender)) (resp_Body resp);
              outcome = ClassifyResult st None;
              result = \<lparr>res_Outcome = outcome, res_HTTPStatus = st, res_ErrorCode = [],
                        res_ErrorMessage = sanitize body (snd_limit sender), res_RetryAfter = None\<rparr>
          in if outcome = Delivered then result
             else result\<lparr>res_ErrorCode := if 500 \<le> st then ''http_5xx'' else ''http_4xx'',
                         res_RetryAfter := if st = 429 \<or> st = 503
                           then parseRetryAfter parseTime (Header_Get ''Retry-After'' (resp_Header resp)) now else None\<rparr>)"

definition Send ::
  "parsers \<Rightarrow> (string \<Rightarrow> string \<Rightarrow> error option) \<Rightarrow> (request \<Rightarrow> error + response) \<Rightarrow> (string \<Rightarrow> time option) \<Rightarrow> (error \<Rightarrow> string) \<Rightarrow>
   time \<Rightarrow> sender \<Rightarrow> delivery_snapshot \<Rightarrow> send_result" where
  "Send ps newRequest send_request parseTime error_text now sender snapshot =
     (case build_request ps newRequest sender snapshot of
        Inl refused \<Rightarrow> refused
      | Inr req \<Rightarrow> result_of parseTime error_text now sender (send_request req))"

section \<open>Lemmas\<close>

lemma length_sanitize: "0 \<le> limit \<Longrightarrow> int (length (sanitize v limit)) \<le> limit"
  by (simp add: sanitize_def Let_def)

lemma sanitize_short: "int (length (strings_Map blank_control v)) \<le> limit \<Longrightarrow> utf8_valid (sanitize v limit)"
  by (simp add: sanitize_def strings_Map_valid Let_def)

lemma set_secrets_present:
  "set_secrets lookupEnv kvs h \<noteq> None \<longleftrightarrow> (\<forall>(name, env) \<in> set kvs. lookupEnv env \<noteq> None)"
  by (induction kvs arbitrary: h) (simp, force split: option.split)

lemma set_secrets_Get:
  assumes "set_secrets lookupEnv kvs h = Some h'" "distinct (map (CanonicalHeaderKey \<circ> fst) kvs)" "(name, env) \<in> set kvs"
  shows "lookupEnv env = Some (Header_Get name h')"
  using assms
proof (induction kvs arbitrary: h)
  case (Cons kv kvs)
  obtain n e where kv: "kv = (n, e)" by fastforce
  with Cons.prems(1) obtain v where v: "lookupEnv e = Some v" "set_secrets lookupEnv kvs (Header_Set n v h) = Some h'"
    by (auto split: option.splits)
  have keep: "set_secrets lookupEnv xs g = Some h' \<Longrightarrow> CanonicalHeaderKey key \<notin> (CanonicalHeaderKey \<circ> fst) ` set xs \<Longrightarrow>
      Header_Get key h' = Header_Get key g" for xs g key
    by (induction xs arbitrary: g) (force split: option.splits)+
  show ?case
  proof (cases "(name, env) = (n, e)")
    case True
    have "CanonicalHeaderKey n \<notin> (CanonicalHeaderKey \<circ> fst) ` set kvs" using Cons.prems(2) kv by (simp add: comp_def)
    from keep [OF v(2) this] v(1) True show ?thesis by simp
  next
    case False
    with Cons.prems(3) kv have "(name, env) \<in> set kvs" by auto
    with Cons.prems(2) Cons.IH [OF v(2)] show ?thesis by simp
  qed
qed simp

section \<open>Properties\<close>


text \<open>
  C26. The result of a request is classified by its status alone, and its diagnostics are bounded:
  delivered exactly for a 2xx answer, retryable exactly for a transport error, 408, 425, 429 and
  5xx, permanent otherwise, refused redirects and addresses included; a message is at most
  \<open>limit\<close> bytes; and an instant to retry at is taken from the supplier only with 429 and 503.
\<close>

theorem result_classified:
  assumes "result = result_of parseTime error_text now (NewHTTPSender allowDev maxDiagnostic lookupEnv) answer"
    and "limit = (if maxDiagnostic \<le> 0 then 1024 else maxDiagnostic)"
  shows "(res_Outcome result = Delivered \<longleftrightarrow> (\<exists>resp. answer = Inr resp \<and> 200 \<le> resp_StatusCode resp \<and> resp_StatusCode resp < 300)) \<and>
    (res_Outcome result = Retryable \<longleftrightarrow>
       (\<exists>err. answer = Inl err \<and> \<not> errors_is err ErrRedirectNotAllowed \<and> \<not> errors_is err ErrDestinationNotAllowed) \<or>
       (\<exists>resp. answer = Inr resp \<and> (resp_StatusCode resp \<in> {408, 425, 429} \<or> 500 \<le> resp_StatusCode resp \<and> resp_StatusCode resp \<le> 599))) \<and>
    int (length (res_ErrorMessage result)) \<le> limit \<and>
    (res_RetryAfter result \<noteq> None \<longrightarrow> (\<exists>resp. answer = Inr resp \<and> resp_StatusCode resp \<in> {429, 503})) \<and>
    (\<forall>resp. answer = Inr resp \<longrightarrow> res_HTTPStatus result = resp_StatusCode resp)"
proof -
  have limit: "snd_limit (NewHTTPSender allowDev maxDiagnostic lookupEnv) = limit" "0 \<le> limit"
    using assms(2) by (simp_all add: NewHTTPSender_def)
  show ?thesis
  proof (cases answer)
    case (Inl err)
    with assms(1) limit length_sanitize [OF limit(2)] show ?thesis by (simp add: result_of_def)
  next
    case (Inr resp)
    with assms(1) limit length_sanitize [OF limit(2)] show ?thesis
      by (simp add: result_of_def Let_def ClassifyResult_Delivered ClassifyResult_Retryable)
  qed
qed


text \<open>
  C35. \<open>parseRetryAfter\<close> reads every number of seconds up to 9223372036 (292 years) as the
  instant that many seconds from now. Beyond that the multiplication by a second leaves the range of
  a duration and wraps: one second more is read as an instant 292 years in the past.
\<close>

theorem retry_after_range:
  assumes "0 \<le> n" "n \<le> 9223372036"
  shows "parseRetryAfter parseTime (Itoa n) now = Some (now + n * Second) \<and>
    parseRetryAfter parseTime (Itoa 9223372037) now = Some (now - 9223372036709551616)"
proof -
  have plain: "TrimSpace (Itoa i) = Itoa i" if "0 \<le> i" for i
  proof -
    have d: "list_all is_digit (Itoa i)" "Itoa i \<noteq> []" using that show_nat_digits [of "nat i"] by (simp_all add: Itoa_def)
    then have "is_digit (hd (Itoa i))" "is_digit (last (Itoa i))" by (simp_all add: list_all_iff)
    with d show ?thesis by (intro TrimSpace_plain) (simp_all add: is_digit_def plain_byte_def)
  qed
  have "Atoi (Itoa n) = Some n" using assms by (intro Atoi_Itoa) (simp add: int64_def)
  moreover have "Atoi (Itoa 9223372037) = Some 9223372037" by (rule Atoi_Itoa) (simp add: int64_def)
  moreover have "wrap64 (n * Second) = n * Second"
    using assms by (intro wrap64_id) (simp add: int64_def Second_def)
  moreover have "wrap64 (9223372037 * Second) = - 9223372036709551616" by (simp add: wrap64_def Second_def)
  ultimately show ?thesis using assms(1) plain [of n] plain [of 9223372037] by (simp add: parseRetryAfter_def Add_def)
qed

section \<open>A truncated diagnostic\<close>

definition printable :: "string \<Rightarrow> bool" where
  "printable s \<longleftrightarrow> list_all (\<lambda>c. 32 \<le> byte c \<and> byte c < 128) s"

lemma printable_Map: "printable p \<Longrightarrow> strings_Map blank_control (p @ s) = p @ strings_Map blank_control s"
proof (induction p)
  case (Cons c p)
  have "runes (byte c # bs) = byte c # runes bs" for bs
    using Cons.prems by (subst runes.simps) (simp add: printable_def)
  with Cons show ?case by (simp add: strings_Map_def printable_def blank_control_def)
qed simp

lemma printable_valid: "printable p \<Longrightarrow> utf8_valid (p @ s) = utf8_valid s"
proof (induction p)
  case (Cons c p)
  have "valid_bytes (byte c # bs) = valid_bytes bs" for bs
    using Cons.prems by (subst valid_bytes.simps) (simp add: printable_def RuneError_def)
  with Cons show ?case by (simp add: utf8_valid_def printable_def)
qed simp

lemma cut_character_Map:
  assumes "194 \<le> byte c"
  shows "strings_Map blank_control [c] = [char_of (239 :: nat), char_of (191 :: nat), char_of (189 :: nat)]"
proof -
  have "runes [byte c] = [RuneError]" using assms by (subst runes.simps) (simp add: runes.simps [of "[]"])
  then show ?thesis by (simp add: strings_Map_def blank_control_def RuneError_def encode_rune_def valid_rune_def encode_valid_def)
qed

lemma lone_byte_invalid: "\<not> utf8_valid [char_of (239 :: nat)]"
  by (simp add: utf8_valid_def valid_bytes.simps [of "[239]"] RuneError_def)

lemma sanitize_cuts_character:
  assumes p: "printable p" "length p = 1023" and c: "194 \<le> byte c"
  shows "sanitize (take 1024 (p @ c # s)) 1024 = p @ [char_of (239 :: nat)]"
proof -
  have "take 1024 (p @ c # s) = p @ [c]" using p(2) by simp
  then show ?thesis
    using p(2) unfolding sanitize_def Let_def by (simp add: printable_Map [OF p(1)] cut_character_Map [OF c])
qed


section \<open>Witnesses\<close>

definition sample_sender :: sender where
  "sample_sender = NewHTTPSender False 1024 (\<lambda>_. Some ''s3cret'')"


definition sample_response :: "int \<Rightarrow> string \<Rightarrow> response" where
  "sample_response st body = \<lparr>resp_StatusCode = st, resp_Header = [], resp_Body = body\<rparr>"

lemma result_classified_witness:
  "res_Outcome (result_of (\<lambda>_. None) (\<lambda>_. []) 0 (NewHTTPSender False 0 (\<lambda>_. None)) (Inr (sample_response 204 []))) = Delivered"
  using result_classified [OF refl refl, of "\<lambda>_. None" "\<lambda>_. []" 0 False 0 "\<lambda>_. None" "Inr (sample_response 204 [])"]
  by (simp add: sample_response_def)


lemma retry_after_range_witness: "parseRetryAfter (\<lambda>_. None) (Itoa 120) 0 = Some (120 * Second)"
  using retry_after_range [of 120 "\<lambda>_. None" 0] by simp


end
