(* ===== verification/Config.thy ===== *)
theory Config
  imports GoStrings
begin

text \<open>
  Roles and runtime configuration (\<open>internal/config/config.go\<close>). \<open>lookup\<close> is the environment.
\<close>

datatype role = RoleAPI | RolePublisher | RoleWorker | RoleScheduler | RoleAll

fun role_string :: "role \<Rightarrow> string" where
  "role_string RoleAPI = ''api''"
| "role_string RolePublisher = ''publisher''"
| "role_string RoleWorker = ''worker''"
| "role_string RoleScheduler = ''scheduler''"
| "role_string RoleAll = ''all''"

definition ParseRole :: "string \<Rightarrow> error + role" where
  "ParseRole v =
     (case find (\<lambda>r. role_string r = v) [RoleAPI, RolePublisher, RoleWorker, RoleScheduler, RoleAll] of
        Some r \<Rightarrow> Inr r
      | None \<Rightarrow> Inl (New ''unsupported role''))"

record runtime =
  rt_Role :: role
  rt_DatabaseURL :: string
  rt_RabbitMQURL :: string
  rt_DestinationsFile :: string
  rt_HTTPAddr :: string
  rt_MetricsAddr :: string
  rt_CallerTokens :: "(string, string) gomap"
  rt_AdminTokens :: "(string, string) gomap"
  rt_ShutdownTimeout :: duration

text \<open>One entry of a token list, and the map of all of them: a later entry replaces an earlier one.\<close>

definition token_entry :: "string \<Rightarrow> (string, string) gomap \<Rightarrow> (string, string) gomap" where
  "token_entry entry result =
     (case SplitN2 CHR '':'' (TrimSpace entry) of
        [token, identity] \<Rightarrow> if token \<noteq> [] \<and> identity \<noteq> [] then AList.update token identity result else result
      | _ \<Rightarrow> result)"

definition parseTokens :: "string \<Rightarrow> (string, string) gomap" where
  "parseTokens v = foldl (\<lambda>result entry. token_entry entry result) [] (Split CHR '','' v)"

definition LoadRuntime :: "role \<Rightarrow> (string \<Rightarrow> string option) \<Rightarrow> error + runtime" where
  "LoadRuntime role lookup =
     (let get = (\<lambda>key. TrimSpace (case lookup key of None \<Rightarrow> [] | Some v \<Rightarrow> v));
          config = \<lparr>rt_Role = role, rt_DatabaseURL = get ''DATABASE_URL'', rt_RabbitMQURL = get ''RABBITMQ_URL'',
            rt_DestinationsFile = get ''DESTINATIONS_FILE'', rt_HTTPAddr = get ''HTTP_ADDR'', rt_MetricsAddr = [],
            rt_CallerTokens = [], rt_AdminTokens = [], rt_ShutdownTimeout = 10 * Second\<rparr>
      in if rt_DatabaseURL config = [] then Inl (New ''DATABASE_URL is required'')
         else if (role = RolePublisher \<or> role = RoleWorker \<or> role = RoleAll) \<and> rt_RabbitMQURL config = []
         then Inl (New ''RABBITMQ_URL is required'')
         else if (role = RoleAPI \<or> role = RoleWorker \<or> role = RoleAll) \<and> rt_DestinationsFile config = []
         then Inl (New ''DESTINATIONS_FILE is required'')
         else if role = RoleAPI \<or> role = RoleAll then
           (let callers = parseTokens (get ''CALLER_TOKENS''); admins = parseTokens (get ''ADMIN_TOKENS'')
            in if callers = [] \<or> admins = [] then Inl (New ''CALLER_TOKENS and ADMIN_TOKENS are required'')
               else Inr (config\<lparr>rt_CallerTokens := callers, rt_AdminTokens := admins,
                      rt_HTTPAddr := if rt_HTTPAddr config = [] then '':8080'' else rt_HTTPAddr config\<rparr>))
         else
           (let addr = get ''METRICS_ADDR''
            in Inr (config\<lparr>rt_MetricsAddr := if addr = [] then '':9090'' else addr\<rparr>)))"

lemma ParseRole_iff: "ParseRole v = Inr r \<longleftrightarrow> role_string r = v"
  by (cases r) (auto simp: ParseRole_def)

definition tokens_ok :: "(string, string) gomap \<Rightarrow> bool" where
  "tokens_ok m \<longleftrightarrow> distinct (map fst m) \<and> (\<forall>(token, identity) \<in> set m. token \<noteq> [] \<and> CHR '':'' \<notin> set token \<and> identity \<noteq> [])"

lemma SplitN2_parts: "SplitN2 sep s = [a, b] \<Longrightarrow> sep \<notin> set a"
  by (auto simp: SplitN2_def Let_def split: if_splits dest: set_takeWhileD)

lemma token_entry_ok: "tokens_ok m \<Longrightarrow> tokens_ok (token_entry e m)"
proof (cases "\<exists>token identity. SplitN2 CHR '':'' (TrimSpace e) = [token, identity] \<and> token \<noteq> [] \<and> identity \<noteq> []")
  case True
  assume m: "tokens_ok m"
  from True obtain token identity where s: "SplitN2 CHR '':'' (TrimSpace e) = [token, identity]" "token \<noteq> []" "identity \<noteq> []" by blast
  with m SplitN2_parts [OF s(1)] show ?thesis
    unfolding token_entry_def tokens_ok_def by (simp add: distinct_update, intro update_all) auto
next
  case False
  assume "tokens_ok m"
  moreover from False have "token_entry e m = m" by (auto simp: token_entry_def split: list.splits)
  ultimately show ?thesis by simp
qed

lemma parseTokens_ok: "tokens_ok (parseTokens v)"
proof -
  have "tokens_ok m \<Longrightarrow> tokens_ok (foldl (\<lambda>result entry. token_entry entry result) m es)" for m es
    by (induction es arbitrary: m) (simp_all add: token_entry_ok)
  moreover have "tokens_ok []" by (simp add: tokens_ok_def)
  ultimately show ?thesis by (simp add: parseTokens_def)
qed

end
