(* ===== verification/HttpApi.thy ===== *)
theory HttpApi
  imports Services GoStrings Hash JsonStruct
begin

text \<open>
  The HTTP interface (\<open>internal/transport/httpapi\<close>): authentication by token, strict decoding of
  the request body, and the three handlers over the services' interfaces. A reply is its status
  and the JSON value written. Matching a request against the patterns of the mux is
  \<open>net/http\<close>'s; a request arrives here with its endpoint.
\<close>

section \<open>Replies (errors.go)\<close>

record reply =
  rp_status :: int
  rp_body :: json

definition writeError :: "int \<Rightarrow> string \<Rightarrow> string \<Rightarrow> reply" where
  "writeError st code message =
     \<lparr>rp_status = st, rp_body = JObj [(''error'', JObj [(''code'', JStr code), (''message'', JStr message)])]\<rparr>"

fun status_string :: "status \<Rightarrow> string" where
  "status_string StatusPending = ''pending''"
| "status_string StatusDelivering = ''delivering''"
| "status_string StatusRetryWait = ''retry_wait''"
| "status_string StatusDelivered = ''delivered''"
| "status_string StatusDead = ''dead''"

lemma status_string_inject [simp]: "status_string a = status_string b \<longleftrightarrow> a = b"
  by (cases a; cases b) simp_all

section \<open>Authentication (auth.go)\<close>

text \<open>
  The loop over the tokens in the order of one iteration of the map; a constant-time comparison of
  equal lengths is an equality.
\<close>

definition caller_of :: "(string, string) gomap \<Rightarrow> header \<Rightarrow> string" where
  "caller_of tokens h =
     (let provided = TrimPrefix (Header_Get ''Authorization'' h) ''Bearer ''
      in foldl (\<lambda>caller (token, identity). if length token = length provided \<and> token = provided then identity else caller)
           [] tokens)"

definition authenticate :: "(string, string) gomap \<Rightarrow> header \<Rightarrow> (string \<Rightarrow> 'w \<Rightarrow> reply \<times> 'w) \<Rightarrow> 'w \<Rightarrow> reply \<times> 'w" where
  "authenticate tokens h nxt w =
     (let caller = caller_of tokens h
      in if caller = [] then (writeError 401 ''unauthorized'' ''authentication required'', w) else nxt caller w)"

lemma caller_of_eq:
  assumes "distinct (map fst tokens)"
  shows "caller_of tokens h = (case map_of tokens (TrimPrefix (Header_Get ''Authorization'' h) ''Bearer '') of None \<Rightarrow> [] | Some c \<Rightarrow> c)"
proof -
  define p where "p = TrimPrefix (Header_Get ''Authorization'' h) ''Bearer ''"
  have "foldl (\<lambda>caller (token, identity). if length token = length p \<and> token = p then identity else caller) acc ts =
      (case map_of ts p of None \<Rightarrow> acc | Some c \<Rightarrow> c)" if "distinct (map fst ts)" for acc ts
    using that
  proof (induction ts arbitrary: acc)
    case (Cons kv ts)
    obtain token identity where kv: "kv = (token, identity)" by fastforce
    have "map_of ts p = None" if "token = p" using Cons.prems that by (simp add: kv map_of_eq_None_iff)
    with Cons show ?case by (cases "token = p") (simp_all add: kv)
  qed simp
  from this [OF assms] show ?thesis by (simp add: caller_of_def Let_def p_def)
qed

section \<open>Decoding (json.go)\<close>

text \<open>
  A decoder into a target reads one value from the bytes that remain and meets \<open>EOF\<close> or another
  error where they end: it returns the target and the rest, or an error. \<open>MaxBytesReader\<close> ends a
  longer body after the allowed bytes with its own error.
\<close>

lemmas member_texts_numeral = member_texts.simps(2) [of "pred_numeral k" for k, folded numeral_eq_Suc]

type_synonym 'v decoder = "string \<Rightarrow> error \<Rightarrow> error + 'v \<times> string"

definition MaxRequestBodyBytes :: nat where
  "MaxRequestBodyBytes = 256 * 1024"

definition limited :: "string \<Rightarrow> string \<times> error" where
  "limited body =
     (if length body \<le> MaxRequestBodyBytes then (body, Sentinel EOF)
      else (take MaxRequestBodyBytes body, Sentinel MaxBytesError))"

definition decodeJSON :: "'v decoder \<Rightarrow> string \<Rightarrow> error + 'v" where
  "decodeJSON decode_target body =
     (let (bytes, ending) = limited body
      in case decode_target bytes ending of
           Inl err \<Rightarrow> Inl err
         | Inr (v, rest) \<Rightarrow>
             (case Decode rest ending of
                Inl err \<Rightarrow> if errors_is err EOF then Inr v else Inl err
              | Inr _ \<Rightarrow> Inl (New ''multiple JSON values'')))"

lemma Decode_error: "Decode s ending = Inl err \<Longrightarrow> err = ending \<or> \<not> errors_is err EOF"
  by (auto simp: Decode_def split: parsed.splits if_splits)

text \<open>A body that decodes is within the limit.\<close>

lemma decodeJSON_limit: "decodeJSON decode_target body = Inr v \<Longrightarrow> length body \<le> MaxRequestBodyBytes"
  using Decode_error by (fastforce simp: decodeJSON_def limited_def split: if_splits sum.splits prod.splits)

section \<open>Creating (create.go)\<close>

record createRequest =
  in_DestinationID :: string
  in_Payload :: string

text \<open>
  \<open>Decode\<close> into a \<open>createRequest\<close> with unknown fields disallowed: an object's members set its fields in
  order, \<open>null\<close> leaves it empty.
\<close>

fun set_request_field :: "createRequest \<times> error option \<Rightarrow> string \<times> json \<times> string \<Rightarrow> createRequest \<times> error option" where
  "set_request_field (input, saved) (key, v, raw) =
     (case field_of [''destination_id'', ''payload''] key of
        None \<Rightarrow> (input, saveError saved (New ''json: unknown field''))
      | Some name \<Rightarrow>
          if name = ''payload'' then (input\<lparr>in_Payload := raw\<rparr>, saved)
          else (case string_field v (in_DestinationID input) of
                  Inl err \<Rightarrow> (input, saveError saved err) | Inr s \<Rightarrow> (input\<lparr>in_DestinationID := s\<rparr>, saved)))"

definition zero_request :: createRequest where
  "zero_request = \<lparr>in_DestinationID = [], in_Payload = []\<rparr>"

definition decode_createRequest :: "createRequest decoder" where
  "decode_createRequest s ending =
     (case Decode s ending of
        Inl err \<Rightarrow> Inl err
      | Inr (JObj kvs, rest) \<Rightarrow>
          (case object_members s of
             Done ms _ \<Rightarrow>
               (case foldl set_request_field (zero_request, None) ms of
                  (input, None) \<Rightarrow> Inr (input, rest) | (_, Some err) \<Rightarrow> Inl err)
           | _ \<Rightarrow> Inl (New ''invalid character''))
      | Inr (JNull, rest) \<Rightarrow> Inr (zero_request, rest)
      | Inr _ \<Rightarrow> Inl UnmarshalTypeError)"

text \<open>The payload of a decoded request is the text of one JSON value, so it can be hashed.\<close>

lemma set_request_field_payload:
  assumes "foldl set_request_field (input, saved) ms = (r, None)"
    and "in_Payload input = [] \<or> (\<exists>v. parse (in_Payload input) = Done v [])" "\<forall>(k, v, t) \<in> set ms. parse t = Done v []"
  shows "in_Payload r = [] \<or> (\<exists>v. parse (in_Payload r) = Done v [])"
  using assms
proof (induction ms arbitrary: input saved)
  case (Cons m ms)
  obtain k v t where m: "m = (k, v, t)" by (cases m)
  obtain input' saved' where s: "set_request_field (input, saved) m = (input', saved')" by fastforce
  then have "in_Payload input' = in_Payload input \<or> in_Payload input' = t"
    by (auto simp: m split: option.splits if_splits sum.splits)
  with Cons.prems m have "in_Payload input' = [] \<or> (\<exists>v. parse (in_Payload input') = Done v [])" by auto
  with Cons.IH [of input' saved'] Cons.prems(1,3) s show ?case by simp
qed simp

lemma decode_createRequest_payload:
  assumes "decode_createRequest bytes ending = Inr (input, rest)" "in_Payload input \<noteq> []"
  shows "\<exists>v. parse (in_Payload input) = Done v []"
proof (cases "Decode bytes ending")
  case (Inr vr)
  obtain v rest' where v: "vr = (v, rest')" by fastforce
  with Inr have p: "parse bytes = Done v rest'" by (auto simp: Decode_def split: parsed.splits if_splits)
  show ?thesis
  proof (cases v)
    case (JObj kvs)
    with p object_members_parse obtain ms r where ms: "object_members bytes = Done ms r" "\<forall>(k, v, t) \<in> set ms. parse t = Done v []"
      by blast
    obtain r saved where f: "foldl set_request_field (zero_request, None) ms = (r, saved)" by fastforce
    with assms(1) Inr v JObj ms(1) have "saved = None" "r = input"
      by (auto simp: decode_createRequest_def split: option.splits)
    with set_request_field_payload [OF f [unfolded \<open>saved = None\<close>] _ ms(2)] assms(2) show ?thesis by (simp add: zero_request_def)
  qed (use assms Inr v in \<open>auto simp: decode_createRequest_def zero_request_def\<close>)
qed (use assms in \<open>simp add: decode_createRequest_def\<close>)

lemma decoded_payload:
  assumes "decodeJSON decode_createRequest body = Inr input" "in_Payload input \<noteq> []"
  shows "\<exists>hash. RequestHash i (in_Payload input) = Inr hash"
proof -
  obtain bytes ending rest where "decode_createRequest bytes ending = Inr (input, rest)"
    using assms(1) by (auto simp: decodeJSON_def split: prod.splits sum.splits if_splits)
  from decode_createRequest_payload [OF this assms(2)] obtain v where "parse (in_Payload input) = Done v []" ..
  then have "payload_value (in_Payload input) = Some (sort_members (interface_value v))" by (simp add: payload_value_def)
  with canonical_iff have "canonical (in_Payload input) = Inr (print_json (sort_members (interface_value v)))" by blast
  then show ?thesis by (simp add: RequestHash_def)
qed

definition createHandler ::
  "(string \<Rightarrow> string \<Rightarrow> string \<Rightarrow> string \<Rightarrow> 'w \<Rightarrow> (error + task \<times> bool) \<times> 'w) \<Rightarrow>
   header \<Rightarrow> string \<Rightarrow> string \<Rightarrow> 'w \<Rightarrow> reply \<times> 'w" where
  "createHandler create h body caller w =
     (let idempotencyKey = TrimSpace (Header_Get ''Idempotency-Key'' h)
      in if idempotencyKey = [] \<or> 256 < length idempotencyKey
         then (writeError 400 ''invalid_idempotency_key'' ''Idempotency-Key is required and must not exceed 256 characters'', w)
         else case decodeJSON decode_createRequest body of
           Inl err \<Rightarrow>
             (if errors_is err MaxBytesError
              then (writeError 413 ''request_too_large'' ''request body exceeds 256 KiB'', w)
              else (writeError 400 ''invalid_json'' ''request body must be one valid JSON object'', w))
         | Inr input \<Rightarrow>
             if in_DestinationID input = [] \<or> in_Payload input = []
             then (writeError 400 ''invalid_request'' ''destination_id and payload are required'', w)
             else (case create caller idempotencyKey (in_DestinationID input) (in_Payload input) w of
                     (Inl err, w1) \<Rightarrow>
                       (if errors_is err ErrIdempotencyConflict
                        then (writeError 409 ''idempotency_conflict'' ''Idempotency-Key was already used for a different request'', w1)
                        else if errors_is err ErrUnknownDestination
                        then (writeError 422 ''unknown_destination'' ''destination_id is not registered'', w1)
                        else (writeError 500 ''internal_error'' ''request could not be accepted'', w1))
                   | (Inr (t, _), w1) \<Rightarrow>
                       (\<lparr>rp_status = 202, rp_body = JObj [(''notification_id'', JStr (task_ID t)), (''status'', JStr (status_string (task_Status t)))]\<rparr>, w1)))"

section \<open>Querying and replaying (query.go)\<close>

text \<open>
  The JSON object of a \<open>View\<close>: the members with \<open>omitempty\<close> are left out when they are empty, and
  \<open>show_time\<close> is the text of a time.
\<close>

definition json_View :: "(time \<Rightarrow> string) \<Rightarrow> view \<Rightarrow> json" where
  "json_View show_time v =
     (let instant = (\<lambda>name t. case t of None \<Rightarrow> [] | Some u \<Rightarrow> [(name, JStr (show_time u))]);
          text = (\<lambda>name s. if s = [] then [] else [(name, JStr s)])
      in JObj ([(''notification_id'', JStr (view_ID v)), (''destination_id'', JStr (view_DestinationID v)),
                (''status'', JStr (status_string (view_Status v))), (''attempt_count'', JNum (Itoa (view_AttemptCount v)))] @
               instant ''next_attempt_at'' (view_NextAttemptAt v) @
               (if view_LastHTTPStatus v = 0 then [] else [(''last_http_status'', JNum (Itoa (view_LastHTTPStatus v)))]) @
               text ''last_error_code'' (view_LastErrorCode v) @ text ''last_error_message'' (view_LastError v) @
               [(''created_at'', JStr (show_time (view_CreatedAt v))), (''updated_at'', JStr (show_time (view_UpdatedAt v)))] @
               instant ''delivered_at'' (view_DeliveredAt v) @ instant ''dead_at'' (view_DeadAt v)))"

definition queryHandler ::
  "(string \<Rightarrow> string \<Rightarrow> 'w \<Rightarrow> error + view) \<Rightarrow> (time \<Rightarrow> string) \<Rightarrow> string \<Rightarrow> string \<Rightarrow> 'w \<Rightarrow> reply \<times> 'w" where
  "queryHandler query show_time i caller w =
     (if i = [] then (writeError 400 ''invalid_notification_id'' ''notification id is required'', w)
      else case query caller i w of
        Inl err \<Rightarrow>
          (if errors_is err ErrTaskNotFound then (writeError 404 ''not_found'' ''notification not found'', w)
           else (writeError 500 ''internal_error'' ''notification could not be queried'', w))
      | Inr v \<Rightarrow> (\<lparr>rp_status = 200, rp_body = json_View show_time v\<rparr>, w))"

definition replayHandler ::
  "(string \<Rightarrow> string \<Rightarrow> 'w \<Rightarrow> error option \<times> 'w) \<Rightarrow> string \<Rightarrow> string \<Rightarrow> 'w \<Rightarrow> reply \<times> 'w" where
  "replayHandler replay i caller w =
     (case replay caller i w of
        (Some err, w1) \<Rightarrow>
          (if errors_is err ErrNotDead then (writeError 409 ''not_dead'' ''only dead notifications can be replayed'', w1)
           else (writeError 500 ''internal_error'' ''notification could not be replayed'', w1))
      | (None, w1) \<Rightarrow>
          (\<lparr>rp_status = 202, rp_body = JObj [(''notification_id'', JStr i), (''status'', JStr ''pending'')]\<rparr>, w1))"

section \<open>The router (router.go)\<close>

datatype endpoint = CreateEndpoint | QueryEndpoint string | ReplayEndpoint string

record 'w dependencies =
  Creator :: "string \<Rightarrow> string \<Rightarrow> string \<Rightarrow> string \<Rightarrow> 'w \<Rightarrow> (error + task \<times> bool) \<times> 'w"
  Querier :: "string \<Rightarrow> string \<Rightarrow> 'w \<Rightarrow> error + view"
  Replayer :: "string \<Rightarrow> string \<Rightarrow> 'w \<Rightarrow> error option \<times> 'w"
  CallerTokens :: "(string, string) gomap"
  AdminTokens :: "(string, string) gomap"

definition NewRouter ::
  "'w dependencies \<Rightarrow> (time \<Rightarrow> string) \<Rightarrow> endpoint \<Rightarrow> header \<Rightarrow> string \<Rightarrow> 'w \<Rightarrow> reply \<times> 'w" where
  "NewRouter deps show_time e h body w =
     (case e of
        CreateEndpoint \<Rightarrow> authenticate (CallerTokens deps) h (createHandler (Creator deps) h body) w
      | QueryEndpoint i \<Rightarrow> authenticate (CallerTokens deps) h (queryHandler (Querier deps) show_time i) w
      | ReplayEndpoint i \<Rightarrow> authenticate (AdminTokens deps) h (replayHandler (Replayer deps) i) w)"

section \<open>The interface over the services\<close>

text \<open>The dependencies as \<open>RunConfigured\<close> wires them, for one request and the faults it meets.\<close>

definition service_dependencies ::
  "(string \<Rightarrow> string option) \<Rightarrow> tx_faults \<Rightarrow> fault \<Rightarrow> registry \<Rightarrow> time \<Rightarrow> string \<Rightarrow> string \<Rightarrow>
   (string, string) gomap \<Rightarrow> (string, string) gomap \<Rightarrow> db dependencies" where
  "service_dependencies jsonb tf ft registry now nid eventID callers admins =
     \<lparr>Creator = (\<lambda>caller key dst payload d.
        let (res, _, d') = Create (CreateOrGet jsonb tf (\<lambda>x. x) ft) registry now nid eventID caller key dst payload d
        in (res, d')),
      Querier = QueryService_Get (GetForCaller ft),
      Replayer = (\<lambda>admin i d. Replay (ReplayDeadAtomic tf) now eventID admin i d),
      CallerTokens = callers, AdminTokens = admins\<rparr>"

lemma CreateOrGet_found_unchanged:
  "CreateOrGet jsonb tf (\<lambda>x. x) ft t e d = (Inr (Some x), d') \<Longrightarrow> d' = d"
  by (auto simp: CreateOrGet_def WithTx_def conn_error_def split: if_splits sum.splits fault.splits)

text \<open>Errors of the store carry neither sentinel of intake, so a refusal comes from \<open>Create\<close> itself.\<close>

lemma CreateOrGet_error:
  "CreateOrGet jsonb tf (\<lambda>x. x) ft t e d = (Inl err, d') \<Longrightarrow>
   \<not> errors_is err ErrIdempotencyConflict \<and> \<not> errors_is err ErrUnknownDestination"
  by (auto simp: CreateOrGet_def WithTx_def conn_error_def create_tx_def CreateNotification_def InsertOutbox_def insert_task_def
      insert_outbox_def GetByCallerAndKey_def split: if_splits sum.splits fault.splits option.splits)

lemma Create_refused:
  assumes "Create (CreateOrGet jsonb tf (\<lambda>x. x) ft) registry now nid eventID caller key dst payload d = (Inl err, obs, d')"
    and "errors_is err ErrIdempotencyConflict \<or> errors_is err ErrUnknownDestination"
  shows "d' = d"
proof (cases "Get registry dst")
  case (Some target)
  show ?thesis
  proof (cases "RequestHash dst payload")
    case (Inr hash)
    let ?t = "new_task target nid caller key dst payload hash now" and ?e = "new_event eventID nid now"
    obtain res d1 where c: "CreateOrGet jsonb tf (\<lambda>x. x) ft ?t ?e d = (res, d1)" by fastforce
    show ?thesis
    proof (cases res)
      case (Inl e)
      with assms c CreateOrGet_error [OF c [unfolded Inl]] Some Inr show ?thesis by (simp add: Create_def Let_def)
    next
      case (Inr existing)
      with assms(1) c Some \<open>RequestHash dst payload = Inr hash\<close> CreateOrGet_found_unchanged show ?thesis
        by (cases existing) (auto simp: Create_def Let_def split: if_splits)
    qed
  qed (use assms(1) Some in \<open>simp add: Create_def\<close>)
qed (use assms(1) in \<open>simp add: Create_def\<close>)

text \<open>Any other error is one of hashing or of the store.\<close>

lemma Create_error_of_store:
  assumes "Create (CreateOrGet jsonb tf (\<lambda>x. x) ft) registry now nid eventID caller key dst payload d = (Inl err, obs, d')"
    and "\<not> errors_is err ErrIdempotencyConflict" "\<not> errors_is err ErrUnknownDestination"
  shows "(\<exists>e. RequestHash dst payload = Inl e) \<or> (\<exists>t e err'. CreateOrGet jsonb tf (\<lambda>x. x) ft t e d = (Inl err', d'))"
  using assms by (auto simp: Create_def Let_def split: option.splits sum.splits prod.splits if_splits)

text \<open>
  C32. The creation endpoint promises only what is stored: a 202 answer names a notification stored
  under the authenticated caller and the request's key, with its status and the hash of the
  destination and payload that the body holds, and a body longer than 256 KiB is never accepted.
  Every refusal (400, 401, 409, 413, 422) leaves the database as it was, and a 500 is an error of
  the store: a payload that was decoded can always be hashed.
\<close>

theorem create_endpoint:
  assumes "distinct (map fst callers)"
    and "NewRouter (service_dependencies jsonb tf ft registry now nid eventID callers admins)
      show_time CreateEndpoint h body d = (answer, d')"
  shows "(rp_status answer = 202 \<longrightarrow> (\<exists>caller input i hash st.
        map_of callers (TrimPrefix (Header_Get ''Authorization'' h) ''Bearer '') = Some caller \<and> caller \<noteq> [] \<and>
        length body \<le> MaxRequestBodyBytes \<and> decodeJSON decode_createRequest body = Inr input \<and>
        RequestHash (in_DestinationID input) (in_Payload input) = Inr hash \<and>
        stored_task d' (caller, TrimSpace (Header_Get ''Idempotency-Key'' h)) = Some (i, hash, st) \<and>
        rp_body answer = JObj [(''notification_id'', JStr i), (''status'', JStr (status_string st))])) \<and>
    (rp_status answer \<in> {400, 401, 409, 413, 422} \<longrightarrow> d' = d) \<and>
    (rp_status answer = 500 \<longrightarrow> (\<exists>t e err. CreateOrGet jsonb tf (\<lambda>x. x) ft t e d = (Inl err, d'))) \<and>
    rp_status answer \<in> {202, 400, 401, 409, 413, 422, 500}"
proof -
  let ?key = "TrimSpace (Header_Get ''Idempotency-Key'' h)"
  let ?create = "\<lambda>caller key dst payload d.
      let (res, _, d') = Create (CreateOrGet jsonb tf (\<lambda>x. x) ft) registry now nid eventID caller key dst payload d in (res, d')"
  define caller where "caller = caller_of callers h"
  have run: "(answer, d') = (if caller = [] then (writeError 401 ''unauthorized'' ''authentication required'', d)
      else createHandler ?create h body caller d)"
    using assms(2) [symmetric] by (simp add: NewRouter_def service_dependencies_def authenticate_def caller_def Let_def)
  show ?thesis
  proof (cases "caller = []")
    case True
    with run show ?thesis by (simp add: writeError_def)
  next
    case False
    with caller_of_eq [OF assms(1), of h] have c: "map_of callers (TrimPrefix (Header_Get ''Authorization'' h) ''Bearer '') = Some caller"
      by (auto simp: caller_def split: option.splits)
    from run False have run: "createHandler ?create h body caller d = (answer, d')" by simp
    show ?thesis
    proof (cases "\<exists>input. ?key \<noteq> [] \<and> length ?key \<le> 256 \<and> decodeJSON decode_createRequest body = Inr input \<and>
        in_DestinationID input \<noteq> [] \<and> in_Payload input \<noteq> []")
      case False
      with run show ?thesis
        by (auto simp: createHandler_def writeError_def Let_def split: if_splits sum.splits)
    next
      case True
      then obtain input where i: "?key \<noteq> []" "length ?key \<le> 256" "decodeJSON decode_createRequest body = Inr input"
        "in_DestinationID input \<noteq> []" "in_Payload input \<noteq> []" by blast
      obtain res obs d1 where cr: "Create (CreateOrGet jsonb tf (\<lambda>x. x) ft) registry now nid eventID caller ?key
          (in_DestinationID input) (in_Payload input) d = (res, obs, d1)" by (cases "Create (CreateOrGet jsonb tf (\<lambda>x. x) ft)
          registry now nid eventID caller ?key (in_DestinationID input) (in_Payload input) d")
      have out: "(answer, d') = (case res of Inl err \<Rightarrow>
            (if errors_is err ErrIdempotencyConflict then (writeError 409 ''idempotency_conflict'' ''Idempotency-Key was already used for a different request'', d1)
             else if errors_is err ErrUnknownDestination then (writeError 422 ''unknown_destination'' ''destination_id is not registered'', d1)
             else (writeError 500 ''internal_error'' ''request could not be accepted'', d1))
          | Inr (t, _) \<Rightarrow> (\<lparr>rp_status = 202, rp_body = JObj [(''notification_id'', JStr (task_ID t)), (''status'', JStr (status_string (task_Status t)))]\<rparr>, d1))"
        using run i cr by (simp add: createHandler_def Let_def split: sum.splits)
      show ?thesis
      proof (cases res)
        case (Inr te)
        obtain t existed where te: "te = (t, existed)" by fastforce
        from pg_intake.accepted_is_stored [OF cr [unfolded Inr te]] c \<open>caller \<noteq> []\<close> out Inr te i(3) decodeJSON_limit [OF i(3)]
        show ?thesis by auto
      next
        case (Inl err)
        have "d1 = d" if "errors_is err ErrIdempotencyConflict \<or> errors_is err ErrUnknownDestination"
          using Create_refused [OF cr [unfolded Inl] that] .
        moreover have "\<exists>t e err'. CreateOrGet jsonb tf (\<lambda>x. x) ft t e d = (Inl err', d1)"
          if "\<not> errors_is err ErrIdempotencyConflict" "\<not> errors_is err ErrUnknownDestination"
          using Create_error_of_store [OF cr [unfolded Inl] that] decoded_payload [OF i(3,5), of "in_DestinationID input"] by auto
        ultimately show ?thesis using out Inl by (simp add: writeError_def split: if_splits)
      qed
    qed
  qed
qed


section \<open>Witnesses\<close>

definition sample_header :: "string \<Rightarrow> header" where
  "sample_header token = [(''Authorization'', [''Bearer '' @ token]), (''Idempotency-Key'', [''order-7''])]"


text \<open>The body \<open>{"destination_id":"crm","payload":{}}\<close>, decoded.\<close>

definition sample_body :: string where
  "sample_body =
     ''{'' @ [CHR 0x22] @ ''destination_id'' @ [CHR 0x22] @ '':'' @ [CHR 0x22] @ ''crm'' @ [CHR 0x22] @ '','' @
     [CHR 0x22] @ ''payload'' @ [CHR 0x22] @ '':{}}''"

lemma decode_sample_body: "decodeJSON decode_createRequest sample_body = Inr \<lparr>in_DestinationID = ''crm'', in_Payload = ''{}''\<rparr>"
proof -
  have p: "parse sample_body = Done (JObj [(''destination_id'', JStr ''crm''), (''payload'', JObj [])]) []"
    by (simp add: sample_body_def evaluate_text unquote_plain htmlSafe_def cong: next_byte_weak_cong and_then_weak_cong)
  have m: "object_members sample_body =
      Done [(''destination_id'', JStr ''crm'', [CHR 0x22] @ ''crm'' @ [CHR 0x22]), (''payload'', JObj [], ''{}'')] []"
    by (simp add: sample_body_def object_members_def member_texts_numeral evaluate_text unquote_plain htmlSafe_def
        cong: next_byte_weak_cong and_then_weak_cong)
  have "limited sample_body = (sample_body, Sentinel EOF)" by (simp add: limited_def sample_body_def MaxRequestBodyBytes_def)
  with p m show ?thesis
    by (simp add: decodeJSON_def decode_createRequest_def Decode_def [of sample_body] Decode_spaces field_of_def zero_request_def)
qed

definition sample_dependencies :: "db dependencies" where
  "sample_dependencies = service_dependencies Some no_faults Completed sample_registry 0 ''n1'' ''e1'' [(''tok'', ''billing'')] []"

lemma sample_http_request:
  "TrimPrefix (Header_Get ''Authorization'' (sample_header ''tok'')) ''Bearer '' = ''tok''"
  "TrimSpace (Header_Get ''Idempotency-Key'' (sample_header ''tok'')) = ''order-7''"
proof -
  have k: "CanonicalHeaderKey ''Authorization'' = ''Authorization''" "CanonicalHeaderKey ''Idempotency-Key'' = ''Idempotency-Key''"
    by code_simp+
  have "TrimSpace ''order-7'' = ''order-7''" by (rule TrimSpace_plain) (simp_all add: plain_byte_def)
  then show "TrimPrefix (Header_Get ''Authorization'' (sample_header ''tok'')) ''Bearer '' = ''tok''"
    "TrimSpace (Header_Get ''Idempotency-Key'' (sample_header ''tok'')) = ''order-7''"
    by (simp_all add: sample_header_def Header_Get_def k TrimPrefix_def HasPrefix_def)
qed

lemma sample_creation:
  "\<exists>answer d'. NewRouter sample_dependencies (\<lambda>_. []) CreateEndpoint (sample_header ''tok'') sample_body empty_db = (answer, d') \<and>
     rp_status answer = 202 \<and> task_of d' ''n1'' \<noteq> None"
proof -
  obtain t d1 where c: "Create (CreateOrGet Some no_faults (\<lambda>x. x) Completed) sample_registry 0 ''n1'' ''e1'' ''billing''
      ''order-7'' ''crm'' ''{}'' empty_db = (Inr (t, False), ''accepted'', d1)" "task_of d1 ''n1'' \<noteq> None" using sample_first by auto
  have caller: "caller_of [(''tok'', ''billing'')] (sample_header ''tok'') = ''billing''" by (simp add: caller_of_def sample_http_request Let_def)
  from c decode_sample_body show ?thesis
    by (simp add: sample_dependencies_def NewRouter_def service_dependencies_def authenticate_def caller createHandler_def
        sample_http_request Let_def)
qed

lemma create_endpoint_witness:
  "\<exists>answer d'. NewRouter sample_dependencies (\<lambda>_. []) CreateEndpoint (sample_header ''tok'') sample_body empty_db =
       (answer, d') \<and> rp_status answer = 202 \<and> (\<exists>i st. stored_task d' (''billing'', ''order-7'') = Some (i, request_hash, st))"
proof -
  obtain answer d1 where r: "NewRouter sample_dependencies (\<lambda>_. []) CreateEndpoint (sample_header ''tok'') sample_body empty_db = (answer, d1)"
    "rp_status answer = 202" using sample_creation by blast
  have "distinct (map fst [(''tok'', ''billing'')])" by simp
  from create_endpoint [OF this r(1) [unfolded sample_dependencies_def]] r
  have "\<exists>i st. stored_task d1 (''billing'', ''order-7'') = Some (i, request_hash, st)"
    by (auto simp: sample_http_request decode_sample_body sample_hashed)
  with r show ?thesis by auto
qed

end
