(* ===== verification/Observability.thy ===== *)
theory Observability
  imports HttpApi
begin

text \<open>
  Health, log redaction and metrics (\<open>internal/observability\<close>). The Prometheus counters are
  natural numbers by name and label.
\<close>

section \<open>Health (health.go)\<close>

text \<open>A check is absent (nil) or yields an error or none.\<close>

type_synonym check = "error option option"

record checks =
  chk_Postgres :: check
  chk_RabbitMQ :: check
  chk_Destinations :: check

definition required_checks :: "string \<Rightarrow> checks \<Rightarrow> check list" where
  "required_checks role checks =
     [chk_Postgres checks] @
     (if role = ''publisher'' \<or> role = ''worker'' \<or> role = ''all'' then [chk_RabbitMQ checks] else []) @
     (if role = ''api'' \<or> role = ''worker'' \<or> role = ''all'' then [chk_Destinations checks] else [])"

text \<open>\<open>http.NotFound\<close> writes a plain text; its reply is given by the status alone.\<close>

definition health_ServeHTTP :: "string \<Rightarrow> checks \<Rightarrow> string \<Rightarrow> reply" where
  "health_ServeHTTP role checks path =
     (if path = ''/livez'' then \<lparr>rp_status = 200, rp_body = JObj [(''status'', JStr ''ok'')]\<rparr>
      else if path \<noteq> ''/readyz'' then \<lparr>rp_status = 404, rp_body = JNull\<rparr>
      else if list_ex (\<lambda>c. c \<noteq> Some None) (required_checks role checks)
      then \<lparr>rp_status = 503, rp_body = JObj [(''status'', JStr ''not_ready'')]\<rparr>
      else \<lparr>rp_status = 200, rp_body = JObj [(''status'', JStr ''ready'')]\<rparr>)"

section \<open>Redaction (logging.go)\<close>

text \<open>The attributes of a record: a value is text as the handler prints it, or a group.\<close>

datatype attr = Attr (attr_key: string) attr_value
  and attr_value = Plain string | Group "attr list"

definition sensitive_fragments :: "string list" where
  "sensitive_fragments = [''authorization'', ''token'', ''secret'', ''password'', ''body'', ''payload'']"

definition sensitive :: "(nat \<Rightarrow> nat) \<Rightarrow> string \<Rightarrow> bool" where
  "sensitive table key = list_ex (Contains (ToLower table key)) sensitive_fragments"

fun redact :: "(nat \<Rightarrow> nat) \<Rightarrow> attr \<Rightarrow> attr" where
  "redact table (Attr key v) =
     (if sensitive table key then Attr key (Plain ''[REDACTED]'')
      else case v of Group children \<Rightarrow> Attr key (Group (map (redact table) children)) | Plain s \<Rightarrow> Attr key (Plain s))"

definition redacting_Handle :: "(nat \<Rightarrow> nat) \<Rightarrow> attr list \<Rightarrow> attr list" where
  "redacting_Handle table attributes = map (redact table) attributes"

definition redacting_WithAttrs :: "(nat \<Rightarrow> nat) \<Rightarrow> ('h \<Rightarrow> attr list \<Rightarrow> 'h) \<Rightarrow> 'h \<Rightarrow> attr list \<Rightarrow> 'h" where
  "redacting_WithAttrs table withAttrs next_handler attributes = withAttrs next_handler (map (redact table) attributes)"

text \<open>The texts a record prints outside attributes whose key is sensitive, and inside them.\<close>

fun secrets_of :: "(nat \<Rightarrow> nat) \<Rightarrow> attr \<Rightarrow> string list" and texts_of :: "attr \<Rightarrow> string list" where
  "secrets_of table (Attr key v) =
     (if sensitive table key then texts_of (Attr key v)
      else case v of Plain s \<Rightarrow> [] | Group children \<Rightarrow> concat (map (secrets_of table) children))"
| "texts_of (Attr key v) = (case v of Plain s \<Rightarrow> [s] | Group children \<Rightarrow> concat (map texts_of children))"

fun public_texts :: "(nat \<Rightarrow> nat) \<Rightarrow> attr \<Rightarrow> string list" where
  "public_texts table (Attr key v) =
     (if sensitive table key then []
      else case v of Plain s \<Rightarrow> [s] | Group children \<Rightarrow> concat (map (public_texts table) children))"

lemma redact_key [simp]: "attr_key (redact table a) = attr_key a"
  by (cases a) (simp split: attr_value.splits)

lemma redact_secrets: "set (secrets_of table (redact table a)) \<subseteq> {''[REDACTED]''}"
proof (induction table a rule: redact.induct)
  case (1 table key v)
  then show ?case by (cases v) (auto simp: subset_iff)
qed

lemma redact_public: "public_texts table (redact table a) = public_texts table a"
proof (induction table a rule: redact.induct)
  case (1 table key v)
  then show ?case by (cases v) (auto simp: comp_def intro!: arg_cong [where f = concat])
qed

lemma redact_idem: "redact table (redact table a) = redact table a"
proof (induction table a rule: redact.induct)
  case (1 table key v)
  then show ?case by (cases v) auto
qed


section \<open>Metrics (metrics.go)\<close>

text \<open>
  A counter holds a double; the counts reached here are exact integers. A vector is a map from
  the outcome label to its counter.
\<close>

record metrics =
  Accepted :: "string \<Rightarrow> int"
  OutboxPublish :: "string \<Rightarrow> int"
  DeliveryAttempts :: "string \<Rightarrow> int"
  DeadCount :: int
  RetryScheduled :: int
  RecoveredCount :: int

definition NewMetrics :: metrics where
  "NewMetrics = \<lparr>Accepted = (\<lambda>_. 0), OutboxPublish = (\<lambda>_. 0), DeliveryAttempts = (\<lambda>_. 0), DeadCount = 0,
     RetryScheduled = 0, RecoveredCount = 0\<rparr>"

definition ObserveIntake :: "string \<Rightarrow> metrics \<Rightarrow> metrics" where
  "ObserveIntake outcome m = m\<lparr>Accepted := (Accepted m)(outcome := Accepted m outcome + 1)\<rparr>"

definition ObserveOutboxPublish :: "string \<Rightarrow> metrics \<Rightarrow> metrics" where
  "ObserveOutboxPublish outcome m = m\<lparr>OutboxPublish := (OutboxPublish m)(outcome := OutboxPublish m outcome + 1)\<rparr>"

definition ObserveDelivery :: "string \<Rightarrow> metrics \<Rightarrow> metrics" where
  "ObserveDelivery outcome m =
     (let m1 = m\<lparr>DeliveryAttempts := (DeliveryAttempts m)(outcome := DeliveryAttempts m outcome + 1)\<rparr>
      in if outcome = ''dead'' then m1\<lparr>DeadCount := DeadCount m1 + 1\<rparr> else m1)"

definition ObserveSchedule :: "schedule_result \<Rightarrow> metrics \<Rightarrow> metrics" where
  "ObserveSchedule result m =
     m\<lparr>RetryScheduled := RetryScheduled m + Scheduled result,
       RecoveredCount := RecoveredCount m + RecoveredLeases result, DeadCount := DeadCount m + Dead result\<rparr>"

end
