(* ===== verification/Consumer.thy ===== *)
theory Consumer
  imports Outbox JsonStruct
begin

text \<open>
  The consuming side of the RabbitMQ client (\<open>internal/messaging/rabbitmq/consumer.go\<close>) and the
  bytes of a message between \<open>Publish\<close> and \<open>Consume\<close>: what is rejected, what is forwarded, and
  that a published message is forwarded as it was.
\<close>

section \<open>The bytes of a message\<close>

text \<open>\<open>json.Marshal\<close> of a struct writes its fields in the order of their declaration.\<close>

definition marshal_message :: "message \<Rightarrow> string" where
  "marshal_message m =
     ''{'' @ comma_join (map print_member
       [(''event_id'', JStr (msg_EventID m)), (''notification_id'', JStr (msg_NotificationID m))]) @ ''}''"

definition zero_message :: message where
  "zero_message = \<lparr>msg_EventID = [], msg_NotificationID = []\<rparr>"

fun set_message_field :: "message \<times> error option \<Rightarrow> string \<times> json \<Rightarrow> message \<times> error option" where
  "set_message_field (m, saved) (key, v) =
     (case field_of [''event_id'', ''notification_id''] key of
        None \<Rightarrow> (m, saved)
      | Some name \<Rightarrow>
          if name = ''event_id''
          then (case string_field v (msg_EventID m) of
                  Inl err \<Rightarrow> (m, saveError saved err) | Inr s \<Rightarrow> (m\<lparr>msg_EventID := s\<rparr>, saved))
          else (case string_field v (msg_NotificationID m) of
                  Inl err \<Rightarrow> (m, saveError saved err) | Inr s \<Rightarrow> (m\<lparr>msg_NotificationID := s\<rparr>, saved)))"

definition unmarshal_message :: "string \<Rightarrow> error + message" where
  "unmarshal_message body =
     (case checkValid body of
        Inl err \<Rightarrow> Inl err
      | Inr (JObj kvs) \<Rightarrow>
          (case foldl set_message_field (zero_message, None) kvs of (m, None) \<Rightarrow> Inr m | (_, Some err) \<Rightarrow> Inl err)
      | Inr JNull \<Rightarrow> Inr zero_message
      | Inr _ \<Rightarrow> Inl UnmarshalTypeError)"

section \<open>Consume\<close>

record raw_delivery =
  raw_Body :: string
  raw_Redelivered :: bool

record delivery =
  dl_Message :: message
  dl_Redelivered :: bool
  dl_raw :: raw_delivery

text \<open>
  The goroutine over the raw deliveries: each is rejected without requeueing, or forwarded unless the
  \<open>select\<close> takes the end of the context, which ends the goroutine with the delivery unacknowledged.
  The flag of a delivery says which case its \<open>select\<close> takes.
\<close>

datatype consumed = Rejected raw_delivery | Forwarded delivery

fun consume_loop :: "(raw_delivery \<times> bool) list \<Rightarrow> consumed list" where
  "consume_loop [] = []"
| "consume_loop ((raw, cancelled) # rest) =
     (case unmarshal_message (raw_Body raw) of
        Inl _ \<Rightarrow> Rejected raw # consume_loop rest
      | Inr m \<Rightarrow>
          if msg_EventID m = [] \<or> msg_NotificationID m = [] then Rejected raw # consume_loop rest
          else if cancelled then []
          else Forwarded \<lparr>dl_Message = m, dl_Redelivered = raw_Redelivered raw, dl_raw = raw\<rparr> # consume_loop rest)"

definition Consume :: "error option \<Rightarrow> (raw_delivery \<times> bool) list \<Rightarrow> error + consumed list" where
  "Consume consumeErr raws =
     (case consumeErr of Some err \<Rightarrow> Inl (Errorf ''consume messages'' [err]) | None \<Rightarrow> Inr (consume_loop raws))"

section \<open>The round trip\<close>

lemma marshal_message_print:
  "marshal_message m = print_json (JObj [(''event_id'', JStr (msg_EventID m)), (''notification_id'', JStr (msg_NotificationID m))])"
  unfolding print_json_object by (simp add: marshal_message_def)

lemma unmarshal_marshal:
  assumes "utf8_valid (msg_EventID m)" "utf8_valid (msg_NotificationID m)"
  shows "unmarshal_message (marshal_message m) = Inr m"
proof -
  let ?v = "JObj [(''event_id'', JStr (msg_EventID m)), (''notification_id'', JStr (msg_NotificationID m))]"
  have "utf8_valid ''event_id''" "utf8_valid ''notification_id''" by (rule ascii_valid; simp add: ascii_def)+
  with assms have "any_ok ?v" by simp
  moreover have "fits maxNestingDepth ?v" by (simp add: maxNestingDepth_def numeral_eq_Suc)
  moreover have "sort_members ?v = ?v" by simp
  ultimately have "parse (marshal_message m) = Done ?v []"
    unfolding marshal_message_print using parse_print by metis
  then show ?thesis by (simp add: unmarshal_message_def checkValid_def field_of_def zero_message_def)
qed

text \<open>A rejected delivery has no usable message; a forwarded one carries the message its bytes encode.\<close>

fun consumed_ok :: "consumed \<Rightarrow> bool" where
  "consumed_ok (Rejected raw) =
     (case unmarshal_message (raw_Body raw) of Inl _ \<Rightarrow> True | Inr m \<Rightarrow> msg_EventID m = [] \<or> msg_NotificationID m = [])"
| "consumed_ok (Forwarded x) =
     (unmarshal_message (raw_Body (dl_raw x)) = Inr (dl_Message x) \<and> msg_EventID (dl_Message x) \<noteq> [] \<and>
      msg_NotificationID (dl_Message x) \<noteq> [])"

lemma consume_loop_ok: "list_all consumed_ok (consume_loop raws)"
  by (induction raws rule: consume_loop.induct) (auto split: sum.splits)

text \<open>The message of an event of the outbox, and the delivery that carries it.\<close>

abbreviation row_message :: "outbox_row \<Rightarrow> message" where
  "row_message e \<equiv> event_message (scan_event e)"

definition published :: "bool \<Rightarrow> outbox_row \<Rightarrow> raw_delivery" where
  "published redelivered e = \<lparr>raw_Body = marshal_message (row_message e), raw_Redelivered = redelivered\<rparr>"

lemma text_between_nonempty: "text_between (Suc 0) n s \<Longrightarrow> s \<noteq> [] \<and> utf8_valid s"
  by (auto simp: text_between_def pg_text_def char_length_def)

lemma row_message_unmarshal:
  assumes "db_wf d" "e \<in> set (outbox_events d)"
  shows "unmarshal_message (marshal_message (row_message e)) = Inr (row_message e) \<and>
    msg_EventID (row_message e) \<noteq> [] \<and> msg_NotificationID (row_message e) \<noteq> []"
proof -
  from assms obtain r where "r \<in> set (notification_tasks d)" "r_id r = o_aggregate_id e"
    by (auto simp: db_wf_def keys_wf_def image_iff)
  with assms have "text_between (Suc 0) 64 (o_aggregate_id e)" "text_between (Suc 0) 64 (o_id e)"
    by (auto simp: db_wf_def rows_wf_def task_row_ok_def outbox_row_ok_def)
  with text_between_nonempty unmarshal_marshal [of "row_message e"] show ?thesis
    by (simp add: event_message_def scan_event_def)
qed

lemma consume_published:
  assumes "db_wf d" "set es \<subseteq> set (outbox_events d)"
  shows "consume_loop (map (\<lambda>e. (published redelivered e, False)) es) =
    map (\<lambda>e. Forwarded \<lparr>dl_Message = row_message e, dl_Redelivered = redelivered, dl_raw = published redelivered e\<rparr>) es"
  using assms(2)
proof (induction es)
  case (Cons e es)
  with row_message_unmarshal [OF assms(1), of e] show ?case by (simp add: published_def)
qed simp

end
