(* ===== verification/App.thy ===== *)
theory App
  imports Config Observability Consumer
begin

text \<open>
  The process (\<open>internal/app\<close>, \<open>cmd/notifier\<close>): which parts a role runs and what its health
  checks look at, the loops that acknowledge messages and clean up, how the process ends, and the
  identifiers it draws.
\<close>

section \<open>Roles (RunConfigured)\<close>

text \<open>The parts \<open>RunConfigured\<close> starts for a role, each from its own condition on the role.\<close>

record wiring =
  loads_registry :: bool
  opens_publisher :: bool
  opens_worker :: bool
  serves_api :: bool
  runs_scheduler :: bool

definition wire :: "role \<Rightarrow> wiring" where
  "wire role =
     \<lparr>loads_registry = (role = RoleAPI \<or> role = RoleWorker \<or> role = RoleAll),
      opens_publisher = (role = RolePublisher \<or> role = RoleAll),
      opens_worker = (role = RoleWorker \<or> role = RoleAll),
      serves_api = (role = RoleAPI \<or> role = RoleAll),
      runs_scheduler = (role = RoleScheduler \<or> role = RoleAll)\<rparr>"

text \<open>Lines 65 to 70 of \<open>RunConfigured\<close>; \<open>pub\<close> and \<open>work\<close> are the health of the two clients.\<close>

definition wire_checks :: "wiring \<Rightarrow> error option \<Rightarrow> error option \<Rightarrow> error option \<Rightarrow> checks" where
  "wire_checks w pg pub work =
     \<lparr>chk_Postgres = Some pg,
      chk_RabbitMQ = (if opens_publisher w then Some pub else if opens_worker w then Some work else None),
      chk_Destinations = Some None\<rparr>"

section \<open>Loops\<close>

text \<open>
  The worker's loop over the deliveries until their channel is closed: each message is handled, then
  acknowledged or negatively acknowledged with or without requeueing.
\<close>

datatype settlement = Acked | Nacked bool

fun settle :: "disposition \<Rightarrow> settlement" where
  "settle Ack = Acked"
| "settle Requeue = Nacked True"
| "settle _ = Nacked False"

fun worker_loop :: "(message \<Rightarrow> 'w \<Rightarrow> disposition \<times> 'w) \<Rightarrow> message list \<Rightarrow> 'w \<Rightarrow> (message \<times> settlement) list \<times> 'w" where
  "worker_loop handle [] w = ([], w)"
| "worker_loop handle (m # ms) w =
     (let (d, w1) = handle m w; (rest, w2) = worker_loop handle ms w1 in ((m, settle d) # rest, w2))"

text \<open>The hourly loop of the cleaner, whose results are ignored.\<close>

fun cleaner_loop :: "('w \<Rightarrow> (int \<times> error option) \<times> 'w) \<Rightarrow> loop_event list \<Rightarrow> 'w \<Rightarrow> error option \<times> 'w" where
  "cleaner_loop runOnce [] w = (None, w)"
| "cleaner_loop runOnce (CtxDone e # _) w = (Some e, w)"
| "cleaner_loop runOnce (Tick # rest) w = cleaner_loop runOnce rest (snd (runOnce w))"

section \<open>Ending\<close>

text \<open>What the final \<open>select\<close> of \<open>RunConfigured\<close> receives: the end of its context, or a value of
  \<open>errChannel\<close>, which may be nil.\<close>

datatype ending = ContextDone | FromChannel "error option"

fun run_result :: "ending \<Rightarrow> error option" where
  "run_result ContextDone = None"
| "run_result (FromChannel None) = None"
| "run_result (FromChannel (Some err)) = (if errors_is err Canceled then None else Some err)"

text \<open>
  What a worker sends when its deliveries end: the error of the context, nil while the context goes
  on. So a worker whose broker connection is lost ends the process without an error.
\<close>

definition worker_ending :: "error option \<Rightarrow> ending" where
  "worker_ending ctxErr = FromChannel ctxErr"

lemma lost_connection_looks_clean: "run_result (worker_ending None) = None"
  by (simp add: worker_ending_def)

text \<open>
  \<open>app.Run\<close>: the first of the end of its parent and the return of a role, then the wait for the
  workers; the result and whether the roles were told to stop claiming before the wait.
\<close>

datatype run_event = ParentDone | RoleReturned "error option"
datatype wait_event = WorkersDone | ShutdownElapsed

definition app_Run :: "run_event \<Rightarrow> wait_event \<Rightarrow> error option" where
  "app_Run first wait =
     (let waited = (case wait of WorkersDone \<Rightarrow> None | ShutdownElapsed \<Rightarrow> Some (New ''graceful shutdown exceeded''))
      in case first of
           ParentDone \<Rightarrow> waited
         | RoleReturned None \<Rightarrow> waited
         | RoleReturned (Some err) \<Rightarrow> if errors_is err Canceled then waited else Some (Errorf ''role failed'' [err]))"

text \<open>\<open>main\<close>: the exit status of the process for the value of its flag.\<close>

definition main_exit :: "string \<Rightarrow> (string \<Rightarrow> string option) \<Rightarrow> (runtime \<Rightarrow> error option) \<Rightarrow> int" where
  "main_exit roleValue lookupEnv runConfigured =
     (case ParseRole roleValue of
        Inl err \<Rightarrow> 2
      | Inr role \<Rightarrow>
          (case LoadRuntime role lookupEnv of
             Inl err \<Rightarrow> 2
           | Inr cfg \<Rightarrow> (case runConfigured cfg of Some err \<Rightarrow> 1 | None \<Rightarrow> 0)))"

section \<open>Identifiers\<close>

text \<open>\<open>newID\<close>: \<open>random\<close> is what the source of randomness returns; without it the process panics.\<close>

definition newID :: "string option \<Rightarrow> string option" where
  "newID random = map_option (\<lambda>bytes. hex_EncodeToString (take 16 bytes)) random"

section \<open>Properties\<close>

text \<open>
  C36. The conditions on the role in the configuration, the wiring and the readiness check agree: a
  configuration that loads has every setting the parts started for its role use, with tokens
  that are not empty and belong to one identity each; no check that readiness requires is missing;
  and the process is ready exactly when the database and the broker client its role uses are.
\<close>

theorem roles_consistent:
  assumes "LoadRuntime role lookup = Inr cfg"
  shows "rt_DatabaseURL cfg \<noteq> [] \<and>
    (opens_publisher (wire role) \<or> opens_worker (wire role) \<longrightarrow> rt_RabbitMQURL cfg \<noteq> []) \<and>
    (loads_registry (wire role) \<longrightarrow> rt_DestinationsFile cfg \<noteq> []) \<and>
    (if serves_api (wire role)
     then rt_HTTPAddr cfg \<noteq> [] \<and> rt_CallerTokens cfg \<noteq> [] \<and> rt_AdminTokens cfg \<noteq> [] \<and>
       tokens_ok (rt_CallerTokens cfg) \<and> tokens_ok (rt_AdminTokens cfg)
     else rt_MetricsAddr cfg \<noteq> []) \<and>
    (\<forall>c \<in> set (required_checks (role_string role) (wire_checks (wire role) pg pub work)). c \<noteq> None) \<and>
    (rp_status (health_ServeHTTP (role_string role) (wire_checks (wire role) pg pub work) ''/readyz'') = 200 \<longleftrightarrow>
       pg = None \<and> (opens_publisher (wire role) \<longrightarrow> pub = None) \<and>
       (opens_worker (wire role) \<and> \<not> opens_publisher (wire role) \<longrightarrow> work = None))"
  using assms
  by (cases role) (auto simp: LoadRuntime_def Let_def wire_def wire_checks_def required_checks_def health_ServeHTTP_def
      parseTokens_ok split: if_splits)

text \<open>
  C22. No announced notification is thrown away: every message the publisher sends for an event of the
  outbox is forwarded by \<open>Consume\<close> exactly as it was, first time or redelivered, and what the
  worker's loop then does with it is to acknowledge it or to put it back; nothing but a delivery
  without two identifiers is dropped, and the loop settles every message once, in order.
\<close>

theorem published_never_discarded:
  assumes "db_wf d" "set es \<subseteq> set (outbox_events d)"
    and "handle = (\<lambda>m w. let h = Handle claim apply (acquire m) (send m) jitter between ttl (lease m) (now m) (completed m) m w
      in (hd_disposition h, hd_db h))"
    and "raws = map (\<lambda>e. (published redelivered e, False)) es"
  shows "Consume None raws = Inr (map (\<lambda>e. Forwarded \<lparr>dl_Message = row_message e, dl_Redelivered = redelivered,
      dl_raw = published redelivered e\<rparr>) es) \<and>
    map fst (fst (worker_loop handle (map row_message es) w)) = map row_message es \<and>
    list_all (\<lambda>s. s = Acked \<or> s = Nacked True) (map snd (fst (worker_loop handle (map row_message es) w))) \<and>
    list_all consumed_ok (consume_loop others)"
proof -
  have loop: "map fst (fst (worker_loop handle ms w)) = ms \<and>
      list_all (\<lambda>s. s = Acked \<or> s = Nacked True) (map snd (fst (worker_loop handle ms w)))" for ms w
  proof (induction ms arbitrary: w)
    case (Cons m ms)
    obtain x w1 where h: "handle m w = (x, w1)" by fastforce
    have "hd_disposition (Handle claim apply (acquire m) (send m) jitter between ttl (lease m) (now m) (completed m) m w) \<noteq> Reject"
      by (rule Handle_never_rejects)
    with h have "x \<noteq> Reject" by (auto simp: assms(3) Let_def)
    then have "settle x = Acked \<or> settle x = Nacked True" by (cases x) simp_all
    with Cons.IH [of w1] h show ?case by (simp add: case_prod_unfold Let_def)
  qed simp
  from consume_published [OF assms(1,2)] have "Consume None raws = Inr (map (\<lambda>e. Forwarded \<lparr>dl_Message = row_message e,
      dl_Redelivered = redelivered, dl_raw = published redelivered e\<rparr>) es)" by (simp add: Consume_def assms(4))
  with loop consume_loop_ok show ?thesis by blast
qed

lemma published_never_discarded_witness:
  "Consume None [(published True (sample_event None None), False)] =
     Inr [Forwarded \<lparr>dl_Message = sample_message, dl_Redelivered = True, dl_raw = published True (sample_event None None)\<rparr>]"
proof -
  have "set [sample_event None None] \<subseteq> set (outbox_events (fresh_db None))" by (simp add: fresh_db_def)
  from published_never_discarded [where redelivered = True, OF fresh_db_wf this refl refl, THEN conjunct1] show ?thesis
    by (simp add: event_message_def scan_event_def sample_message_def)
qed

text \<open>A pass that is counted: the first component of the state is the number of passes made.\<close>

definition counted :: "('w \<Rightarrow> 'r \<times> 'w) \<Rightarrow> nat \<times> 'w \<Rightarrow> 'r \<times> (nat \<times> 'w)" where
  "counted runOnce s = (case runOnce (snd s) of (r, w) \<Rightarrow> (r, (fst s + 1, w)))"

lemma counted_pass: "runOnce w = (r, w1) \<Longrightarrow> counted runOnce (n, w) = (r, (n + 1, w1))"
  by (simp add: counted_def)

lemma outbox_Run_stops:
  "CtxDone e \<in> set events \<Longrightarrow> \<exists>err k w'. outbox_Run (counted runOnce) events (n, w) = (Some err, (n + k, w')) \<and>
     1 \<le> k \<and> k \<le> 1 + length (takeWhile (\<lambda>x. x = Tick) events)"
proof (induction events arbitrary: n w)
  case (Cons x events)
  obtain r w1 where r: "runOnce w = (r, w1)" by fastforce
  note step = outbox_Run.simps [of "counted runOnce" "x # events" "(n, w)"] counted_pass [of runOnce, OF r]
  show ?case
  proof (cases "r \<noteq> None \<and> \<not> errors_is (the r) Canceled")
    case True
    then show ?thesis by (auto simp: step intro: exI [of _ 1])
  next
    case False
    show ?thesis
    proof (cases x)
      case Tick
      with Cons.prems have "CtxDone e \<in> set events" by simp
      from Cons.IH [OF this, of "n + 1" w1] obtain err k w' where
        k: "outbox_Run (counted runOnce) events (n + 1, w1) = (Some err, (n + 1 + k, w'))"
        "1 \<le> k" "k \<le> 1 + length (takeWhile (\<lambda>x. x = Tick) events)" by blast
      then show ?thesis using False unfolding Tick
        by (intro exI [of _ err] exI [of _ "k + 1"] exI [of _ w']) (auto simp: step [unfolded Tick])
    next
      case (CtxDone e')
      with False show ?thesis by (intro exI [of _ e'] exI [of _ 1] exI [of _ w1]) (auto simp: step [unfolded CtxDone] CtxDone)
    qed
  qed
qed simp

lemma retry_Run_stops:
  "CtxDone e \<in> set (map snd events) \<Longrightarrow> \<exists>err k w'. retry_Run (counted runOnce) events (n, w) = (Some err, (n + k, w')) \<and>
     k \<le> 1 + length (takeWhile (\<lambda>x. x = (None, Tick)) events)"
proof (induction events arbitrary: n w)
  case (Cons x events)
  obtain c chosen where x: "x = (c, chosen)" by fastforce
  show ?case
  proof (cases c)
    case (Some err)
    then show ?thesis by (auto simp: x intro: exI [of _ 0])
  next
    case None
    obtain r w1 where r: "runOnce w = (r, w1)" by fastforce
    note step = counted_pass [of runOnce, OF r]
    show ?thesis
    proof (cases "r = None \<and> chosen = Tick")
      case True
      with Cons.prems x have "CtxDone e \<in> set (map snd events)" by simp
      from Cons.IH [OF this, of "n + 1" w1] obtain err k w' where
        k: "retry_Run (counted runOnce) events (n + 1, w1) = (Some err, (n + 1 + k, w'))"
        "k \<le> 1 + length (takeWhile (\<lambda>x. x = (None, Tick)) events)" by blast
      then show ?thesis using True None x by (intro exI [of _ err] exI [of _ "k + 1"] exI [of _ w']) (auto simp: step)
    next
      case False
      with None x show ?thesis by (cases r; cases chosen) (auto simp: step intro: exI [of _ 1])
    qed
  qed
qed simp

lemma cleaner_loop_stops:
  "CtxDone e \<in> set events \<Longrightarrow> \<exists>err w'. cleaner_loop (counted runOnce) events (n, w) =
     (Some err, (n + length (takeWhile (\<lambda>x. x = Tick) events), w'))"
proof (induction events arbitrary: n w)
  case (Cons x events)
  obtain r w1 where "runOnce w = (r, w1)" by fastforce
  note step = counted_pass [of runOnce, OF this]
  show ?case
  proof (cases x)
    case Tick
    with Cons.prems Cons.IH [of "n + 1" w1] show ?thesis by (auto simp: step)
  qed simp
qed simp



definition sample_env :: "string \<Rightarrow> string option" where
  "sample_env = map_of [(''DATABASE_URL'', ''postgres://db''), (''RABBITMQ_URL'', ''amqp://mq'')]"

lemma roles_consistent_witness:
  "\<exists>cfg. LoadRuntime RolePublisher sample_env = Inr cfg \<and> rt_RabbitMQURL cfg \<noteq> [] \<and>
     rp_status (health_ServeHTTP ''publisher'' (wire_checks (wire RolePublisher) None None None) ''/readyz'') = 200"
proof -
  have "TrimSpace ''postgres://db'' = ''postgres://db''" "TrimSpace ''amqp://mq'' = ''amqp://mq''"
    by (rule TrimSpace_plain; simp add: plain_byte_def)+
  then obtain cfg where c: "LoadRuntime RolePublisher sample_env = Inr cfg"
    by (simp add: LoadRuntime_def sample_env_def Let_def)
  from roles_consistent [OF c, of None None None] c show ?thesis by (simp add: wire_def)
qed

end
