(* ===== verification/Assembly.thy ===== *)
theory Assembly
  imports App
begin

text \<open>
  The services as their constructors build them: the interfaces, the settings and the observer each
  keeps, an operation of each with its observer told, and what the metrics count when they are
  the observer of all of them, as in \<open>RunConfigured\<close>.
\<close>

section \<open>Observers\<close>

text \<open>The constructors take observers as further arguments: the first one, when it is given and not nil.\<close>

definition first_observer :: "'o \<Rightarrow> 'o option list \<Rightarrow> 'o" where
  "first_observer noop observers =
     (let observer = noop
      in if 0 < length observers \<and> observers ! 0 \<noteq> None then the (observers ! 0) else observer)"

lemma first_observer_simps [simp]:
  "first_observer noop [] = noop" "first_observer noop (None # os) = noop" "first_observer noop (Some ob # os) = ob"
  by (simp_all add: first_observer_def)

definition noop_observer :: "'a \<Rightarrow> 'm \<Rightarrow> 'm" where
  "noop_observer _ m = m"

section \<open>Intake (intake.New)\<close>

record ('w, 'm) intake_service =
  is_repository :: "task \<Rightarrow> outbox_event \<Rightarrow> 'w \<Rightarrow> (error + task option) \<times> 'w"
  is_registry :: registry
  is_observer :: "string \<Rightarrow> 'm \<Rightarrow> 'm"

definition intake_New ::
  "(task \<Rightarrow> outbox_event \<Rightarrow> 'w \<Rightarrow> (error + task option) \<times> 'w) \<Rightarrow> registry \<Rightarrow> (string \<Rightarrow> 'm \<Rightarrow> 'm) option list \<Rightarrow> ('w, 'm) intake_service" where
  "intake_New repository registry observers =
     \<lparr>is_repository = repository, is_registry = registry, is_observer = first_observer noop_observer observers\<rparr>"

definition intake_Create ::
  "('w, 'm) intake_service \<Rightarrow> time \<Rightarrow> string \<Rightarrow> string \<Rightarrow> string \<Rightarrow> string \<Rightarrow> string \<Rightarrow> string \<Rightarrow> 'w \<times> 'm
    \<Rightarrow> (error + task \<times> bool) \<times> ('w \<times> 'm)" where
  "intake_Create s now nid eventID caller key dst payload wm =
     (case Create (is_repository s) (is_registry s) now nid eventID caller key dst payload (fst wm) of
        (res, outcome, w) \<Rightarrow> (res, (w, is_observer s outcome (snd wm))))"

section \<open>Outbox (outbox.NewService)\<close>

record outbox_config =
  oc_BatchSize :: nat
  oc_ClaimTTL :: duration
  oc_PollInterval :: duration

record ('w, 'm) outbox_service =
  os_claim :: "time \<Rightarrow> nat \<Rightarrow> string \<Rightarrow> time \<Rightarrow> 'w \<Rightarrow> (error + outbox_event list) \<times> 'w"
  os_mark :: "string \<Rightarrow> string \<Rightarrow> time \<Rightarrow> 'w \<Rightarrow> (error + bool) \<times> 'w"
  os_publish :: "message \<Rightarrow> 'w \<Rightarrow> error option \<times> 'w"
  os_config :: outbox_config
  os_observer :: "string \<Rightarrow> 'm \<Rightarrow> 'm"

definition outbox_NewService ::
  "(time \<Rightarrow> nat \<Rightarrow> string \<Rightarrow> time \<Rightarrow> 'w \<Rightarrow> (error + outbox_event list) \<times> 'w) \<Rightarrow>
   (string \<Rightarrow> string \<Rightarrow> time \<Rightarrow> 'w \<Rightarrow> (error + bool) \<times> 'w) \<Rightarrow> (message \<Rightarrow> 'w \<Rightarrow> error option \<times> 'w) \<Rightarrow>
   outbox_config \<Rightarrow> (string \<Rightarrow> 'm \<Rightarrow> 'm) option list \<Rightarrow> ('w, 'm) outbox_service" where
  "outbox_NewService claim mark publish config observers =
     \<lparr>os_claim = claim, os_mark = mark, os_publish = publish, os_config = config,
      os_observer = first_observer noop_observer observers\<rparr>"

definition outbox_pass ::
  "('w, 'm) outbox_service \<Rightarrow> time \<Rightarrow> (nat \<Rightarrow> time) \<Rightarrow> string \<Rightarrow> 'w \<times> 'm \<Rightarrow> (int \<times> error option) \<times> ('w \<times> 'm)" where
  "outbox_pass s now clock token wm =
     (case outbox_RunOnce (os_claim s) (os_publish s) (os_mark s) (oc_BatchSize (os_config s)) (oc_ClaimTTL (os_config s))
             now clock token (fst wm) of
        (res, outcomes, w) \<Rightarrow> (res, (w, fold (os_observer s) outcomes (snd wm))))"

section \<open>Delivery (delivery.NewService)\<close>

record ('w, 'm) delivery_service =
  ds_claim :: "string \<Rightarrow> string \<Rightarrow> time \<Rightarrow> 'w \<Rightarrow> (error + claim) \<times> 'w"
  ds_apply :: "string \<Rightarrow> string \<Rightarrow> attempt_result \<Rightarrow> 'w \<Rightarrow> (error + bool) \<times> 'w"
  ds_sender :: "delivery_snapshot \<Rightarrow> send_result"
  ds_limiter :: "string \<Rightarrow> int \<Rightarrow> error option"
  ds_jitter :: "(duration \<Rightarrow> duration) option"
  ds_leaseTTL :: duration
  ds_observer :: "string \<Rightarrow> 'm \<Rightarrow> 'm"

definition delivery_NewService ::
  "(string \<Rightarrow> string \<Rightarrow> time \<Rightarrow> 'w \<Rightarrow> (error + claim) \<times> 'w) \<Rightarrow>
   (string \<Rightarrow> string \<Rightarrow> attempt_result \<Rightarrow> 'w \<Rightarrow> (error + bool) \<times> 'w) \<Rightarrow>
   (delivery_snapshot \<Rightarrow> send_result) \<Rightarrow> (string \<Rightarrow> int \<Rightarrow> error option) \<Rightarrow> (duration \<Rightarrow> duration) option \<Rightarrow>
   duration \<Rightarrow> (string \<Rightarrow> 'm \<Rightarrow> 'm) option list \<Rightarrow> ('w, 'm) delivery_service" where
  "delivery_NewService claim apply_result send acquire jitter leaseTTL observers =
     \<lparr>ds_claim = claim, ds_apply = apply_result, ds_sender = send, ds_limiter = acquire, ds_jitter = jitter,
      ds_leaseTTL = leaseTTL, ds_observer = first_observer noop_observer observers\<rparr>"

definition delivery_Handle ::
  "('w, 'm) delivery_service \<Rightarrow> ('w \<Rightarrow> 'w) \<Rightarrow> string \<Rightarrow> time \<Rightarrow> time \<Rightarrow> message \<Rightarrow> 'w \<times> 'm \<Rightarrow> disposition \<times> ('w \<times> 'm)" where
  "delivery_Handle s between lease now completed m wm =
     (let h = Handle (ds_claim s) (ds_apply s) (ds_limiter s) (ds_sender s) (ds_jitter s) between (ds_leaseTTL s)
                lease now completed m (fst wm)
      in (hd_disposition h,
          (hd_db h, case hd_observed h of None \<Rightarrow> snd wm | Some outcome \<Rightarrow> ds_observer s outcome (snd wm))))"

section \<open>Retry and retention\<close>

record retry_config =
  rc_BatchSize :: nat
  rc_PollInterval :: duration

record ('w, 'm) retry_service =
  rs_repository :: "time \<Rightarrow> nat \<Rightarrow> 'w \<Rightarrow> (schedule_result \<times> error option) \<times> 'w"
  rs_config :: retry_config
  rs_observer :: "schedule_result \<Rightarrow> 'm \<Rightarrow> 'm"

definition retry_NewService ::
  "(time \<Rightarrow> nat \<Rightarrow> 'w \<Rightarrow> (schedule_result \<times> error option) \<times> 'w) \<Rightarrow> retry_config \<Rightarrow>
   (schedule_result \<Rightarrow> 'm \<Rightarrow> 'm) option list \<Rightarrow> ('w, 'm) retry_service" where
  "retry_NewService repository config observers =
     \<lparr>rs_repository = repository, rs_config = config, rs_observer = first_observer noop_observer observers\<rparr>"

definition retry_pass ::
  "('w, 'm) retry_service \<Rightarrow> time \<Rightarrow> 'w \<times> 'm \<Rightarrow> (schedule_result \<times> error option) \<times> ('w \<times> 'm)" where
  "retry_pass s now wm =
     (case retry_RunOnce (rs_repository s) now (rc_BatchSize (rs_config s)) (fst wm) of
        (res, results, w) \<Rightarrow> (res, (w, fold (rs_observer s) results (snd wm))))"

record retention_config =
  tc_Retention :: duration
  tc_BatchSize :: nat
  tc_PollInterval :: duration

record 'w retention_service =
  ts_repository :: "time \<Rightarrow> nat \<Rightarrow> 'w \<Rightarrow> (error + int) \<times> 'w"
  ts_config :: retention_config

definition retention_NewService ::
  "(time \<Rightarrow> nat \<Rightarrow> 'w \<Rightarrow> (error + int) \<times> 'w) \<Rightarrow> retention_config \<Rightarrow> 'w retention_service" where
  "retention_NewService repository config = \<lparr>ts_repository = repository, ts_config = config\<rparr>"

definition retention_pass :: "'w retention_service \<Rightarrow> time \<Rightarrow> 'w \<Rightarrow> (int \<times> error option) \<times> 'w" where
  "retention_pass s now w =
     retention_RunOnce (ts_repository s) (tc_Retention (ts_config s)) now (tc_BatchSize (ts_config s)) w"

section \<open>Queries and replays\<close>

record 'w query_repository =
  qr_GetForCaller :: "string \<Rightarrow> string \<Rightarrow> 'w \<Rightarrow> error + task"
  qr_ReplayDeadAtomic :: "string \<Rightarrow> time \<Rightarrow> string \<Rightarrow> 'w \<Rightarrow> (error + bool) \<times> 'w"

record 'w query_service =
  qs_repository :: "'w query_repository"

record 'w replay_service =
  ps_repository :: "'w query_repository"

definition NewQueryService :: "'w query_repository \<Rightarrow> 'w query_service" where
  "NewQueryService repository = \<lparr>qs_repository = repository\<rparr>"

definition NewReplayService :: "'w query_repository \<Rightarrow> 'w replay_service" where
  "NewReplayService repository = \<lparr>ps_repository = repository\<rparr>"

definition query_Get :: "'w query_service \<Rightarrow> string \<Rightarrow> string \<Rightarrow> 'w \<Rightarrow> error + view" where
  "query_Get s = QueryService_Get (qr_GetForCaller (qs_repository s))"

definition replay_Replay :: "'w replay_service \<Rightarrow> time \<Rightarrow> string \<Rightarrow> string \<Rightarrow> string \<Rightarrow> 'w \<Rightarrow> error option \<times> 'w" where
  "replay_Replay s = Replay (qr_ReplayDeadAtomic (ps_repository s))"

section \<open>The API as it is wired\<close>

text \<open>
  The dependencies of the router as \<open>RunConfigured\<close> builds them: the store is the repository of all
  three services, and the metrics observe the intake. The state is the database with the metrics.
\<close>

definition pg_queries :: "tx_faults \<Rightarrow> fault \<Rightarrow> db query_repository" where
  "pg_queries tf ft = \<lparr>qr_GetForCaller = GetForCaller ft, qr_ReplayDeadAtomic = ReplayDeadAtomic tf\<rparr>"

definition api_dependencies ::
  "(string \<Rightarrow> string option) \<Rightarrow> tx_faults \<Rightarrow> fault \<Rightarrow> registry \<Rightarrow> time \<Rightarrow> string \<Rightarrow> string \<Rightarrow>
   (string, string) gomap \<Rightarrow> (string, string) gomap \<Rightarrow> (db \<times> metrics) dependencies" where
  "api_dependencies jsonb tf ft registry now nid eventID callers admins =
     (let intakeService = intake_New (CreateOrGet jsonb tf (\<lambda>x. x) ft) registry [Some ObserveIntake]
      in \<lparr>Creator = intake_Create intakeService now nid eventID,
          Querier = (\<lambda>caller i dm. query_Get (NewQueryService (pg_queries tf ft)) caller i (fst dm)),
          Replayer = (\<lambda>admin i dm. case replay_Replay (NewReplayService (pg_queries tf ft)) now eventID admin i (fst dm) of
             (err, d') \<Rightarrow> (err, (d', snd dm))),
          CallerTokens = callers, AdminTokens = admins\<rparr>)"

text \<open>The metrics never change an answer or the database, so what is proved of the router holds of the wired API.\<close>

lemma createHandler_wired:
  "createHandler (intake_Create (intake_New repository registry [Some ObserveIntake]) now nid eventID) h body caller (d, m) =
     (answer, (d', m')) \<Longrightarrow>
   createHandler (\<lambda>caller key dst payload d. let (res, _, d') = Create repository registry now nid eventID caller key dst payload d
     in (res, d')) h body caller d = (answer, d')"
  by (auto simp: createHandler_def intake_Create_def intake_New_def Let_def split: if_splits sum.splits prod.splits)

lemma router_ignores_metrics:
  assumes "NewRouter (api_dependencies jsonb tf ft registry now nid eventID callers admins) show_time e h body (d, m) = (answer, (d', m'))"
  shows "NewRouter (service_dependencies jsonb tf ft registry now nid eventID callers admins) show_time e h body d = (answer, d')"
proof (cases e)
  case CreateEndpoint
  with assms createHandler_wired [of "CreateOrGet jsonb tf (\<lambda>x. x) ft" registry now nid eventID h body _ d m answer d' m'] show ?thesis
    by (auto simp: NewRouter_def api_dependencies_def service_dependencies_def authenticate_def Let_def split: if_splits)
next
  case (QueryEndpoint i)
  with assms show ?thesis
    by (auto simp: NewRouter_def api_dependencies_def service_dependencies_def authenticate_def Let_def queryHandler_def query_Get_def
        NewQueryService_def pg_queries_def split: if_splits sum.splits)
next
  case (ReplayEndpoint i)
  with assms show ?thesis
    by (auto simp: NewRouter_def api_dependencies_def service_dependencies_def authenticate_def Let_def replayHandler_def replay_Replay_def
        NewReplayService_def pg_queries_def split: if_splits prod.splits option.splits)
qed

section \<open>What the metrics count\<close>

definition intake_outcomes :: "string list" where
  "intake_outcomes = [''accepted'', ''unknown_destination'', ''invalid_payload'', ''internal_error'', ''idempotency_conflict'']"

definition publish_outcomes :: "string list" where
  "publish_outcomes = [''confirmed'', ''failed'']"

definition delivery_outcomes :: "string list" where
  "delivery_outcomes = [''delivered'', ''retryable'', ''dead'']"

text \<open>The number of reports of each label, and their total over some labels.\<close>

definition counter_total :: "string list \<Rightarrow> (string \<Rightarrow> int) \<Rightarrow> int" where
  "counter_total labels c = sum_list (map c labels)"

lemma Create_outcome:
  "Create repository registry now nid eventID caller key dst payload d = (res, outcome, d') \<Longrightarrow>
   outcome \<in> set intake_outcomes \<and> ((\<exists>x. res = Inr x) \<longleftrightarrow> outcome = ''accepted'')"
  by (auto simp: Create_def Let_def intake_outcomes_def split: option.splits sum.splits prod.splits if_splits)

lemma Handle_outcome:
  "hd_observed (Handle c a acq snd' j b ttl l now cpl m d) = Some outcome \<Longrightarrow> outcome \<in> set delivery_outcomes"
proof -
  have "observed_outcome x \<in> set delivery_outcomes" for x
    by (cases "ar_Outcome x") (simp_all add: observed_outcome_def delivery_outcomes_def)
  then show "hd_observed (Handle c a acq snd' j b ttl l now cpl m d) = Some outcome \<Longrightarrow> outcome \<in> set delivery_outcomes"
    by (auto simp: Handle_def Let_def split: prod.splits sum.splits option.splits bool.splits)
qed

lemma publish_loop_outcomes:
  "publish_loop publish mark clock token k events n obs w = ((n', err), obs', w') \<Longrightarrow>
   \<exists>oks. obs' = obs @ replicate oks ''confirmed'' @ (if err = None then [] else [''failed'']) \<and> n' = n + int oks"
proof (induction events arbitrary: w k n obs)
  case (Cons e events)
  obtain perr w1 where p: "publish (event_message e) w = (perr, w1)" by fastforce
  obtain res w2 where m: "mark (event_ID e) token (clock k) w1 = (res, w2)" by fastforce
  show ?case
  proof (cases "perr = None \<and> res = Inr True")
    case True
    with Cons.IH [of "k + 1" "n + 1" "obs @ [''confirmed'']" w2] Cons.prems p m obtain oks where
      "obs' = (obs @ [''confirmed'']) @ replicate oks ''confirmed'' @ (if err = None then [] else [''failed''])" "n' = n + 1 + int oks"
      by auto
    then show ?thesis by (intro exI [of _ "Suc oks"]) simp
  next
    case False
    show ?thesis
    proof (cases "perr = None \<and> res = Inr False")
      case True
      with Cons.IH [of "k + 1" n obs w2] Cons.prems p m show ?thesis by simp
    next
      case False
      with \<open>\<not> (perr = None \<and> res = Inr True)\<close> Cons.prems p m show ?thesis
        by (cases perr; cases res) (auto intro: exI [of _ 0])
    qed
  qed
qed (auto intro: exI [of _ 0])

lemma RunOnce_outcomes:
  assumes "outbox_RunOnce claim publish mark batchSize claimTTL now clock token w = ((n, err), obs, w')"
  shows "\<exists>oks fails. obs = replicate oks ''confirmed'' @ replicate fails ''failed'' \<and> n = int oks \<and> fails \<le> 1 \<and> (err = None \<longrightarrow> fails = 0)"
proof (cases "claim now batchSize token (Add now claimTTL) w")
  case (Pair claimed w1)
  show ?thesis
  proof (cases claimed)
    case (Inl er)
    with assms Pair show ?thesis by (auto simp: outbox_RunOnce_def intro: exI [of _ 0])
  next
    case (Inr es)
    with assms Pair publish_loop_outcomes [of publish mark clock token 0 es 0 "[]" w1 n err obs w'] obtain oks where
      "obs = replicate oks ''confirmed'' @ (if err = None then [] else [''failed''])" "n = int oks"
      by (auto simp: outbox_RunOnce_def)
    then show ?thesis by (intro exI [of _ oks] exI [of _ "if err = None then 0 else 1"]) auto
  qed
qed

lemma fold_ObserveOutboxPublish:
  "OutboxPublish (fold ObserveOutboxPublish outcomes m) o1 = OutboxPublish m o1 + int (count_list outcomes o1) \<and>
   DeadCount (fold ObserveOutboxPublish outcomes m) = DeadCount m"
  by (induction outcomes arbitrary: m) (auto simp: ObserveOutboxPublish_def)

text \<open>
  The metrics count what happened, by labels from a fixed set: one request is one report among five
  outcomes, and \<open>accepted\<close> exactly when the caller is told so; a pass of the publisher adds to
  \<open>confirmed\<close> the number it returns and to \<open>failed\<close> at most one, none when it succeeds; a
  delivery is reported at most once, as delivered, retryable or dead, the last also as a death,
  and only with its message acknowledged; and a pass of the scheduler adds the counts it returns, or nothing
  when it fails.
\<close>

theorem metrics_agree:
  assumes "intake_Create (intake_New repository registry [Some ObserveIntake]) now nid eventID caller key dst payload (w, m) = (created, (w1, m1))"
    and "outbox_pass (outbox_NewService claimOutbox mark publish oconf [Some ObserveOutboxPublish]) now clock token (v, k) = ((n, err), (v1, k1))"
    and "delivery_Handle (delivery_NewService claim apply_result send acquire jitter ttl [Some ObserveDelivery])
      between lease now completed msg (u, x) = (d, (u1, x1))"
    and "retry_pass (retry_NewService scheduleDue rconf [Some ObserveSchedule]) now (z, y) = ((result, rerr), (z1, y1))"
  shows "counter_total intake_outcomes (Accepted m1) = counter_total intake_outcomes (Accepted m) + 1 \<and>
    Accepted m1 ''accepted'' = Accepted m ''accepted'' + (if isl created then 0 else 1) \<and>
    OutboxPublish k1 ''confirmed'' = OutboxPublish k ''confirmed'' + n \<and>
    OutboxPublish k1 ''failed'' - OutboxPublish k ''failed'' \<in> {0, if err = None then 0 else 1} \<and>
    (x1 = x \<or> d = Ack \<and> (\<exists>outcome \<in> set delivery_outcomes. x1 = ObserveDelivery outcome x)) \<and>
    DeadCount x1 - DeadCount x = DeliveryAttempts x1 ''dead'' - DeliveryAttempts x ''dead'' \<and>
    (RetryScheduled y1 - RetryScheduled y, DeadCount y1 - DeadCount y, RecoveredCount y1 - RecoveredCount y) =
      (if rerr = None then (Scheduled result, Dead result, RecoveredLeases result) else (0, 0, 0))"
proof (intro conjI)
  obtain outcome w' where c: "Create repository registry now nid eventID caller key dst payload w = (created, outcome, w')"
    and m1: "m1 = ObserveIntake outcome m"
    using assms(1) by (auto simp: intake_Create_def intake_New_def split: prod.splits)
  from Create_outcome [OF c] show "counter_total intake_outcomes (Accepted m1) = counter_total intake_outcomes (Accepted m) + 1"
    by (auto simp: m1 ObserveIntake_def counter_total_def intake_outcomes_def)
  from Create_outcome [OF c] show "Accepted m1 ''accepted'' = Accepted m ''accepted'' + (if isl created then 0 else 1)"
    by (cases created) (auto simp: m1 ObserveIntake_def)
next
  obtain outcomes v' where r: "outbox_RunOnce claimOutbox publish mark (oc_BatchSize oconf) (oc_ClaimTTL oconf) now clock token v =
      ((n, err), outcomes, v')" and k1: "k1 = fold ObserveOutboxPublish outcomes k"
    using assms(2) by (auto simp: outbox_pass_def outbox_NewService_def split: prod.splits)
  from RunOnce_outcomes [OF r] obtain oks fails where o: "outcomes = replicate oks ''confirmed'' @ replicate fails ''failed''" "n = int oks"
    "fails \<le> 1" "err = None \<longrightarrow> fails = 0" by blast
  then have "count_list outcomes ''confirmed'' = oks" "count_list outcomes ''failed'' = fails"
    by (simp_all add: count_list_eq_length_filter)
  with o(2-4) show "OutboxPublish k1 ''confirmed'' = OutboxPublish k ''confirmed'' + n"
    and "OutboxPublish k1 ''failed'' - OutboxPublish k ''failed'' \<in> {0, if err = None then 0 else 1}"
    by (auto simp: k1 fold_ObserveOutboxPublish)
next
  define h where "h = Handle claim apply_result acquire send jitter between ttl lease now completed msg u"
  have x1: "d = hd_disposition h" "x1 = (case hd_observed h of None \<Rightarrow> x | Some outcome \<Rightarrow> ObserveDelivery outcome x)"
    using assms(3) by (auto simp: delivery_Handle_def delivery_NewService_def h_def Let_def cong: option.case_cong)
  have "d = Ack" if "hd_observed h = Some outcome" for outcome
    using that by (auto simp: x1 h_def Handle_def Let_def split: prod.splits sum.splits option.splits bool.splits)
  moreover have known: "outcome \<in> set delivery_outcomes" if "hd_observed h = Some outcome" for outcome
    by (rule Handle_outcome [OF that [unfolded h_def]])
  ultimately show "x1 = x \<or> d = Ack \<and> (\<exists>outcome \<in> set delivery_outcomes. x1 = ObserveDelivery outcome x)"
    using known by (auto simp: x1(2) split: option.splits)
  show "DeadCount x1 - DeadCount x = DeliveryAttempts x1 ''dead'' - DeliveryAttempts x ''dead''"
    by (simp add: x1(2) ObserveDelivery_def Let_def split: option.splits)
next
  obtain results z' where r: "retry_RunOnce scheduleDue now (rc_BatchSize rconf) z = ((result, rerr), results, z')"
    and y1: "y1 = fold ObserveSchedule results y"
    using assms(4) by (auto simp: retry_pass_def retry_NewService_def split: prod.splits)
  from r have "results = (if rerr = None then [result] else [])"
    by (auto simp: retry_RunOnce_def split: prod.splits option.splits)
  then show "(RetryScheduled y1 - RetryScheduled y, DeadCount y1 - DeadCount y, RecoveredCount y1 - RecoveredCount y) =
      (if rerr = None then (Scheduled result, Dead result, RecoveredLeases result) else (0, 0, 0))"
    by (simp add: y1 ObserveSchedule_def)
qed

lemma metrics_agree_witness:
  "\<exists>t d'. intake_Create (intake_New (CreateOrGet Some no_faults (\<lambda>x. x) Completed) sample_registry [Some ObserveIntake])
     0 ''n1'' ''e1'' ''billing'' ''order-7'' ''crm'' ''{}'' (empty_db, NewMetrics) = (Inr (t, False), (d', ObserveIntake ''accepted'' NewMetrics))"
proof -
  let ?s = "intake_New (CreateOrGet Some no_faults (\<lambda>x. x) Completed) sample_registry [Some ObserveIntake]"
  obtain t d1 where c: "Create (CreateOrGet Some no_faults (\<lambda>x. x) Completed) sample_registry 0 ''n1'' ''e1'' ''billing''
      ''order-7'' ''crm'' ''{}'' empty_db = (Inr (t, False), ''accepted'', d1)" using sample_first by blast
  then have i: "intake_Create ?s 0 ''n1'' ''e1'' ''billing'' ''order-7'' ''crm'' ''{}'' (empty_db, NewMetrics) =
      (Inr (t, False), (d1, ObserveIntake ''accepted'' NewMetrics))" by (simp add: intake_Create_def intake_New_def)
  have o: "outbox_pass (outbox_NewService (\<lambda>_ _ _ _ w. (Inr [], w)) (\<lambda>_ _ _ w. (Inr True, w)) (\<lambda>_ w. (None, w))
      \<lparr>oc_BatchSize = 1, oc_ClaimTTL = Second, oc_PollInterval = Second\<rparr> [Some ObserveOutboxPublish]) 0 (\<lambda>_. 0) [] (empty_db, NewMetrics) =
      ((0, None), (empty_db, NewMetrics))" by (simp add: outbox_pass_def outbox_NewService_def outbox_RunOnce_def)
  have d: "delivery_Handle (delivery_NewService (\<lambda>_ _ _ w. (Inr None, w)) (\<lambda>_ _ _ w. (Inr True, w)) (\<lambda>_. undefined) (\<lambda>_ _. None) None
      Second [Some ObserveDelivery]) id [] 0 0 sample_message (empty_db, NewMetrics) = (Ack, (empty_db, NewMetrics))"
    by (simp add: delivery_Handle_def delivery_NewService_def Handle_def)
  have r: "retry_pass (retry_NewService (\<lambda>_ _ w. ((no_schedule, None), w)) \<lparr>rc_BatchSize = 1, rc_PollInterval = Second\<rparr>
      [Some ObserveSchedule]) 0 (empty_db, NewMetrics) = ((no_schedule, None), (empty_db, ObserveSchedule no_schedule NewMetrics))"
    by (simp add: retry_pass_def retry_NewService_def retry_RunOnce_def)
  from metrics_agree [OF i o d r] have "Accepted (ObserveIntake ''accepted'' NewMetrics) ''accepted'' = 1" by (simp add: NewMetrics_def)
  with i show ?thesis by blast
qed

end
