(* ===== verification/Startup.thy ===== *)
theory Startup
  imports Assembly Sender Jitter Limiter
begin

text \<open>
  \<open>RunConfigured\<close> (\<open>internal/app/bootstrap.go\<close>) as a whole: the order in which a process acquires what
  it holds, the servers and loops it launches with their settings, every early return, the deferred
  releases, and the result. What the outside answers to each call is a field of the environment.
\<close>

section \<open>What a process holds and launches\<close>

text \<open>The servers of a process: the API with its registry, or the routes of observation alone.\<close>

record http_server =
  srv_Addr :: string
  srv_api :: "registry option"
  srv_ReadHeaderTimeout :: duration
  srv_ReadTimeout :: duration
  srv_WriteTimeout :: duration
  srv_IdleTimeout :: duration

definition server_of :: "string \<Rightarrow> registry option \<Rightarrow> http_server" where
  "server_of addr api =
     \<lparr>srv_Addr = addr, srv_api = api, srv_ReadHeaderTimeout = 5 * Second, srv_ReadTimeout = 10 * Second,
      srv_WriteTimeout = 10 * Second, srv_IdleTimeout = 60 * Second\<rparr>"

text \<open>The routes of the servers' multiplexers, for the path of a request that needs no cleaning.\<close>

datatype route = ApiRoute | HealthRoute | MetricsRoute | RedirectRoute string | NoRoute

definition mux_route :: "http_server \<Rightarrow> string \<Rightarrow> route" where
  "mux_route server path =
     (if srv_api server \<noteq> None \<and> HasPrefix path ''/v1/'' then ApiRoute
      else if srv_api server \<noteq> None \<and> path = ''/v1'' then RedirectRoute ''/v1/''
      else if path = ''/livez'' \<or> path = ''/readyz'' then HealthRoute
      else if path = ''/metrics'' then MetricsRoute
      else NoRoute)"

record worker_config =
  wk_sender :: sender
  wk_seed :: int
  wk_leaseTTL :: duration
  wk_deliveries :: "consumed list"

datatype held = Pool | PublisherClient | WorkerClient | Server http_server

datatype part =
    PublisherLoop outbox_config
  | WorkerLoop worker_config
  | SchedulerLoop retry_config
  | CleanerLoop retention_config duration

datatype action = Acquired held | Launched part | Released held

section \<open>RunConfigured\<close>

record amqp_answers =
  aq_dial :: "error option"
  aq_channel :: "error option"
  aq_declares :: "topology_call \<Rightarrow> error option"
  aq_confirm :: "error option"

record environment =
  env_pool :: "error option"
  env_ping :: "error option"
  env_parsers :: parsers
  env_readFile :: "string \<Rightarrow> error + string"
  env_decode :: "string \<Rightarrow> error + raw_destination list"
  env_lookupEnv :: "string \<Rightarrow> string option"
  env_publisher :: amqp_answers
  env_worker :: amqp_answers
  env_random :: "error + 8 word list"
  env_consume :: "error option"
  env_deliveries :: "(raw_delivery \<times> bool) list"
  env_ending :: ending

definition notifications_topology :: topology where
  "notifications_topology = \<lparr>Exchange = ''notifications'', Queue = ''notifications'', RoutingKey = ''notification.ready''\<rparr>"

definition Millisecond :: duration where
  "Millisecond = 1000000"

definition publisher_config :: outbox_config where
  "publisher_config = \<lparr>oc_BatchSize = 100, oc_ClaimTTL = Minute, oc_PollInterval = 250 * Millisecond\<rparr>"

definition scheduler_config :: retry_config where
  "scheduler_config = \<lparr>rc_BatchSize = 100, rc_PollInterval = Second\<rparr>"

definition cleaner_config :: retention_config where
  "cleaner_config = \<lparr>tc_Retention = 30 * 24 * Hour, tc_BatchSize = 500, tc_PollInterval = 0\<rparr>"

definition worker_leaseTTL :: duration where
  "worker_leaseTTL = Minute"

text \<open>
  Every \<open>return\<close> runs the deferred releases, one for each thing acquired, the last first. A call that is
  made only for some roles yields no error for the others.
\<close>

definition returning :: "action list \<Rightarrow> error option \<Rightarrow> action list \<times> error option" where
  "returning trace result = (trace @ rev [Released h. Acquired h \<leftarrow> trace], result)"

definition open_error :: "bool \<Rightarrow> amqp_answers \<Rightarrow> error option" where
  "open_error needed aq =
     (if needed
      then case fst (Open (aq_dial aq) (aq_channel aq) (aq_declares aq) (aq_confirm aq) notifications_topology) of
             Inl err \<Rightarrow> Some err | Inr _ \<Rightarrow> None
      else None)"

definition worker_parts :: "environment \<Rightarrow> bool \<Rightarrow> error + part list" where
  "worker_parts env needed =
     (if \<not> needed then Inr []
      else case newBoundedJitter (env_random env) of
             Inl jitterErr \<Rightarrow> Inl jitterErr
           | Inr seed \<Rightarrow>
               (case Consume (env_consume env) (env_deliveries env) of
                  Inl consumeErr \<Rightarrow> Inl consumeErr
                | Inr deliveries \<Rightarrow>
                    Inr [WorkerLoop \<lparr>wk_sender = NewHTTPSender False 1024 (env_lookupEnv env), wk_seed = seed,
                                     wk_leaseTTL = worker_leaseTTL, wk_deliveries = deliveries\<rparr>]))"

definition load_registry :: "environment \<Rightarrow> runtime \<Rightarrow> error + registry" where
  "load_registry env cfg =
     (if loads_registry (wire (rt_Role cfg))
      then Load (env_parsers env) (env_readFile env (rt_DestinationsFile cfg)) (env_decode env) (env_lookupEnv env)
      else Inr [])"

definition configured_server :: "runtime \<Rightarrow> registry \<Rightarrow> http_server" where
  "configured_server cfg registry =
     (if serves_api (wire (rt_Role cfg)) then server_of (rt_HTTPAddr cfg) (Some registry)
      else server_of (rt_MetricsAddr cfg) None)"

definition RunConfigured :: "environment \<Rightarrow> runtime \<Rightarrow> action list \<times> error option" where
  "RunConfigured env cfg =
     (let w = wire (rt_Role cfg);
          t1 = [Acquired Pool];
          t2 = t1 @ (if opens_publisher w then [Acquired PublisherClient] else []);
          t3 = t2 @ (if opens_worker w then [Acquired WorkerClient] else [])
      in case env_pool env of
           Some err \<Rightarrow> returning [] (Some (Errorf ''open postgres'' [err]))
         | None \<Rightarrow>
      case env_ping env of
           Some err \<Rightarrow> returning t1 (Some (Errorf ''ping postgres'' [err]))
         | None \<Rightarrow>
      case load_registry env cfg of
           Inl err \<Rightarrow> returning t1 (Some err)
         | Inr registry \<Rightarrow>
      case open_error (opens_publisher w) (env_publisher env) of
           Some err \<Rightarrow> returning t1 (Some err)
         | None \<Rightarrow>
      case open_error (opens_worker w) (env_worker env) of
           Some err \<Rightarrow> returning t2 (Some err)
         | None \<Rightarrow>
      let t4 = t3 @ [Acquired (Server (configured_server cfg registry))];
          t5 = t4 @ (if opens_publisher w then [Launched (PublisherLoop publisher_config)] else [])
      in case worker_parts env (opens_worker w) of
           Inl err \<Rightarrow> returning t5 (Some err)
         | Inr workers \<Rightarrow>
             returning
               (t5 @ map Launched workers @
                (if runs_scheduler w then [Launched (SchedulerLoop scheduler_config), Launched (CleanerLoop cleaner_config Hour)] else []))
               (run_result (env_ending env)))"

section \<open>What a process guarantees\<close>

definition acquired :: "action list \<Rightarrow> held list" where
  "acquired trace = [h. Acquired h \<leftarrow> trace]"

definition launched :: "action list \<Rightarrow> part list" where
  "launched trace = [p. Launched p \<leftarrow> trace]"

definition released :: "action list \<Rightarrow> held list" where
  "released trace = [h. Released h \<leftarrow> trace]"

lemma trace_append [simp]:
  "acquired (s @ t) = acquired s @ acquired t" "launched (s @ t) = launched s @ launched t" "released (s @ t) = released s @ released t"
  by (simp_all add: acquired_def launched_def released_def)

lemma trace_simps [simp]:
  "acquired [] = []" "launched [] = []" "released [] = []"
  "acquired (Acquired h # t) = h # acquired t" "acquired (Launched p # t) = acquired t" "acquired (Released h # t) = acquired t"
  "launched (Acquired h # t) = launched t" "launched (Launched p # t) = p # launched t" "launched (Released h # t) = launched t"
  "released (Acquired h # t) = released t" "released (Launched p # t) = released t" "released (Released h # t) = h # released t"
  by (simp_all add: acquired_def launched_def released_def)

lemma acquired_map [simp]: "acquired (map Released hs) = []" "acquired (map Launched ps) = []"
  "launched (map Released hs) = []" "launched (map Launched ps) = ps" "released (map Released hs) = hs" "released (map Launched ps) = []"
  by (induction hs; induction ps; simp)+

lemma returning_eq: "returning trace result = (trace @ map Released (rev (acquired trace)), result)"
proof -
  have "[Released h. Acquired h \<leftarrow> trace] = map Released (acquired trace)"
    by (induction trace) (auto simp: acquired_def split: action.splits)
  then show ?thesis by (simp add: returning_def rev_map)
qed

text \<open>
  The things held after a trace, the last acquired first: launching a part needs what the part uses to be
  held, and only what was acquired last is released. \<^const>\<open>None\<close> means the trace breaks this.
\<close>

fun part_needs :: "part \<Rightarrow> held list" where
  "part_needs (PublisherLoop _) = [Pool, PublisherClient]"
| "part_needs (WorkerLoop _) = [Pool, WorkerClient]"
| "part_needs _ = [Pool]"

fun holding :: "held list \<Rightarrow> action list \<Rightarrow> held list option" where
  "holding hs [] = Some hs"
| "holding hs (Acquired h # t) = holding (h # hs) t"
| "holding hs (Launched p # t) = (if set (part_needs p) \<subseteq> set hs then holding hs t else None)"
| "holding hs (Released h # t) = (case hs of [] \<Rightarrow> None | x # xs \<Rightarrow> if x = h then holding xs t else None)"

lemma holding_append: "holding hs (s @ t) = (case holding hs s of None \<Rightarrow> None | Some hs' \<Rightarrow> holding hs' t)"
  by (induction hs s rule: holding.induct) (auto split: list.splits)

lemma holding_released [simp]: "holding hs (map Released hs) = Some []"
  by (induction hs) simp_all

lemma holding_acquired: "holding hs t = Some hs' \<Longrightarrow> released t = [] \<Longrightarrow> hs' = rev (acquired t) @ hs"
  by (induction hs t rule: holding.induct) (auto split: if_splits)

lemma returning_orderly:
  assumes "holding [] t = Some hs" "released t = []" "returning t result = (trace, result')"
  shows "holding [] trace = Some [] \<and> (\<exists>before. trace = before @ map Released (rev (acquired before)) \<and> released before = []) \<and>
    result' = result \<and> launched trace = launched t \<and> acquired trace = acquired t"
  using holding_acquired [OF assms(1,2)] assms by (auto simp: returning_eq holding_append)

lemma worker_parts_shape:
  "worker_parts env needed = Inr workers \<Longrightarrow>
   (if needed then \<exists>c. workers = [WorkerLoop c] \<and> wk_leaseTTL c = Minute else workers = [])"
  by (auto simp: worker_parts_def worker_leaseTTL_def split: if_splits sum.splits)

definition role_parts :: "role \<Rightarrow> part list \<Rightarrow> bool" where
  "role_parts role ps \<longleftrightarrow>
     (\<exists>c. ps = (if opens_publisher (wire role) then [PublisherLoop publisher_config] else []) @
         (if opens_worker (wire role) then [WorkerLoop c] else []) @
         (if runs_scheduler (wire role) then [SchedulerLoop scheduler_config, CleanerLoop cleaner_config Hour] else []))"


lemma RunConfigured_server:
  assumes "RunConfigured env cfg = (trace, result)" "Server s \<in> set (acquired trace)"
  shows "\<exists>registry. load_registry env cfg = Inr registry \<and> s = configured_server cfg registry"
  using assms unfolding RunConfigured_def Let_def
  by (auto simp: returning_eq split: option.splits sum.splits if_splits)

lemma RunConfigured_worker:
  assumes "RunConfigured env cfg = (trace, result)" "WorkerLoop c \<in> set (launched trace)"
  shows "worker_parts env True = Inr [WorkerLoop c] \<and> opens_worker (wire (rt_Role cfg))"
  using assms worker_parts_shape [of env] unfolding RunConfigured_def Let_def
  by (fastforce simp: returning_eq split: option.splits sum.splits if_splits)

text \<open>
  The settings of the parts fit together: whatever destination of the loaded configuration a request
  is for, the timeout of its requests is positive and leaves half of the worker's lease, so that
  an attempt that is sent at once ends under its lease; its concurrency limit admits at least the one
  request of the worker's loop; the sender does not dial private networks and keeps at most 1024 bytes
  of an answer; and only a server with the loaded registry routes requests to the API.
\<close>

theorem worker_settings_safe:
  assumes "RunConfigured env cfg = (trace, result)" "WorkerLoop c \<in> set (launched trace)"
    and "load_registry env cfg = Inr registry" "Get registry dst = Some target"
    and "s = task_Snapshot (new_task target nid caller key dst payload hash now)"
  shows "0 < snap_Timeout s \<and> snap_Timeout s + 30 * Second \<le> wk_leaseTTL c \<and> 1 \<le> snap_ConcurrencyLimit s \<and>
    acquire_arguments dst (snap_ConcurrencyLimit s) = None \<and>
    \<not> snd_allowDev (wk_sender c) \<and> snd_limit (wk_sender c) = 1024 \<and>
    (\<forall>server path. Server server \<in> set (acquired trace) \<longrightarrow> mux_route server path = ApiRoute \<longrightarrow>
       srv_api server = Some registry \<and> serves_api (wire (rt_Role cfg)))"
proof (intro conjI allI impI)
  note w = RunConfigured_worker [OF assms(1,2)]
  from w have c: "wk_leaseTTL c = Minute" "wk_sender c = NewHTTPSender False 1024 (env_lookupEnv env)"
    by (auto simp: worker_parts_def worker_leaseTTL_def split: sum.splits)
  have "loads_registry (wire (rt_Role cfg))" using w by (auto simp: wire_def)
  with assms(3) have l: "Load (env_parsers env) (env_readFile env (rt_DestinationsFile cfg)) (env_decode env) (env_lookupEnv env) = Inr registry"
    by (simp add: load_registry_def)
  from assms(4) have "(dst, target) \<in> set registry" by (auto simp: Get_def split: option.splits dest: map_of_SomeD)
  with Load_ok [OF l] have d: "destination_ok (env_parsers env) (env_lookupEnv env) target" "TrimSpace dst \<noteq> []" by auto
  moreover have "TrimSpace [] = []" using strip_suffix [of "[]" space_encodings] strip_suffix [of "[]" "map rev space_encodings"]
    by (simp add: TrimSpace_def)
  ultimately have "dst \<noteq> []" by auto
  from d(1) have t: "0 < dest_Timeout target" "dest_Timeout target \<le> 30 * Second" "1 \<le> dest_ConcurrencyLimit target"
    by (simp_all add: destination_ok_def)
  show "0 < snap_Timeout s" "snap_Timeout s + 30 * Second \<le> wk_leaseTTL c" "1 \<le> snap_ConcurrencyLimit s"
    "acquire_arguments dst (snap_ConcurrencyLimit s) = None"
    using t c(1) \<open>dst \<noteq> []\<close> by (simp_all add: assms(5) new_task_def duration_units acquire_arguments_def)
  show "\<not> snd_allowDev (wk_sender c)" "snd_limit (wk_sender c) = 1024" by (simp_all add: c NewHTTPSender_def)
  fix server path
  assume s: "Server server \<in> set (acquired trace)" "mux_route server path = ApiRoute"
  from RunConfigured_server [OF assms(1) s(1)] assms(3) have "server = configured_server cfg registry" by auto
  with s(2) show "srv_api server = Some registry" "serves_api (wire (rt_Role cfg))"
    by (auto simp: mux_route_def configured_server_def server_of_def split: if_splits)
qed

section \<open>Witnesses\<close>

definition sample_environment :: environment where
  "sample_environment =
     (let quiet = \<lparr>aq_dial = None, aq_channel = None, aq_declares = (\<lambda>_. None), aq_confirm = None\<rparr>
      in \<lparr>env_pool = None, env_ping = None, env_parsers = sample_parsers, env_readFile = (\<lambda>_. Inr []),
          env_decode = (\<lambda>_. Inr [sample_raw]), env_lookupEnv = (\<lambda>_. Some ''s3cret''), env_publisher = quiet,
          env_worker = quiet, env_random = Inr (replicate 8 0), env_consume = None, env_deliveries = [],
          env_ending = ContextDone\<rparr>)"

definition sample_runtime :: "role \<Rightarrow> runtime" where
  "sample_runtime role =
     \<lparr>rt_Role = role, rt_DatabaseURL = ''postgres://db'', rt_RabbitMQURL = ''amqp://mq'', rt_DestinationsFile = ''destinations.yaml'',
      rt_HTTPAddr = '':8080'', rt_MetricsAddr = '':9090'', rt_CallerTokens = [(''tok'', ''billing'')],
      rt_AdminTokens = [(''adm'', ''ops'')], rt_ShutdownTimeout = 10 * Second\<rparr>"

lemma sample_start:
  "\<exists>trace registry c. RunConfigured sample_environment (sample_runtime RoleAll) = (trace, None) \<and>
     load_registry sample_environment (sample_runtime RoleAll) = Inr registry \<and> Get registry ''crm'' \<noteq> None \<and>
     WorkerLoop c \<in> set (launched trace)"
proof -
  obtain d where l: "Load sample_parsers (Inr []) (\<lambda>_. Inr [sample_raw]) (\<lambda>_. Some ''s3cret'') = Inr [(''crm'', d)]"
    using sample_loads by blast
  have r: "load_registry sample_environment (sample_runtime RoleAll) = Inr [(''crm'', d)]"
    by (simp add: load_registry_def sample_environment_def sample_runtime_def wire_def l Let_def)
  have e: "open_error True (env_publisher sample_environment) = None" "open_error True (env_worker sample_environment) = None"
    "env_pool sample_environment = None" "env_ping sample_environment = None" "env_ending sample_environment = ContextDone"
    by (simp_all add: open_error_def sample_environment_def Let_def Open_def declare_topology_def)
  have w: "opens_publisher (wire RoleAll)" "opens_worker (wire RoleAll)" "runs_scheduler (wire RoleAll)" by (simp_all add: wire_def)
  obtain c where c: "worker_parts sample_environment True = Inr [WorkerLoop c]"
    by (auto simp: worker_parts_def sample_environment_def Let_def newBoundedJitter_def Consume_def)
  have "rt_Role (sample_runtime RoleAll) = RoleAll" by (simp add: sample_runtime_def)
  then obtain trace where t: "RunConfigured sample_environment (sample_runtime RoleAll) = (trace, None)"
    "WorkerLoop c \<in> set (launched trace)"
    by (simp add: RunConfigured_def r e w c Let_def returning_eq)
  with r show ?thesis by (auto simp: Get_def)
qed


lemma worker_settings_safe_witness:
  "\<exists>trace c target. RunConfigured sample_environment (sample_runtime RoleAll) = (trace, None) \<and> WorkerLoop c \<in> set (launched trace) \<and>
     snap_Timeout (task_Snapshot (new_task target ''n1'' ''billing'' ''order-7'' ''crm'' ''{}'' request_hash 0)) + 30 * Second \<le> wk_leaseTTL c"
proof -
  obtain trace registry c where t: "RunConfigured sample_environment (sample_runtime RoleAll) = (trace, None)"
    "load_registry sample_environment (sample_runtime RoleAll) = Inr registry" "Get registry ''crm'' \<noteq> None"
    "WorkerLoop c \<in> set (launched trace)" using sample_start by blast
  then obtain target where g: "Get registry ''crm'' = Some target" by blast
  from worker_settings_safe [OF t(1,4,2) g refl, THEN conjunct2, THEN conjunct1] t show ?thesis by blast
qed

end
