(* ===== verification/Serving.thy ===== *)
theory Serving
  imports Startup
begin

text \<open>
  A request at a server of the process: the multiplexer of \<open>RunConfigured\<close> in front of that of the router
  (\<open>internal/transport/httpapi/router.go\<close>), whose patterns are matched as \<open>net/http\<close> does for a path that
  needs no cleaning and contains no escapes, with the health and metrics routes beside the API.
\<close>

section \<open>Paths\<close>

fun join_path :: "string list \<Rightarrow> string" where
  "join_path [] = []"
| "join_path [s] = s"
| "join_path (s # ss) = s @ CHR ''/'' # join_path ss"

lemma Split_nonempty: "Split sep s \<noteq> []"
  by (induction s) (auto split: list.splits)

lemma join_Split: "join_path (Split (CHR ''/'') s) = s"
proof (induction s)
  case (Cons c s)
  obtain part parts where p: "Split (CHR ''/'') s = part # parts" using Split_nonempty by (metis list.exhaust)
  with Cons show ?case by (cases parts) auto
qed simp

lemma Split_parts: "part \<in> set (Split sep s) \<Longrightarrow> sep \<notin> set part"
proof (induction s arbitrary: part)
  case (Cons c s)
  obtain p parts where "Split sep s = p # parts" using Split_nonempty by (metis list.exhaust)
  with Cons show ?case by (auto split: if_splits)
qed simp

section \<open>The patterns of the router\<close>

text \<open>A wildcard matches one segment that is not empty; \<open>GET\<close> patterns match \<open>HEAD\<close> too.\<close>

datatype api_match = Matched endpoint | MethodNotAllowed | NoMatch

fun match_segments :: "string \<Rightarrow> string list \<Rightarrow> api_match" where
  "match_segments httpMethod [a, b, c] =
     (if a = [] \<and> b = ''v1'' \<and> c = ''notifications''
      then (if httpMethod = ''POST'' then Matched CreateEndpoint else MethodNotAllowed) else NoMatch)"
| "match_segments httpMethod [a, b, c, i] =
     (if a = [] \<and> b = ''v1'' \<and> c = ''notifications'' \<and> i \<noteq> []
      then (if httpMethod = ''GET'' \<or> httpMethod = ''HEAD'' then Matched (QueryEndpoint i) else MethodNotAllowed) else NoMatch)"
| "match_segments httpMethod [a, b, c, e, i, f] =
     (if a = [] \<and> b = ''v1'' \<and> c = ''admin'' \<and> e = ''notifications'' \<and> i \<noteq> [] \<and> f = ''replay''
      then (if httpMethod = ''POST'' then Matched (ReplayEndpoint i) else MethodNotAllowed) else NoMatch)"
| "match_segments httpMethod _ = NoMatch"

definition match_api :: "string \<Rightarrow> string \<Rightarrow> api_match" where
  "match_api httpMethod path = match_segments httpMethod (Split (CHR ''/'') path)"

section \<open>Serving\<close>

text \<open>The pages of the libraries (the metrics, the errors of the multiplexers) are given by their status.\<close>

definition page :: "int \<Rightarrow> reply" where
  "page st = \<lparr>rp_status = st, rp_body = JNull\<rparr>"

definition serve ::
  "'w dependencies \<Rightarrow> (time \<Rightarrow> string) \<Rightarrow> http_server \<Rightarrow> role \<Rightarrow> checks \<Rightarrow> string \<Rightarrow> string \<Rightarrow> header \<Rightarrow> string \<Rightarrow> 'w
    \<Rightarrow> reply \<times> 'w" where
  "serve deps show_time server role checks httpMethod path h body w =
     (case mux_route server path of
        ApiRoute \<Rightarrow>
          (case match_api httpMethod path of
             Matched e \<Rightarrow> NewRouter deps show_time e h body w
           | MethodNotAllowed \<Rightarrow> (page 405, w)
           | NoMatch \<Rightarrow> (page 404, w))
      | HealthRoute \<Rightarrow> (health_ServeHTTP (role_string role) checks path, w)
      | MetricsRoute \<Rightarrow> (page 200, w)
      | RedirectRoute _ \<Rightarrow> (page 301, w)
      | NoRoute \<Rightarrow> (page 404, w))"

lemma match_api_endpoint:
  assumes "match_api httpMethod path = Matched e"
  shows "(e = CreateEndpoint \<and> httpMethod = ''POST'' \<and> path = ''/v1/notifications'') \<or>
    (\<exists>i. e = QueryEndpoint i \<and> httpMethod \<in> {''GET'', ''HEAD''} \<and> path = ''/v1/notifications/'' @ i \<and> i \<noteq> [] \<and> CHR ''/'' \<notin> set i) \<or>
    (\<exists>i. e = ReplayEndpoint i \<and> httpMethod = ''POST'' \<and> path = ''/v1/admin/notifications/'' @ i @ ''/replay'' \<and> i \<noteq> [] \<and> CHR ''/'' \<notin> set i)"
proof -
  define segs where "segs = Split (CHR ''/'') path"
  have j: "path = join_path segs" and p: "\<And>s. s \<in> set segs \<Longrightarrow> CHR ''/'' \<notin> set s"
    using join_Split [of path] Split_parts [of _ "CHR ''/''" path] by (simp_all add: segs_def)
  from assms have "match_segments httpMethod segs = Matched e" by (simp add: match_api_def segs_def)
  then show ?thesis using p unfolding j
    by (cases "(httpMethod, segs)" rule: match_segments.cases) (auto split: if_splits)
qed

lemma NewRouter_unauthenticated:
  assumes "caller_of (if is_ReplayEndpoint then AdminTokens deps else CallerTokens deps) h = []"
    and "is_ReplayEndpoint \<longleftrightarrow> (\<exists>i. e = ReplayEndpoint i)"
  shows "NewRouter deps show_time e h body w = (writeError 401 ''unauthorized'' ''authentication required'', w)"
  using assms by (cases e) (auto simp: NewRouter_def authenticate_def Let_def split: if_splits)

lemma query_keeps: "NewRouter deps show_time (QueryEndpoint i) h body w = (answer, w') \<Longrightarrow> w' = w"
  by (auto simp: NewRouter_def authenticate_def queryHandler_def Let_def split: if_splits sum.splits)

text \<open>
  C31. Nothing but the two authorised operations changes the state: whatever the method, path, headers
  and body of a request, it can change the state only as a POST to the notifications by a registered
  caller, on a server that serves the API, or as a POST to the replay of one notification by a
  registered administrator. Every other request, with whatever answer, leaves it as it was, and
  health and metrics are answered without a token.
\<close>

theorem only_authorised_posts_change:
  assumes "distinct (map fst (CallerTokens deps))" "distinct (map fst (AdminTokens deps))"
    and "serve deps show_time server role checks httpMethod path h body w = (answer, w')" "w' \<noteq> w"
    and "token = TrimPrefix (Header_Get ''Authorization'' h) ''Bearer ''"
  shows "srv_api server \<noteq> None \<and> httpMethod = ''POST'' \<and>
    ((path = ''/v1/notifications'' \<and> (\<exists>caller. caller \<noteq> [] \<and> map_of (CallerTokens deps) token = Some caller)) \<or>
     (\<exists>i. path = ''/v1/admin/notifications/'' @ i @ ''/replay'' \<and> i \<noteq> [] \<and> CHR ''/'' \<notin> set i \<and>
        (\<exists>admin. admin \<noteq> [] \<and> map_of (AdminTokens deps) token = Some admin)))"
proof -
  from assms(3,4) obtain e where api: "mux_route server path = ApiRoute" "match_api httpMethod path = Matched e"
    and r: "NewRouter deps show_time e h body w = (answer, w')"
    by (auto simp: serve_def split: route.splits api_match.splits)
  have srv: "srv_api server \<noteq> None" using api(1) by (auto simp: mux_route_def split: if_splits)
  have known: "\<exists>c. c \<noteq> [] \<and> map_of tokens token = Some c" if "caller_of tokens h \<noteq> []" "distinct (map fst tokens)" for tokens
    using that caller_of_eq [OF that(2), of h] by (auto simp: assms(5) split: option.splits)
  from match_api_endpoint [OF api(2)] show ?thesis
  proof (elim disjE conjE exE)
    assume e: "e = CreateEndpoint" and m: "httpMethod = ''POST''" "path = ''/v1/notifications''"
    have "caller_of (CallerTokens deps) h \<noteq> []"
      using NewRouter_unauthenticated [of False deps h e show_time body w] r assms(4) e by auto
    with known [OF _ assms(1)] m srv show ?thesis by blast
  next
    fix i assume "e = QueryEndpoint i"
    with query_keeps [of deps show_time i h body w answer w'] r assms(4) show ?thesis by simp
  next
    fix i assume e: "e = ReplayEndpoint i" and m: "httpMethod = ''POST''" "path = ''/v1/admin/notifications/'' @ i @ ''/replay''"
      "i \<noteq> []" "CHR ''/'' \<notin> set i"
    have "caller_of (AdminTokens deps) h \<noteq> []"
      using NewRouter_unauthenticated [of True deps h e show_time body w] r assms(4) e by auto
    with known [OF _ assms(2)] m srv show ?thesis by blast
  qed
qed

lemma only_authorised_posts_change_witness:
  "\<exists>answer d'. serve sample_dependencies (\<lambda>_. []) (server_of '':8080'' (Some sample_registry)) RoleAPI
     \<lparr>chk_Postgres = None, chk_RabbitMQ = None, chk_Destinations = None\<rparr> ''POST'' ''/v1/notifications'' (sample_header ''tok'')
     sample_body empty_db = (answer, d') \<and> rp_status answer = 202 \<and>
     (\<exists>caller. map_of (CallerTokens sample_dependencies) ''tok'' = Some caller)"
proof -
  obtain answer d' where r: "NewRouter sample_dependencies (\<lambda>_. []) CreateEndpoint (sample_header ''tok'') sample_body empty_db = (answer, d')"
    "rp_status answer = 202" "task_of d' ''n1'' \<noteq> None" using sample_creation by blast
  have s: "serve sample_dependencies (\<lambda>_. []) (server_of '':8080'' (Some sample_registry)) RoleAPI
     \<lparr>chk_Postgres = None, chk_RabbitMQ = None, chk_Destinations = None\<rparr> ''POST'' ''/v1/notifications'' (sample_header ''tok'')
     sample_body empty_db = (answer, d')"
    using r(1) by (simp add: serve_def mux_route_def server_of_def HasPrefix_def match_api_def)
  have "d' \<noteq> empty_db" using r(3) by (auto simp: empty_db_def)
  moreover have "distinct (map fst (CallerTokens sample_dependencies))" "distinct (map fst (AdminTokens sample_dependencies))"
    by (simp_all add: sample_dependencies_def service_dependencies_def)
  ultimately have "\<exists>caller. map_of (CallerTokens sample_dependencies) ''tok'' = Some caller"
    using only_authorised_posts_change [OF _ _ s _ refl] by (auto simp: sample_http_request)
  with s r(2) show ?thesis by blast
qed

end
