(* ===== verification/Spec2Isabelle.thy ===== *)
theory Spec2Isabelle
  imports Roundtrip Progress JsonStruct Limiter Jitter Sender Serving
begin

text \<open>
  A verification of the notification delivery service \<open>rc_pangjiahui\<close>.

  The program. Business systems submit a notification (a destination and a JSON payload, under an
  idempotency key) over HTTP; the service stores it with an outbox event in one PostgreSQL
  transaction; a publisher takes unpublished events to RabbitMQ; workers take messages from the
  queue, lease the task, send one HTTPS request to the supplier's endpoint and store its outcome; a
  scheduler turns due retries and expired leases into new generations with new events; a cleaner
  removes old finished tasks; administrators replay dead ones. Each process runs one role, or all.

  The theories, by the part of the program they model.

  \<^item> \<open>Prelude\<close>: instants, durations with 64-bit wrap-around, error values with \<open>errors.Is\<close>, decimal
    conversion, keyed row lists, the locale of inductive invariants. \<open>Utf8\<close>, \<open>GoStrings\<close>,
    \<open>Sha256\<close>, \<open>Json\<close>, \<open>GoParse\<close>: what the source uses of Go's \<open>unicode/utf8\<close>, \<open>strings\<close>, header
    names of \<open>net/http\<close>, \<open>crypto/sha256\<close>, \<open>encoding/hex\<close>, \<open>time.ParseDuration\<close> and \<open>net.ParseIP\<close>.
    \<open>JsonText\<close>: the scanner, parser and encoder of \<open>encoding/json\<close>; \<open>JsonRoundtrip\<close>: the parser
    inverts the encoder; \<open>JsonStruct\<close>: decoding into structs, and the text of a member.
  \<^item> \<open>Notification\<close>, \<open>Jitter\<close>: \<open>internal/notification\<close> (\<open>model.go\<close>, \<open>state.go\<close>, \<open>retry.go\<close>,
    \<open>jitter.go\<close> with its double arithmetic).
  \<^item> \<open>Tables\<close>: the two tables of \<open>migrations/\<close>, their constraints as \<open>task_row_ok\<close> and
    \<open>outbox_row_ok\<close>, and statements with the faults they can meet. \<open>Store\<close>: every method of
    \<open>internal/store/postgres\<close>. \<open>StoreInv\<close>, \<open>StoreSched\<close>: the database invariant \<open>db_wf\<close>, kept by
    every method, and what each method promises; the scheduling transaction equals one batch update.
  \<^item> \<open>Registry\<close>, \<open>Validate\<close>: \<open>internal/destination\<close>. \<open>Config\<close>: \<open>internal/config\<close>.
  \<^item> \<open>Hash\<close>: \<open>notification/hash.go\<close>. \<open>Intake\<close>: \<open>internal/intake\<close>, over the locale
    \<open>intake_repository\<close>. \<open>Delivery\<close>: \<open>internal/delivery/service.go\<close>, over the locale of a delivery
    repository. \<open>Limiter\<close>: \<open>limiter.go\<close>, goroutines as a step relation. \<open>Sender\<close>:
    \<open>http_sender.go\<close>.
  \<^item> \<open>Broker\<close>, \<open>Consumer\<close>: the two directions of \<open>internal/messaging/rabbitmq\<close>. \<open>Outbox\<close>: \<open>internal/outbox\<close>, over the locale
    \<open>outbox_interfaces\<close>. \<open>Services\<close>: \<open>internal/retry\<close>, \<open>internal/retention\<close>,
    \<open>notification/query.go\<close>.
  \<^item> \<open>HttpApi\<close>: \<open>internal/transport/httpapi\<close>. \<open>Observability\<close>: \<open>internal/observability\<close>. \<open>App\<close>:
    the loops, the ending of a process and \<open>cmd/notifier\<close>. \<open>Assembly\<close>: the services as their
    constructors build them, with their observers. \<open>Startup\<close>: \<open>RunConfigured\<close> of
    \<open>app/bootstrap.go\<close> as a whole, what it acquires, launches and releases. \<open>Serving\<close>: a request
    from the multiplexer of a server to its handler.
  \<^item> \<open>Evolve\<close>, \<open>Footprint\<close>, \<open>System\<close>, \<open>SystemInv\<close>, \<open>SystemProps\<close>: all processes together, as
    \<open>app/bootstrap.go\<close> composes them. A state \<open>sys\<close> is the database, the queue as a multiset of
    messages, and where each publisher and worker is; \<open>sys_step\<close> has one rule per call that reaches
    the database or the broker, with every fault, and a crash of any process at any point.
    \<open>Progress\<close>: no reachable state leaves a task stuck.
    \<open>Refinement\<close>: passes of the services are runs of this system. \<open>Roundtrip\<close>: from acceptance to
    delivery. \<open>Sample\<close>, \<open>SampleRun\<close>: a concrete database and a concrete run, for the witnesses.

  What the lemmas show. Each store method keeps \<open>db_wf\<close> (unique identifiers, caller keys and
  generations, events with their tasks, every constraint) and has its effect described on every
  branch, errors included. On top of that: an accepted notification is never lost in any
  interleaving with crashes; leases and claims exclude each other; attempts are bounded; statuses
  follow the transition table; snapshots do not change, and what a worker is given is what was
  accepted. The services are proved over locales and get their properties by interpretation on the
  store and the broker. Validation, sending, redaction, authentication and configuration have the
  properties their callers rely on. A process acquires and releases in order whatever fails, its
  loops end with its context, and no request changes anything but the two authorised ones.

  Bounds and fuel. Integers that Go keeps in 64 bits are \<open>int\<close> with \<open>wrap64\<close> or \<open>sat64\<close> where an
  operation can leave the range; SHA-256 and addresses are words. The JSON parser takes fuel, and
  \<open>parse\<close> gives it twice the length of the text plus one; \<open>parse_within\<close> shows that this is
  enough for every text. The scanner's limit of 10000 open arrays and objects is in the model.
  Polling loops take the list of the events their \<open>select\<close> meets.

  Not modelled, and why. PostgreSQL and RabbitMQ are the meaning of their statements and answers
  (\<open>Tables\<close>, \<open>Broker\<close>); the JSONB normalisation of a body, the YAML decoder, \<open>url.Parse\<close>, \<open>http.ParseTime\<close>,
  the tables of \<open>unicode\<close>, name resolution and the HTTP client are parameters of the definitions
  that use them. Opening connections,
  HTTP servers, signals and the Prometheus registry are I/O. \<open>internal/testsupport\<close> is used by tests
  only.
\<close>

end
